(* ===== verification/Prelude.thy ===== *)
theory Prelude
  imports Main "HOL-Library.Word" "HOL-Library.While_Combinator"
begin

text \<open>
  What every component of the development shares: the machine integers of a 32-bit x86 target, the
  outcome of running a piece of firmware and the sequencing of such pieces, and the lemmas on
  words and distances between addresses on which the memory lemmas rest.
\<close>

unbundle bit_operations_syntax

section \<open>Machine integers\<close>

type_synonym u8 = "8 word"
type_synonym u16 = "16 word"
type_synonym u32 = "32 word"
type_synonym u64 = "64 word"

text \<open>An address of the flat 4 GiB address space; \<open>uintptr_t\<close> has the same width.\<close>

type_synonym addr = u32

section \<open>Outcomes of running firmware\<close>

text \<open>
  Behaviour outside the C standard that the model does not give a meaning to. It is a value, so that
  a theorem has to say that it does not happen.
\<close>

datatype fault =
    Array_bounds    \<comment> \<open>a static array is indexed out of its bounds\<close>
  | Signed_overflow \<comment> \<open>a signed operation has no representable result\<close>
  | Missing_vararg  \<comment> \<open>\<open>va_arg\<close> is used with no argument left\<close>

text \<open>
  The two ways the firmware leaves for the operating system: the 32-bit jump of
  \<open>boot_multiboot_from_fw_cfg\<close> and \<open>boot_pvh_from_fw_cfg\<close>, with eax, ebx and ecx, and the
  16-bit trampoline of \<open>boot_bzimage\<close>, with bx and dx.
\<close>

datatype handoff =
    Jump32 u32 u32 u32
  | Jump16 u16 u32

text \<open>
  Every piece of firmware that can do more than compute a value runs from a state to an outcome: it
  returns a value and a state, it halts in \<open>panic()\<close>, it hands over to the operating system, it
  never returns (a loop whose condition stays true), or it does something without a meaning.
\<close>

datatype ('s, 'a) outcome =
    Ret 'a 's
  | Panic 's
  | Handoff handoff 's
  | Hang
  | Fault fault

type_synonym ('s, 'a) prog = "'s \<Rightarrow> ('s, 'a) outcome"

definition ret :: "'a \<Rightarrow> ('s, 'a) prog" where
  "ret a s = Ret a s"

definition bind :: "('s, 'a) prog \<Rightarrow> ('a \<Rightarrow> ('s, 'b) prog) \<Rightarrow> ('s, 'b) prog" where
  "bind f g s = (case f s of
      Ret a s' \<Rightarrow> g a s'
    | Panic s' \<Rightarrow> Panic s'
    | Handoff h s' \<Rightarrow> Handoff h s'
    | Hang \<Rightarrow> Hang
    | Fault x \<Rightarrow> Fault x)"

text \<open>Two statements one after the other, the value of the first dropped.\<close>

definition andthen :: "('s, 'a) prog \<Rightarrow> ('s, 'b) prog \<Rightarrow> ('s, 'b) prog" where
  "andthen f g = bind f (\<lambda>_. g)"

definition get_state :: "('s, 's) prog" where
  "get_state s = Ret s s"

definition update :: "('s \<Rightarrow> 's) \<Rightarrow> ('s, unit) prog" where
  "update f s = Ret () (f s)"

definition panic :: "('s, 'a) prog" where
  "panic s = Panic s"

text \<open>\<open>if (c) p;\<close>\<close>

definition when_do :: "bool \<Rightarrow> ('s, unit) prog \<Rightarrow> ('s, unit) prog" where
  "when_do c p = (if c then p else ret ())"

text \<open>\<open>for (x in xs) p(x);\<close>\<close>

primrec for_each :: "'x list \<Rightarrow> ('x \<Rightarrow> ('s, unit) prog) \<Rightarrow> ('s, unit) prog" where
  "for_each [] p = ret ()"
| "for_each (x # xs) p = andthen (p x) (for_each xs p)"

named_theorems prog_simps "unfolding of the sequencing operators on a given state"

lemma bind_apply [prog_simps]:
  "bind f g s = (case f s of Ret a s' \<Rightarrow> g a s' | Panic s' \<Rightarrow> Panic s'
     | Handoff h s' \<Rightarrow> Handoff h s' | Hang \<Rightarrow> Hang | Fault x \<Rightarrow> Fault x)"
  by (rule bind_def)

lemma andthen_apply [prog_simps]:
  "andthen f g s = (case f s of Ret a s' \<Rightarrow> g s' | Panic s' \<Rightarrow> Panic s'
     | Handoff h s' \<Rightarrow> Handoff h s' | Hang \<Rightarrow> Hang | Fault x \<Rightarrow> Fault x)"
  by (simp add: andthen_def bind_def)

lemma ret_apply [simp]: "ret a s = Ret a s"
  by (simp add: ret_def)

lemma get_state_apply [simp]: "get_state s = Ret s s"
  by (simp add: get_state_def)

lemma update_apply [simp]: "update f s = Ret () (f s)"
  by (simp add: update_def)

lemma panic_apply [simp]: "panic s = Panic s"
  by (simp add: panic_def)

lemma when_do_simps [simp]: "when_do True p = p" "when_do False p = ret ()"
  by (simp_all add: when_do_def)

lemma bind_run: "p s = Ret v t \<Longrightarrow> bind p f s = f v t"
  by (simp add: bind_apply)

lemma andthen_run: "andthen p q s = Ret () t \<Longrightarrow> andthen p (andthen q r) s = r t"
  by (auto simp: andthen_apply split: outcome.splits)

lemma bind_assoc: "bind (bind f g) h = bind f (\<lambda>x. bind (g x) h)"
  by (rule ext) (simp add: bind_def split: outcome.split)

lemma bind_eq_Ret:
  "bind f g s = Ret b t \<longleftrightarrow> (\<exists>a s'. f s = Ret a s' \<and> g a s' = Ret b t)"
  by (auto simp: bind_def split: outcome.splits)

lemma andthen_eq_Ret:
  "andthen f g s = Ret b t \<longleftrightarrow> (\<exists>a s'. f s = Ret a s' \<and> g s' = Ret b t)"
  by (auto simp: andthen_def bind_eq_Ret)

text \<open>A loop keeps whatever one run of its body keeps.\<close>

lemma for_each_invariant:
  assumes "\<And>x s. x \<in> set xs \<Longrightarrow> I s \<Longrightarrow> \<exists>s'. p x s = Ret () s' \<and> I s'"
    and "I s"
  shows "\<exists>s'. for_each xs p s = Ret () s' \<and> I s'"
  using assms
proof (induction xs arbitrary: s)
  case Nil
  then show ?case by simp
next
  case (Cons x xs)
  then obtain s1 where "p x s = Ret () s1" "I s1" by fastforce
  moreover have "\<exists>s'. for_each xs p s1 = Ret () s' \<and> I s'"
    using Cons.IH Cons.prems(1) \<open>I s1\<close> by simp
  ultimately show ?case by (simp add: prog_simps)
qed

text \<open>A loop that stops after \<open>k\<close> rounds.\<close>

lemma while_option_rounds:
  "(\<forall>j < k. b ((c ^^ j) s)) \<Longrightarrow> \<not> b ((c ^^ k) s) \<Longrightarrow> while_option b c s = Some ((c ^^ k) s)"
proof (induction k arbitrary: s)
  case 0
  then show ?case by (simp add: while_option_unfold)
next
  case (Suc k)
  have "b ((c ^^ j) (c s))" if "j < k" for j
    using Suc.prems(1) [rule_format, of "Suc j"] that by (simp add: funpow_swap1)
  then have "while_option b c (c s) = Some ((c ^^ k) (c s))"
    using Suc.prems(2) by (intro Suc.IH) (simp_all add: funpow_swap1)
  moreover have "b s" using Suc.prems(1) [rule_format, of 0] by simp
  ultimately show ?case by (subst while_option_unfold) (simp add: funpow_swap1)
qed

text \<open>
  \<open>for (i = 0; i < bound; i++) p(i);\<close> with a signed counter, where the bound is read again in each round. The
  counter can take \<open>2 ^ 31\<close> values; a round more is a signed overflow.
\<close>

primrec count_loop :: "nat \<Rightarrow> nat \<Rightarrow> ('s \<Rightarrow> nat) \<Rightarrow> (nat \<Rightarrow> ('s, unit) prog) \<Rightarrow> ('s, unit) prog" where
  "count_loop 0 i bound p = (\<lambda>s. if i < bound s then Fault Signed_overflow else Ret () s)"
| "count_loop (Suc k) i bound p =
     (\<lambda>s. if i < bound s then andthen (p i) (count_loop k (Suc i) bound p) s else Ret () s)"

definition for_below :: "('s \<Rightarrow> nat) \<Rightarrow> (nat \<Rightarrow> ('s, unit) prog) \<Rightarrow> ('s, unit) prog" where
  "for_below bound p = count_loop (2 ^ 31) 0 bound p"

text \<open>When the body keeps an invariant that fixes the bound, this is the plain loop.\<close>

lemma count_loop_for_each:
  assumes "\<And>s. I s \<Longrightarrow> bound s = n"
    and "\<And>i s. i < n \<Longrightarrow> I s \<Longrightarrow> \<exists>s'. p i s = Ret () s' \<and> I s'"
    and "n \<le> i + k" "i \<le> n" "I s"
  shows "count_loop k i bound p s = for_each [i..<n] p s"
  using assms(3-5)
proof (induction k arbitrary: i s)
  case 0
  then show ?case using assms(1) by simp
next
  case (Suc k)
  show ?case
  proof (cases "i < n")
    case True
    with assms(2) Suc.prems obtain s' where "p i s = Ret () s'" "I s'" by blast
    with Suc.IH [of "Suc i" s'] Suc.prems True assms(1) show ?thesis
      by (simp add: prog_simps upt_conv_Cons)
  next
    case False
    then show ?thesis using assms(1) Suc.prems by simp
  qed
qed

lemma for_below_for_each:
  assumes "\<And>s. I s \<Longrightarrow> bound s = n"
    and "\<And>i s. i < n \<Longrightarrow> I s \<Longrightarrow> \<exists>s'. p i s = Ret () s' \<and> I s'"
    and "n \<le> 2 ^ 31" "I s"
  shows "for_below bound p s = for_each [0..<n] p s"
  unfolding for_below_def by (rule count_loop_for_each [OF assms(1,2)]) (use assms(3,4) in simp_all)

section \<open>Distances between addresses\<close>

text \<open>
  \<open>unat (a - p)\<close> is how far \<open>a\<close> lies above \<open>p\<close>, going round at 4 GiB. The \<open>n\<close> bytes at \<open>p\<close> are
  the addresses at a distance below \<open>n\<close>.
\<close>

definition inside :: "addr \<Rightarrow> addr \<Rightarrow> nat \<Rightarrow> bool" where
  "inside a p n \<longleftrightarrow> unat (a - p) < n"

text \<open>Two regions that do not meet: one is empty, or each starts beyond the end of the other.\<close>

definition apart :: "addr \<Rightarrow> nat \<Rightarrow> addr \<Rightarrow> nat \<Rightarrow> bool" where
  "apart p n q m \<longleftrightarrow> n = 0 \<or> m = 0 \<or> (n \<le> unat (q - p) \<and> m \<le> unat (p - q))"

lemma unat_bound: "unat (w :: 'a::len word) < 2 ^ LENGTH('a)"
  by simp

lemma unat_diff_commute:
  fixes p q :: "'a::len word"
  assumes "p \<noteq> q"
  shows "unat (p - q) + unat (q - p) = 2 ^ LENGTH('a)"
proof -
  have "unat p < 2 ^ LENGTH('a)" and "unat q < 2 ^ LENGTH('a)" by simp_all
  moreover have "unat p \<noteq> unat q" using assms word_unat_eq_iff by blast
  ultimately show ?thesis
    unfolding unat_sub_if' by (simp only: split: if_split) linarith
qed

text \<open>A region that does not go round is an interval.\<close>

lemma inside_interval:
  assumes "unat p + n \<le> 2 ^ 32"
  shows "inside a p n \<longleftrightarrow> unat p \<le> unat a \<and> unat a < unat p + n"
  using assms unat_bound [of a] by (simp add: inside_def unat_sub_if' split: if_split) linarith

lemma plus_of_nat_Suc: "p + of_nat (Suc i) = p + 1 + (of_nat i :: 'a::len word)"
  by simp

lemma unat_minus_one_eq:
  fixes x :: "'a::len word"
  shows "x \<noteq> 0 \<Longrightarrow> unat (x - 1) = unat x - 1"
  by (rule unat_minus_one)

section \<open>Widening and narrowing\<close>

lemma ucast_add_down:
  assumes "LENGTH('b) \<le> LENGTH('a)"
  shows "(ucast (a + b :: 'a::len word) :: 'b::len word) = ucast a + ucast b"
proof -
  have "take_bit LENGTH('b) (take_bit LENGTH('a) (x + y)) =
    take_bit LENGTH('b) (take_bit LENGTH('a) x + take_bit LENGTH('a) y)" for x y :: int
    using assms by (metis take_bit_add take_bit_take_bit min.absorb1)
  then show ?thesis by transfer simp
qed

lemma ucast_ucast_up:
  "LENGTH('a) \<le> LENGTH('b) \<Longrightarrow> ucast (ucast (x :: 'a::len word) :: 'b::len word) = x"
  by (auto intro!: bit_word_eqI simp: bit_ucast_iff)

lemma unat_of_nat_u32: "k < 2 ^ 32 \<Longrightarrow> unat (of_nat k :: u32) = k"
  by (simp add: unat_of_nat)

lemma unat_ucast_u16 [simp]: "unat (ucast (w :: u16) :: u32) = unat w"
  using unat_bound [of w] by (simp add: unsigned_ucast_eq take_bit_nat_eq_self)

lemma unat_ucast_u8 [simp]: "unat (ucast (w :: u8) :: u32) = unat w"
  using unat_bound [of w] by (simp add: unsigned_ucast_eq take_bit_nat_eq_self)

lemma unat_sub_le: "unat n \<le> unat (x :: u32) \<Longrightarrow> unat (x - n) = unat x - unat n"
  by (simp add: unat_sub_if')

lemma unat_add_less: "unat x + unat n < 2 ^ 32 \<Longrightarrow> unat (x + n :: u32) = unat x + unat n"
  by (simp add: unat_word_ariths)

text \<open>A word below half its range has the same value signed and unsigned.\<close>

lemma sint_small:
  assumes "unat (w :: u32) < 2 ^ 31"
  shows "sint w = int (unat w)"
proof -
  have "int (unat w) < int (2 ^ 31)" using assms by (simp only: of_nat_less_iff)
  then have "uint w < 2 ^ 31" by simp
  moreover have "- (2 ^ 31) \<le> uint w" by (rule order.trans [of _ 0]) simp_all
  ultimately show ?thesis by (simp add: sint_uint signed_take_bit_int_eq_self_iff)
qed

section \<open>Searching a list\<close>

text \<open>The position of the first element that satisfies a predicate: what every search loop returns.\<close>

primrec index_of :: "('a \<Rightarrow> bool) \<Rightarrow> 'a list \<Rightarrow> nat option" where
  "index_of P [] = None"
| "index_of P (x # xs) = (if P x then Some 0 else map_option Suc (index_of P xs))"

primrec tails :: "'a list \<Rightarrow> 'a list list" where
  "tails [] = [[]]"
| "tails (x # xs) = (x # xs) # tails xs"

lemma index_of_None_iff: "index_of P xs = None \<longleftrightarrow> (\<forall>x \<in> set xs. \<not> P x)"
  by (induction xs) auto

lemma index_of_Some_iff:
  "index_of P xs = Some i \<longleftrightarrow> i < length xs \<and> P (xs ! i) \<and> (\<forall>j < i. \<not> P (xs ! j))"
proof (induction xs arbitrary: i)
  case (Cons x xs)
  show ?case
  proof (cases i)
    case 0
    then show ?thesis by simp
  next
    case (Suc k)
    then show ?thesis using Cons [of k] by (auto simp: less_Suc_eq_0_disj)
  qed
qed simp

lemma index_of_less: "index_of P xs = Some i \<Longrightarrow> i < length xs"
  by (simp add: index_of_Some_iff)

lemma length_tails [simp]: "length (tails xs) = Suc (length xs)"
  by (induction xs) auto

lemma nth_tails: "i \<le> length xs \<Longrightarrow> tails xs ! i = drop i xs"
proof (induction xs arbitrary: i)
  case (Cons x xs)
  then show ?case by (cases i) auto
qed simp

end
