(* ===== verification/Memory.thy ===== *)
theory Memory
  imports Prelude
begin

text \<open>
  The flat memory the firmware runs on, byte by byte, and the accesses the C code makes to it:
  \<open>memcpy\<close> and \<open>memset\<close> of include/string.h, the unaligned loads and stores of
  include/memaccess.h, the byte swaps of include/bswap.h and the real-mode address arithmetic of
  include/segment.h. The lemmas say what a load returns after a store, and which stores leave it alone.
\<close>

section \<open>Bytes in memory\<close>

type_synonym mem = "addr \<Rightarrow> u8"

primrec load_bytes :: "mem \<Rightarrow> addr \<Rightarrow> nat \<Rightarrow> u8 list" where
  "load_bytes m p 0 = []"
| "load_bytes m p (Suc n) = m p # load_bytes m (p + 1) n"

primrec store_bytes :: "mem \<Rightarrow> addr \<Rightarrow> u8 list \<Rightarrow> mem" where
  "store_bytes m p [] = m"
| "store_bytes m p (b # bs) = store_bytes (m(p := b)) (p + 1) bs"

text \<open>\<open>memcpy\<close> and \<open>memset\<close> are the compiler's built-in functions; regions given to
  \<open>memcpy\<close> do not overlap.\<close>

definition memcpy :: "addr \<Rightarrow> addr \<Rightarrow> u32 \<Rightarrow> mem \<Rightarrow> mem" where
  "memcpy dest src n m = store_bytes m dest (load_bytes m src (unat n))"

definition memset :: "addr \<Rightarrow> u32 \<Rightarrow> u32 \<Rightarrow> mem \<Rightarrow> mem" where
  "memset s c n m = store_bytes m s (replicate (unat n) (ucast c))"

named_theorems mem_simps "what a load returns after a store"

lemma length_load_bytes [simp]: "length (load_bytes m p n) = n"
  by (induction n arbitrary: p) auto

lemma nth_load_bytes [simp]: "i < n \<Longrightarrow> load_bytes m p n ! i = m (p + of_nat i)"
proof (induction n arbitrary: p i)
  case 0
  then show ?case by simp
next
  case (Suc n)
  then show ?case by (cases i) (auto simp: algebra_simps)
qed

lemma load_bytes_eqI:
  "length bs = n \<Longrightarrow> (\<And>i. i < n \<Longrightarrow> m (p + of_nat i) = bs ! i) \<Longrightarrow> load_bytes m p n = bs"
  by (rule nth_equalityI) simp_all

lemma load_bytes_cong:
  "(\<And>i. i < n \<Longrightarrow> m (p + of_nat i) = m' (q + of_nat i)) \<Longrightarrow> load_bytes m p n = load_bytes m' q n"
  by (rule nth_equalityI) simp_all

lemma load_bytes_append:
  "load_bytes m p (n + k) = load_bytes m p n @ load_bytes m (p + of_nat n) k"
  by (induction n arbitrary: p) (auto simp: algebra_simps)

lemma store_bytes_append:
  "store_bytes m p (bs @ cs) = store_bytes (store_bytes m p bs) (p + of_nat (length bs)) cs"
  by (induction bs arbitrary: m p) (auto simp: algebra_simps)

text \<open>A store, read at one address: the byte stored there, if the address lies in the region.\<close>

lemma store_bytes_at:
  "length bs \<le> 2 ^ 32 \<Longrightarrow>
    store_bytes m p bs a = (if inside a p (length bs) then bs ! unat (a - p) else m a)"
proof (induction bs arbitrary: m p)
  case Nil
  then show ?case by (simp add: inside_def)
next
  case (Cons b bs)
  show ?case
  proof (cases "a = p")
    case True
    have "unat (- 1 :: addr) = 2 ^ 32 - 1"
      by (simp add: unsigned_minus_1_eq_mask mask_eq_exp_minus_1)
    with Cons.prems have "\<not> inside p (p + 1) (length bs)"
      by (simp add: inside_def)
    with True Cons show ?thesis by (simp add: inside_def)
  next
    case False
    then have "unat (a - (p + 1)) = unat (a - p) - 1" "0 < unat (a - p)"
      using unat_minus_one [of "a - p"] by (auto simp: diff_diff_eq [symmetric] unat_gt_0)
    with False Cons show ?thesis by (auto simp: inside_def nth_Cons')
  qed
qed

lemma store_bytes_outside:
  "\<not> inside a p n \<Longrightarrow> length bs \<le> n \<Longrightarrow> n \<le> 2 ^ 32 \<Longrightarrow> store_bytes m p bs a = m a"
  by (auto simp: store_bytes_at inside_def)

lemma apart_not_inside:
  assumes "apart p n q m" and "i < m"
  shows "\<not> inside (q + of_nat i) p n"
proof -
  let ?d = "unat (q - p)"
  show ?thesis
  proof (cases "n = 0")
    case False
    with assms have d: "n \<le> ?d" "m \<le> unat (p - q)" by (auto simp: apart_def)
    then have "p \<noteq> q" using assms(2) by auto
    then have "unat (p - q) + ?d = 2 ^ 32" using unat_diff_commute [of p q] by simp
    then have "?d + i < 2 ^ 32" "i < 2 ^ 32" using d assms(2) by linarith+
    then have "unat ((q - p) + of_nat i) = ?d + i"
      by (subst unat_word_ariths) (simp add: unat_of_nat)
    moreover have "q + of_nat i - p = (q - p) + of_nat i" by simp
    ultimately have "unat (q + of_nat i - p) = ?d + i" by (simp only:)
    with d(1) show ?thesis by (simp add: inside_def)
  qed (simp add: inside_def)
qed

lemma apart_commute: "apart p n q m \<longleftrightarrow> apart q m p n"
  by (auto simp: apart_def)

lemma apart_mono: "apart p n q m \<Longrightarrow> n' \<le> n \<Longrightarrow> m' \<le> m \<Longrightarrow> apart p n' q m'"
  by (auto simp: apart_def)

lemma apart_length: "apart p n q m \<Longrightarrow> 0 < m \<Longrightarrow> n \<le> 2 ^ 32"
  using unat_bound [of "q - p"] by (auto simp: apart_def)

lemma inside_offset: "i < n \<Longrightarrow> n \<le> 2 ^ 32 \<Longrightarrow> inside (p + of_nat i) p n"
  by (simp add: inside_def unat_of_nat)

lemma insideE:
  assumes "inside a p n"
  obtains i where "i < n" "a = p + of_nat i"
proof
  show "unat (a - p) < n" using assms by (simp add: inside_def)
  show "a = p + of_nat (unat (a - p))" by simp
qed

lemma inside_offset_iff: "i < 2 ^ 32 \<Longrightarrow> inside (p + of_nat i) p n \<longleftrightarrow> i < n"
  by (simp add: inside_def unat_of_nat)

lemma inside_sub:
  assumes "inside a (p + of_nat i) n" "i + n \<le> m" "m \<le> 2 ^ 32"
  shows "inside a p m"
proof -
  from assms(1) obtain j where j: "j < n" "a = p + of_nat i + of_nat j" by (rule insideE)
  then have "inside (p + of_nat (i + j)) p m" using assms by (intro inside_offset) simp_all
  then show ?thesis by (simp add: j(2) add.assoc)
qed

lemma apart_next: "n + k \<le> 2 ^ 32 \<Longrightarrow> apart (p + of_nat n) k p n"
proof (cases "n = 0 \<or> k = 0")
  case False
  assume "n + k \<le> 2 ^ 32"
  with False have u: "unat (of_nat n :: addr) = n" by (intro unat_of_nat_u32) simp
  then have "of_nat n \<noteq> (0 :: addr)" using False by auto
  then have "unat (- of_nat n :: addr) = 2 ^ 32 - n"
    using unat_diff_commute [of 0 "of_nat n :: addr"] u by simp
  with u \<open>n + k \<le> 2 ^ 32\<close> show ?thesis by (simp add: apart_def) linarith
qed (auto simp: apart_def)

text \<open>What was stored is what is loaded, and a store elsewhere does not change a load.\<close>

lemma load_store_same [mem_simps]:
  "length bs \<le> 2 ^ 32 \<Longrightarrow> n = length bs \<Longrightarrow> load_bytes (store_bytes m p bs) p n = bs"
  by (rule load_bytes_eqI) (auto simp: store_bytes_at inside_def unat_of_nat)

lemma load_store_apart [mem_simps]:
  assumes "apart p (length bs) q n"
  shows "load_bytes (store_bytes m p bs) q n = load_bytes m q n"
proof (cases "n = 0")
  case False
  then have "length bs \<le> 2 ^ 32" using apart_length assms by blast
  then show ?thesis
    using assms by (intro load_bytes_cong) (simp add: store_bytes_at apart_not_inside)
qed simp

lemma store_bytes_apart:
  assumes "apart p (length bs) q n" "inside a q n"
  shows "store_bytes m p bs a = m a"
proof -
  from assms(2) obtain i where i: "i < n" "a = q + of_nat i" by (rule insideE)
  then have "length bs \<le> 2 ^ 32" using apart_length [OF assms(1)] by simp
  with i assms(1) show ?thesis by (simp add: store_bytes_at apart_not_inside)
qed

lemma store_bytes_idem:
  "load_bytes m p (length bs) = bs \<Longrightarrow> length bs \<le> 2 ^ 32 \<Longrightarrow> store_bytes m p bs = m"
proof (rule ext)
  fix a assume bs: "load_bytes m p (length bs) = bs" "length bs \<le> 2 ^ 32"
  show "store_bytes m p bs a = m a"
  proof (cases "inside a p (length bs)")
    case True
    then have i: "unat (a - p) < length bs" by (simp add: inside_def)
    have "bs ! unat (a - p) = load_bytes m p (length bs) ! unat (a - p)" by (simp add: bs(1))
    also have "\<dots> = m a" using i by simp
    finally show ?thesis using True bs(2) by (simp add: store_bytes_at)
  next
    case False
    then show ?thesis using bs(2) by (simp add: store_bytes_at)
  qed
qed

lemma apart_sub:
  assumes "apart p n q m" "i + k \<le> n"
  shows "apart (p + of_nat i) k q m"
proof (cases "k = 0 \<or> m = 0")
  case False
  then have d: "n \<le> unat (q - p)" "m \<le> unat (p - q)" using assms by (auto simp: apart_def)
  then have "p \<noteq> q" using False assms(2) by auto
  then have sum: "unat (p - q) + unat (q - p) = 2 ^ 32" using unat_diff_commute [of p q] by simp
  then have i: "unat (of_nat i :: addr) = i" using d assms(2) False by (intro unat_of_nat_u32) linarith
  have "unat ((q - p) - of_nat i) = unat (q - p) - i"
    using d(1) assms(2) i by (subst unat_sub_le) simp_all
  moreover have "unat ((p - q) + of_nat i) = unat (p - q) + i"
    using sum d assms(2) False i by (subst unat_add_less) simp_all
  moreover have "q - (p + of_nat i) = (q - p) - of_nat i" "p + of_nat i - q = (p - q) + of_nat i"
    by (simp_all add: algebra_simps)
  ultimately show ?thesis using d assms(2) by (simp only: apart_def) linarith
qed (auto simp: apart_def)

text \<open>A store inside a region replaces that part of what is in it.\<close>

lemma load_bytes_sub:
  assumes "i + k \<le> n"
  shows "load_bytes m (p + of_nat i) k = take k (drop i (load_bytes m p n))"
  using assms by (intro nth_equalityI) (simp_all add: add.assoc)

definition splice :: "nat \<Rightarrow> 'a list \<Rightarrow> 'a list \<Rightarrow> 'a list" where
  "splice i cs bs = take i bs @ cs @ drop (i + length cs) bs"

lemma length_splice [simp]: "i + length cs \<le> length bs \<Longrightarrow> length (splice i cs bs) = length bs"
  by (simp add: splice_def)

lemma load_store_within:
  assumes "i + length cs \<le> n" "n \<le> 2 ^ 32"
  shows "load_bytes (store_bytes m (p + of_nat i) cs) p n = splice i cs (load_bytes m p n)"
proof (rule load_bytes_eqI)
  fix j assume j: "j < n"
  show "store_bytes m (p + of_nat i) cs (p + of_nat j) = splice i cs (load_bytes m p n) ! j"
  proof (cases "i \<le> j")
    case True
    have "p + of_nat j = (p + of_nat i) + of_nat (j - i)" using True by simp
    moreover have "unat (of_nat (j - i) :: addr) = j - i" using j assms by (intro unat_of_nat_u32) simp
    ultimately show ?thesis
      using True j assms by (simp add: store_bytes_at inside_def splice_def nth_append)
  next
    case False
    have "apart (p + of_nat i) (length cs) p i" using assms by (intro apart_next) simp
    then have "\<not> inside (p + of_nat j) (p + of_nat i) (length cs)"
      using False by (intro apart_not_inside [where m = i]) simp_all
    then show ?thesis using False j assms by (simp add: store_bytes_at splice_def nth_append)
  qed
qed (use assms in \<open>simp add: splice_def\<close>)

section \<open>Little-endian integers\<close>

primrec le_word :: "u8 list \<Rightarrow> 'a::len word" where
  "le_word [] = 0"
| "le_word (b # bs) = ucast b OR push_bit 8 (le_word bs)"

primrec le_bytes :: "nat \<Rightarrow> 'a::len word \<Rightarrow> u8 list" where
  "le_bytes 0 w = []"
| "le_bytes (Suc n) w = ucast w # le_bytes n (drop_bit 8 w)"

lemma length_le_bytes [simp]: "length (le_bytes n w) = n"
  by (induction n arbitrary: w) auto

lemma nth_le_bytes: "i < n \<Longrightarrow> le_bytes n w ! i = ucast (drop_bit (8 * i) w)"
proof (induction n arbitrary: w i)
  case (Suc n)
  then show ?case by (cases i) (auto simp: algebra_simps)
qed simp

lemma bit_le_word:
  "bit (le_word bs :: 'a::len word) k \<longleftrightarrow>
     k < LENGTH('a) \<and> k div 8 < length bs \<and> bit (bs ! (k div 8)) (k mod 8)"
proof (induction bs arbitrary: k)
  case (Cons b bs)
  show ?case
  proof (cases "k < 8")
    case True
    then show ?thesis by (auto simp: bit_or_iff bit_push_bit_iff bit_ucast_iff dest: bit_imp_le_length)
  next
    case False
    then have "k div 8 = Suc ((k - 8) div 8)" "k mod 8 = (k - 8) mod 8"
      by (simp_all add: le_div_geq le_mod_geq)
    moreover have "\<not> bit b k" using False bit_imp_le_length [of b k] by auto
    ultimately show ?thesis
      using False Cons.IH [of "k - 8"] by (auto simp: bit_or_iff bit_push_bit_iff bit_ucast_iff)
  qed
qed simp

lemma le_word_le_bytes:
  assumes "LENGTH('a) \<le> 8 * n"
  shows "le_word (le_bytes n w) = (w :: 'a::len word)"
proof (rule bit_word_eqI)
  fix k assume k: "k < LENGTH('a)"
  then have "k div 8 < n" using assms by auto
  with k show "bit (le_word (le_bytes n w) :: 'a word) k = bit w k"
    by (simp add: bit_le_word nth_le_bytes bit_ucast_iff bit_drop_bit_eq)
qed

lemma le_bytes_le_word:
  assumes "8 * length bs \<le> LENGTH('a::len)"
  shows "le_bytes (length bs) (le_word bs :: 'a word) = bs"
proof (rule nth_equalityI)
  fix i assume "i < length (le_bytes (length bs) (le_word bs :: 'a word))"
  then have i: "i < length bs" by simp
  show "le_bytes (length bs) (le_word bs :: 'a word) ! i = bs ! i"
  proof (rule bit_word_eqI)
    fix k assume "k < LENGTH(8)"
    then have "k < 8" by simp
    then have "(8 * i + k) div 8 = i" "(8 * i + k) mod 8 = k" "8 * i + k < LENGTH('a)"
      using i assms by auto
    with \<open>k < 8\<close> i show "bit (le_bytes (length bs) (le_word bs :: 'a word) ! i) k = bit (bs ! i) k"
      by (simp add: nth_le_bytes bit_ucast_iff bit_drop_bit_eq bit_le_word)
  qed
qed simp

text \<open>Big-endian integers have the bytes in the other order.\<close>

definition be_word :: "u8 list \<Rightarrow> 'a::len word" where
  "be_word bs = le_word (rev bs)"

definition be_bytes :: "nat \<Rightarrow> 'a::len word \<Rightarrow> u8 list" where
  "be_bytes n w = rev (le_bytes n w)"

lemma length_be_bytes [simp]: "length (be_bytes n w) = n"
  by (simp add: be_bytes_def)

section \<open>Fixed-width encodings and arrays of them\<close>

text \<open>The element \<open>i\<close> of an array at \<open>p\<close> is decoded from the \<open>w\<close> bytes at \<open>p + i * w\<close>.\<close>

primrec load_array :: "nat \<Rightarrow> (u8 list \<Rightarrow> 'a) \<Rightarrow> mem \<Rightarrow> addr \<Rightarrow> nat \<Rightarrow> 'a list" where
  "load_array w dec m p 0 = []"
| "load_array w dec m p (Suc n) = dec (load_bytes m p w) # load_array w dec m (p + of_nat w) n"

primrec pieces :: "nat \<Rightarrow> nat \<Rightarrow> 'a list \<Rightarrow> 'a list list" where
  "pieces w 0 xs = []"
| "pieces w (Suc n) xs = take w xs # pieces w n (drop w xs)"

lemma length_load_array [simp]: "length (load_array w dec m p n) = n"
  by (induction n arbitrary: p) auto

lemma nth_load_array:
  "i < n \<Longrightarrow> load_array w dec m p n ! i = dec (load_bytes m (p + of_nat (i * w)) w)"
proof (induction n arbitrary: p i)
  case (Suc n)
  then show ?case by (cases i) (auto simp: algebra_simps)
qed simp

lemma load_array_pieces: "load_array w dec m p n = map dec (pieces w n (load_bytes m p (w * n)))"
  by (induction n arbitrary: p) (auto simp: load_bytes_append)

lemma load_array_cong:
  assumes "\<And>i. i < w * n \<Longrightarrow> m (p + of_nat i) = m' (q + of_nat i)"
  shows "load_array w dec m p n = load_array w dec m' q n"
  unfolding load_array_pieces by (metis assms load_bytes_cong)

text \<open>
  The layout of an integer or a packed struct in memory. What the components rely on is that a value
  read back is the value written, alone or in an array.
\<close>

locale codec =
  fixes width :: nat
    and valid :: "'a \<Rightarrow> bool"
    and enc :: "'a \<Rightarrow> u8 list"
    and dec :: "u8 list \<Rightarrow> 'a"
  assumes length_enc [simp]: "valid x \<Longrightarrow> length (enc x) = width"
    and dec_enc [simp]: "valid x \<Longrightarrow> dec (enc x) = x"
    and width_bound: "width \<le> 2 ^ 32"
begin

lemma load_stored: "valid x \<Longrightarrow> dec (load_bytes (store_bytes m p (enc x)) p width) = x"
  using width_bound by (simp add: load_store_same)

lemma enc_inject: "valid x \<Longrightarrow> valid y \<Longrightarrow> enc x = enc y \<Longrightarrow> x = y"
  by (metis dec_enc)

lemma length_concat_enc: "\<forall>x \<in> set xs. valid x \<Longrightarrow> length (concat (map enc xs)) = width * length xs"
  by (induction xs) auto

lemma pieces_enc:
  "\<forall>x \<in> set xs. valid x \<Longrightarrow> pieces width (length xs) (concat (map enc xs)) = map enc xs"
  by (induction xs) auto

lemma load_array_bytes:
  assumes "\<forall>x \<in> set xs. valid x" and "load_bytes m p (width * length xs) = concat (map enc xs)"
  shows "load_array width dec m p (length xs) = xs"
  using assms by (simp add: load_array_pieces pieces_enc map_idI)

lemma load_array_stored:
  assumes "\<forall>x \<in> set xs. valid x" and "width * length xs \<le> 2 ^ 32"
  shows "load_array width dec (store_bytes m p (concat (map enc xs))) p (length xs) = xs"
  using assms by (intro load_array_bytes) (simp_all add: load_store_same length_concat_enc)

end

interpretation le8: codec 1 "\<lambda>_. True" "\<lambda>w :: u8. le_bytes 1 w" le_word
  by unfold_locales (auto intro!: le_word_le_bytes)

interpretation le16: codec 2 "\<lambda>_. True" "\<lambda>w :: u16. le_bytes 2 w" le_word
  by unfold_locales (auto intro!: le_word_le_bytes)

interpretation le32: codec 4 "\<lambda>_. True" "\<lambda>w :: u32. le_bytes 4 w" le_word
  by unfold_locales (auto intro!: le_word_le_bytes)

interpretation le64: codec 8 "\<lambda>_. True" "\<lambda>w :: u64. le_bytes 8 w" le_word
  by unfold_locales (auto intro!: le_word_le_bytes)

interpretation be16: codec 2 "\<lambda>_. True" "\<lambda>w :: u16. be_bytes 2 w" be_word
  by unfold_locales (auto simp: be_bytes_def be_word_def intro!: le_word_le_bytes)

interpretation be32: codec 4 "\<lambda>_. True" "\<lambda>w :: u32. be_bytes 4 w" be_word
  by unfold_locales (auto simp: be_bytes_def be_word_def intro!: le_word_le_bytes)

interpretation be64: codec 8 "\<lambda>_. True" "\<lambda>w :: u64. be_bytes 8 w" be_word
  by unfold_locales (auto simp: be_bytes_def be_word_def intro!: le_word_le_bytes)

text \<open>Different elements of an array do not meet.\<close>

lemma apart_interval:
  assumes "unat p + n \<le> unat q" "unat q + m \<le> 2 ^ 32"
  shows "apart p n q m"
  using assms unat_bound [of p] by (auto simp: apart_def unat_sub_if')

lemma apart_elements:
  assumes "i \<noteq> j" "i < n" "j < n" "w * n \<le> 2 ^ 32"
  shows "apart (p + of_nat (w * i)) w (p + of_nat (w * j)) w"
proof -
  have ordered: "apart (p + of_nat (w * a)) w (p + of_nat (w * b)) w" if "a < b" "b < n" for a b
  proof (cases "w = 0")
    case False
    have le: "w * a + w \<le> w * b" "w * b + w \<le> w * n"
      using mult_le_mono2 [of "Suc a" b w] mult_le_mono2 [of "Suc b" n w] that by simp_all
    then have "w * a < 2 ^ 32" "w * b < 2 ^ 32" using assms(4) False by linarith+
    then have u: "unat (of_nat (w * a) :: addr) = w * a" "unat (of_nat (w * b) :: addr) = w * b"
      by (simp_all add: unat_of_nat del: of_nat_mult)
    have "apart (of_nat (w * a)) w (of_nat (w * b)) w"
      using le assms(4) by (intro apart_interval; unfold u) simp_all
    then show ?thesis by (simp add: apart_def)
  qed (simp add: apart_def)
  from assms(1) consider "i < j" | "j < i" by linarith
  then show ?thesis using ordered assms(2,3) apart_commute by cases blast+
qed

text \<open>Writing one element, and splitting an array in two.\<close>

lemma load_array_update:
  assumes "length bs = w" "j < n" "w * n \<le> 2 ^ 32"
  shows "load_array w dec (store_bytes m (p + of_nat (w * j)) bs) p n = (load_array w dec m p n)[j := dec bs]"
proof (rule nth_equalityI)
  fix i assume "i < length (load_array w dec (store_bytes m (p + of_nat (w * j)) bs) p n)"
  then have i: "i < n" by simp
  have "w \<le> w * n" using assms(2) by simp
  then have w: "w \<le> 2 ^ 32" using assms(3) by linarith
  show "load_array w dec (store_bytes m (p + of_nat (w * j)) bs) p n ! i
      = (load_array w dec m p n)[j := dec bs] ! i"
  proof (cases "i = j")
    case True
    then show ?thesis using assms w by (simp add: nth_load_array mult.commute load_store_same)
  next
    case False
    then have "apart (p + of_nat (w * j)) w (p + of_nat (w * i)) w"
      using i assms by (intro apart_elements) auto
    then show ?thesis
      using False i assms(1) by (simp add: nth_load_array mult.commute [of _ w] load_store_apart del: of_nat_mult)
  qed
qed simp

lemma load_array_append:
  "load_array w dec m p (n + k) = load_array w dec m p n @ load_array w dec m (p + of_nat (w * n)) k"
  by (induction n arbitrary: p) (auto simp: algebra_simps)

section \<open>Unaligned accesses (include/memaccess.h)\<close>

definition lduw_p :: "mem \<Rightarrow> addr \<Rightarrow> u16" where
  "lduw_p m p = le_word (load_bytes m p 2)"

definition ldl_p :: "mem \<Rightarrow> addr \<Rightarrow> u32" where
  "ldl_p m p = le_word (load_bytes m p 4)"

definition stw_p :: "addr \<Rightarrow> u16 \<Rightarrow> mem \<Rightarrow> mem" where
  "stw_p p val m = store_bytes m p (le_bytes 2 val)"

definition stl_p :: "addr \<Rightarrow> u32 \<Rightarrow> mem \<Rightarrow> mem" where
  "stl_p p val m = store_bytes m p (le_bytes 4 val)"

text \<open>64-bit struct members are read and written by the compiler in the same order.\<close>

definition ldq_p :: "mem \<Rightarrow> addr \<Rightarrow> u64" where
  "ldq_p m p = le_word (load_bytes m p 8)"

definition stq_p :: "addr \<Rightarrow> u64 \<Rightarrow> mem \<Rightarrow> mem" where
  "stq_p p val m = store_bytes m p (le_bytes 8 val)"

lemma lduw_stw_same [mem_simps]: "lduw_p (stw_p p v m) p = v"
  by (simp add: lduw_p_def stw_p_def le16.load_stored)

lemma ldl_stl_same [mem_simps]: "ldl_p (stl_p p v m) p = v"
  by (simp add: ldl_p_def stl_p_def le32.load_stored)

lemma ldq_stq_same [mem_simps]: "ldq_p (stq_p p v m) p = v"
  by (simp add: ldq_p_def stq_p_def le64.load_stored)

lemma ldl_store_apart [mem_simps]:
  "apart q (length bs) p 4 \<Longrightarrow> ldl_p (store_bytes m q bs) p = ldl_p m p"
  "apart q 2 p 4 \<Longrightarrow> ldl_p (stw_p q w m) p = ldl_p m p"
  "apart q 4 p 4 \<Longrightarrow> ldl_p (stl_p q v m) p = ldl_p m p"
  "apart q 8 p 4 \<Longrightarrow> ldl_p (stq_p q x m) p = ldl_p m p"
  by (simp_all add: ldl_p_def stw_p_def stl_p_def stq_p_def load_store_apart)

lemma lduw_store_apart [mem_simps]:
  "apart q (length bs) p 2 \<Longrightarrow> lduw_p (store_bytes m q bs) p = lduw_p m p"
  "apart q 2 p 2 \<Longrightarrow> lduw_p (stw_p q w m) p = lduw_p m p"
  "apart q 4 p 2 \<Longrightarrow> lduw_p (stl_p q v m) p = lduw_p m p"
  by (simp_all add: lduw_p_def stw_p_def stl_p_def load_store_apart)

lemma stl_p_at: "stl_p p v m a = (if inside a p 4 then le_bytes 4 v ! unat (a - p) else m a)"
  by (simp add: stl_p_def store_bytes_at)

lemma stw_p_at: "stw_p p v m a = (if inside a p 2 then le_bytes 2 v ! unat (a - p) else m a)"
  by (simp add: stw_p_def store_bytes_at)

lemma stq_p_at: "stq_p p v m a = (if inside a p 8 then le_bytes 8 v ! unat (a - p) else m a)"
  by (simp add: stq_p_def store_bytes_at)

section \<open>Structures filled in field by field\<close>

text \<open>Writes at offsets from \<open>p\<close>, one after the other: what they make of the \<open>n\<close> bytes at \<open>p\<close>.\<close>

definition write_field :: "addr \<Rightarrow> nat \<times> u8 list \<Rightarrow> mem \<Rightarrow> mem" where
  "write_field p f m = store_bytes m (p + of_nat (fst f)) (snd f)"

definition layout :: "(nat \<times> u8 list) list \<Rightarrow> u8 list \<Rightarrow> u8 list" where
  "layout fs bs = fold (\<lambda>f. splice (fst f) (snd f)) fs bs"

definition fields_fit :: "(nat \<times> u8 list) list \<Rightarrow> nat \<Rightarrow> bool" where
  "fields_fit fs n \<longleftrightarrow> n \<le> 2 ^ 32 \<and> (\<forall>f \<in> set fs. fst f + length (snd f) \<le> n)"

lemma write_fields_bytes:
  assumes "fields_fit fs n"
  shows "load_bytes (fold (write_field p) fs m) p n = layout fs (load_bytes m p n)"
  using assms
proof (induction fs arbitrary: m)
  case (Cons f fs)
  then have "load_bytes (write_field p f m) p n = splice (fst f) (snd f) (load_bytes m p n)"
    unfolding write_field_def by (intro load_store_within) (simp_all add: fields_fit_def)
  then show ?case using Cons.IH [of "write_field p f m"] Cons.prems by (simp add: layout_def fields_fit_def)
qed (simp add: layout_def)

lemma write_fields_outside:
  assumes "fields_fit fs n" "\<not> inside a p n"
  shows "fold (write_field p) fs m a = m a"
  using assms(1)
proof (induction fs arbitrary: m)
  case (Cons f fs)
  then have fit: "fst f + length (snd f) \<le> n" "n \<le> 2 ^ 32" "fields_fit fs n" by (simp_all add: fields_fit_def)
  have "\<not> inside a (p + of_nat (fst f)) (length (snd f))"
    using fit(1,2) assms(2) inside_sub [of a p "fst f" "length (snd f)" n] by blast
  then have "write_field p f m a = m a" unfolding write_field_def using fit(1,2) 
    by (intro store_bytes_outside [where n = "length (snd f)"]) simp_all
  with Cons.IH [OF fit(3)] show ?case by simp
qed simp

lemma write_fields_store:
  assumes "fields_fit fs n" "length (layout fs (load_bytes m p n)) = n"
  shows "fold (write_field p) fs m = store_bytes m p (layout fs (load_bytes m p n))"
proof
  fix a
  have n: "n \<le> 2 ^ 32" using assms(1) by (simp add: fields_fit_def)
  show "fold (write_field p) fs m a = store_bytes m p (layout fs (load_bytes m p n)) a"
  proof (cases "inside a p n")
    case True
    then obtain i where i: "i < n" "a = p + of_nat i" by (rule insideE)
    have "load_bytes (fold (write_field p) fs m) p n ! i
        = load_bytes (store_bytes m p (layout fs (load_bytes m p n))) p n ! i"
      unfolding write_fields_bytes [OF assms(1)] using assms(2) n by (subst load_store_same) simp_all
    then show ?thesis using i by simp
  next
    case False
    then show ?thesis using write_fields_outside [OF assms(1)] store_bytes_outside [of a p n] assms(2) n by simp
  qed
qed

lemma layout_simps:
  "layout [] bs = bs" "layout (f # fs) bs = layout fs (splice (fst f) (snd f) bs)"
  by (simp_all add: layout_def)

lemma store_whole: "memset p 0 n m = store_bytes m p (replicate (unat n) 0)"
  by (simp add: memset_def)

lemma store_single: "store_bytes m p [v] = m(p := v)"
  by simp

lemma replicate_lit:
  "replicate 8 x = [x, x, x, x, x, x, x, x]"
  "replicate 16 x = [x, x, x, x, x, x, x, x, x, x, x, x, x, x, x, x]"
  "replicate 20 x = [x, x, x, x, x, x, x, x, x, x, x, x, x, x, x, x, x, x, x, x]"
  "replicate 44 x = replicate 8 x @ replicate 16 x @ replicate 20 x"
  by (simp_all add: numeral_eq_Suc)

lemma le_bytes_4: "le_bytes 4 w = [ucast w, ucast (drop_bit 8 w), ucast (drop_bit 8 (drop_bit 8 w)),
    ucast (drop_bit 8 (drop_bit 8 (drop_bit 8 w)))]"
proof -
  have "(4 :: nat) = Suc (Suc (Suc (Suc 0)))" by simp
  then show ?thesis by (simp only: le_bytes.simps)
qed

lemma store_patch:
  assumes "i + length cs \<le> length bs" "length bs \<le> 2 ^ 32"
  shows "store_bytes (store_bytes m p bs) (p + of_nat i) cs = store_bytes m p (splice i cs bs)"
proof -
  let ?fs = "[(0, bs), (i, cs)]"
  have "fields_fit ?fs (length bs)" using assms by (simp add: fields_fit_def)
  moreover have "layout ?fs (load_bytes m p (length bs)) = splice i cs bs"
    by (simp add: layout_simps) (simp add: splice_def)
  moreover have "length (splice i cs bs) = length bs" using assms by simp
  ultimately show ?thesis
    using write_fields_store [of ?fs "length bs" m p] by (simp add: write_field_def)
qed

lemma upd_store: "m(p := v) = store_bytes m p [v]"
  by simp

lemma le_bytes_2: "le_bytes 2 w = [ucast w, ucast (drop_bit 8 w)]"
  by (simp only: numeral_2_eq_2 le_bytes.simps)

lemma load_bytes_numeral: "load_bytes m p (numeral k) = m p # load_bytes m (p + 1) (pred_numeral k)"
  by (simp add: numeral_eq_Suc)

lemma replicate_8: "replicate 8 x = [x, x, x, x, x, x, x, x]"
  by (simp add: numeral_eq_Suc)

section \<open>Byte swaps (include/bswap.h)\<close>

definition bswap16 :: "u16 \<Rightarrow> u16" where
  "bswap16 x = le_word (rev (le_bytes 2 x))"

definition bswap32 :: "u32 \<Rightarrow> u32" where
  "bswap32 x = le_word (rev (le_bytes 4 x))"

definition bswap64 :: "u64 \<Rightarrow> u64" where
  "bswap64 x = le_word (rev (le_bytes 8 x))"

definition ldl_le_p :: "mem \<Rightarrow> addr \<Rightarrow> u32" where
  "ldl_le_p m p = (let val = le_word (load_bytes m p 4) in val)"

definition ldl_be_p :: "mem \<Rightarrow> addr \<Rightarrow> u32" where
  "ldl_be_p m p = (let val = le_word (load_bytes m p 4) in bswap32 val)"

lemma le_bytes_le_word_4: "length bs = 4 \<Longrightarrow> le_bytes 4 (le_word bs :: u32) = bs"
  using le_bytes_le_word [of bs, where 'a = 32] by simp

lemma le_bytes_le_word_2: "length bs = 2 \<Longrightarrow> le_bytes 2 (le_word bs :: u16) = bs"
  using le_bytes_le_word [of bs, where 'a = 16] by simp

lemma le_bytes_le_word_8: "length bs = 8 \<Longrightarrow> le_bytes 8 (le_word bs :: u64) = bs"
  using le_bytes_le_word [of bs, where 'a = 64] by simp

lemma le_bytes_bswap [simp]:
  "le_bytes 2 (bswap16 x) = be_bytes 2 x"
  "le_bytes 4 (bswap32 y) = be_bytes 4 y"
  "le_bytes 8 (bswap64 z) = be_bytes 8 z"
  by (simp_all add: bswap16_def bswap32_def bswap64_def be_bytes_def
      le_bytes_le_word_2 le_bytes_le_word_4 le_bytes_le_word_8)

lemma bswap_le_word [simp]:
  "length bs = 2 \<Longrightarrow> bswap16 (le_word bs) = be_word bs"
  "length bs = 4 \<Longrightarrow> bswap32 (le_word bs) = be_word bs"
  "length bs = 8 \<Longrightarrow> bswap64 (le_word bs) = be_word bs"
  by (simp_all add: bswap16_def bswap32_def bswap64_def be_word_def
      le_bytes_le_word_2 le_bytes_le_word_4 le_bytes_le_word_8)

lemma bswap32_bswap32 [simp]: "bswap32 (bswap32 x) = x"
  by (simp add: bswap32_def le_bytes_le_word_4 le_word_le_bytes)

lemma bswap32_zero [simp]: "bswap32 0 = 0"
  by (simp add: bswap32_def numeral_eq_Suc)

lemma bswap16_bswap16 [simp]: "bswap16 (bswap16 x) = x"
  by (simp add: bswap16_def le_bytes_le_word_2 le_word_le_bytes)

section \<open>Real-mode addresses (include/segment.h)\<close>

definition segment_to_flat :: "u16 \<Rightarrow> u16 \<Rightarrow> u32" where
  "segment_to_flat selector offset = push_bit 4 (ucast selector) + ucast offset"

definition flat_to_seg16 :: "u32 \<Rightarrow> u16" where
  "flat_to_seg16 address = ucast (drop_bit 4 address AND 0xf000)"

definition flat_to_off16 :: "u32 \<Rightarrow> u16" where
  "flat_to_off16 address = ucast (address AND 65535)"

text \<open>Below 1 MiB the two halves name the address again.\<close>

lemma segment_round_trip:
  assumes "unat address < 2 ^ 20"
  shows "segment_to_flat (flat_to_seg16 address) (flat_to_off16 address) = address"
proof -
  have low: "n < 20" if "bit address n" for n
    using assms that
    by (metis bit_take_bit_iff take_bit_nat_eq_self unsigned_take_bit_eq word_unat_eq_iff)
  have masks: "(0xf000 :: u32) = push_bit 12 (mask 4)" "(65535 :: u32) = mask 16"
    by (simp_all add: mask_eq_exp_minus_1)
  have "segment_to_flat (flat_to_seg16 address) (flat_to_off16 address)
      = push_bit 4 (ucast (flat_to_seg16 address)) OR ucast (flat_to_off16 address)"
    unfolding segment_to_flat_def
    by (rule disjunctive_add)
       (auto simp: flat_to_seg16_def flat_to_off16_def masks bit_simps)
  then show ?thesis
    by (auto intro!: bit_word_eqI simp: flat_to_seg16_def flat_to_off16_def masks bit_simps)
       (drule low, linarith)+
qed

end
