(* ===== verification/Cstring.thy ===== *)
theory Cstring
  imports Memory
begin

text \<open>
  string.c: the C string and memory routines. Strings live in memory and end at the first NUL byte;
  a loop that looks for the NUL does not return when memory holds none, so those routines have an
  \<open>option\<close> result, with \<open>None\<close> for a loop that never ends. Loops that count are primitive recursive.
  Plain \<open>char\<close> is signed on this target. NULL is address 0.
\<close>

section \<open>The routines\<close>

partial_function (option) strlen_loop :: "mem \<Rightarrow> addr \<Rightarrow> u32 \<Rightarrow> u32 option" where
  "strlen_loop m buf len = (if m buf = 0 then Some len else strlen_loop m (buf + 1) (len + 1))"

definition strlen :: "mem \<Rightarrow> addr \<Rightarrow> u32 option" where
  "strlen m buf = strlen_loop m buf 0"

partial_function (option) strcat_find :: "mem \<Rightarrow> addr \<Rightarrow> addr option" where
  "strcat_find m p = (if m p = 0 then Some p else strcat_find m (p + 1))"

partial_function (option) strcat_copy :: "mem \<Rightarrow> addr \<Rightarrow> addr \<Rightarrow> mem option" where
  "strcat_copy m p src =
     (if m src = 0 then Some (m(p := m src)) else strcat_copy (m(p := m src)) (p + 1) (src + 1))"

definition strcat :: "mem \<Rightarrow> addr \<Rightarrow> addr \<Rightarrow> mem option" where
  "strcat m dest src = Option.bind (strcat_find m dest) (\<lambda>p. strcat_copy m p src)"

definition strcpy :: "mem \<Rightarrow> addr \<Rightarrow> addr \<Rightarrow> mem option" where
  "strcpy m dest src = strcat (m(dest := 0)) dest src"

partial_function (option) strcmp :: "mem \<Rightarrow> addr \<Rightarrow> addr \<Rightarrow> int option" where
  "strcmp m a b =
     (if m a = m b \<and> m a \<noteq> 0 then strcmp m (a + 1) (b + 1) else Some (sint (m a) - sint (m b)))"

partial_function (option) strchr :: "mem \<Rightarrow> addr \<Rightarrow> u32 \<Rightarrow> addr option" where
  "strchr m s c =
     (if m s \<noteq> ucast c then (if m s = 0 then Some 0 else strchr m (s + 1) c) else Some s)"

primrec memcmp :: "mem \<Rightarrow> addr \<Rightarrow> addr \<Rightarrow> nat \<Rightarrow> int" where
  "memcmp m a b 0 = 0"
| "memcmp m a b (Suc n) =
     (let ret = uint (m a) - uint (m b) in if ret \<noteq> 0 then ret else memcmp m (a + 1) (b + 1) n)"

partial_function (option) strstr_loop :: "mem \<Rightarrow> addr \<Rightarrow> u32 \<Rightarrow> addr \<Rightarrow> u32 \<Rightarrow> addr option" where
  "strstr_loop m s1 l1 s2 l2 =
     (if l2 \<le> l1
      then if memcmp m s1 s2 (unat l2) = 0 then Some s1
           else strstr_loop m (s1 + 1) (l1 - 1) s2 l2
      else Some 0)"

definition strstr :: "mem \<Rightarrow> addr \<Rightarrow> addr \<Rightarrow> addr option" where
  "strstr m s1 s2 =
     Option.bind (strlen m s2) (\<lambda>l2.
     if l2 = 0 then Some s1
     else Option.bind (strlen m s1) (\<lambda>l1. strstr_loop m s1 l1 s2 l2))"

primrec memmove_up :: "mem \<Rightarrow> addr \<Rightarrow> addr \<Rightarrow> nat \<Rightarrow> mem" where
  "memmove_up m d s 0 = m"
| "memmove_up m d s (Suc n) = memmove_up (m(d := m s)) (d + 1) (s + 1) n"

primrec memmove_down :: "mem \<Rightarrow> addr \<Rightarrow> addr \<Rightarrow> nat \<Rightarrow> mem" where
  "memmove_down m d s 0 = m"
| "memmove_down m d s (Suc n) = memmove_down (m(d - 1 := m (s - 1))) (d - 1) (s - 1) n"

definition memmove :: "mem \<Rightarrow> addr \<Rightarrow> addr \<Rightarrow> u32 \<Rightarrow> mem" where
  "memmove m dest src n =
     (if dest \<le> src then memmove_up m dest src (unat n)
      else memmove_down m (dest + n) (src + n) (unat n))"

primrec memchr_loop :: "mem \<Rightarrow> addr \<Rightarrow> u8 \<Rightarrow> nat \<Rightarrow> addr" where
  "memchr_loop m str chr 0 = 0"
| "memchr_loop m str chr (Suc n) = (if m str = chr then str else memchr_loop m (str + 1) chr n)"

definition memchr :: "mem \<Rightarrow> addr \<Rightarrow> u32 \<Rightarrow> u32 \<Rightarrow> addr" where
  "memchr m s c n = memchr_loop m s (ucast c) (unat n)"

text \<open>\<open>atol\<close> overflows a 32-bit signed \<open>long\<close> exactly when the next accumulator has no such value.\<close>

partial_function (option) atol_spaces :: "mem \<Rightarrow> addr \<Rightarrow> addr option" where
  "atol_spaces m s = (if m s = 32 \<or> m s = 9 then atol_spaces m (s + 1) else Some s)"

partial_function (option) atol_digits :: "mem \<Rightarrow> addr \<Rightarrow> int \<Rightarrow> (fault + int) option" where
  "atol_digits m s acc =
     (if m s = 0 \<or> sint (m s) < 48 \<or> 57 < sint (m s) then Some (Inr acc)
      else let acc' = acc * 10 + (sint (m s) - 48) in
        if 2 ^ 31 \<le> acc' then Some (Inl Signed_overflow) else atol_digits m (s + 1) acc')"

definition atol :: "mem \<Rightarrow> addr \<Rightarrow> (fault + int) option" where
  "atol m p =
     Option.bind (atol_spaces m p) (\<lambda>s.
     let neg = (m s = 45);
         s' = (if neg \<or> m s = 43 then s + 1 else s)
     in map_option (map_sum id (\<lambda>acc. if neg then - acc else acc)) (atol_digits m s' 0))"

primrec csum8_loop :: "mem \<Rightarrow> addr \<Rightarrow> nat \<Rightarrow> u32 \<Rightarrow> u32" where
  "csum8_loop m buf 0 s = s"
| "csum8_loop m buf (Suc len) s = csum8_loop m (buf + 1) len (s + ucast (m buf))"

definition csum8 :: "mem \<Rightarrow> addr \<Rightarrow> u32 \<Rightarrow> u8" where
  "csum8 m buf len = ucast (csum8_loop m buf (unat len) 0)"

section \<open>Strings in memory\<close>

text \<open>\<open>cstring m p bs\<close>: the bytes \<open>bs\<close>, none of them NUL, lie at \<open>p\<close>, and a NUL follows them.\<close>

primrec cstring :: "mem \<Rightarrow> addr \<Rightarrow> u8 list \<Rightarrow> bool" where
  "cstring m p [] \<longleftrightarrow> m p = 0"
| "cstring m p (b # bs) \<longleftrightarrow> b \<noteq> 0 \<and> m p = b \<and> cstring m (p + 1) bs"

lemma cstring_iff_load:
  "cstring m p bs \<longleftrightarrow> 0 \<notin> set bs \<and> load_bytes m p (Suc (length bs)) = bs @ [0]"
  by (induction bs arbitrary: p) (auto simp del: load_bytes.simps(2) simp: load_bytes.simps(2) [of m _ "Suc _"] load_bytes.simps(2) [of m _ 0])

lemma cstring_cong:
  "(\<And>i. i \<le> length bs \<Longrightarrow> m (p + of_nat i) = m' (p + of_nat i)) \<Longrightarrow> cstring m p bs = cstring m' p bs"
  unfolding cstring_iff_load by (metis less_Suc_eq_le load_bytes_cong)

lemma cstring_store_apart:
  "apart q (length cs) p (Suc (length bs)) \<Longrightarrow> cstring (store_bytes m q cs) p bs = cstring m p bs"
  by (simp only: cstring_iff_load load_store_apart)

lemma cstring_nonzero: "cstring m p bs \<Longrightarrow> i < length bs \<Longrightarrow> m (p + of_nat i) \<noteq> 0"
proof (induction bs arbitrary: p i)
  case (Cons b bs)
  then show ?case by (cases i) (auto simp: plus_of_nat_Suc simp del: of_nat_Suc)
qed simp

lemma cstring_end: "cstring m p bs \<Longrightarrow> m (p + of_nat (length bs)) = 0"
  by (induction bs arbitrary: p) (auto simp: plus_of_nat_Suc simp del: of_nat_Suc)

text \<open>A string is shorter than the address space: its NUL is not one of its bytes.\<close>

lemma cstring_length: "cstring m p bs \<Longrightarrow> length bs < 2 ^ 32"
proof (rule ccontr)
  assume s: "cstring m p bs" and "\<not> length bs < 2 ^ 32"
  then have "of_nat (length bs - 2 ^ 32) = (of_nat (length bs) :: addr)"
    by (simp flip: word_of_nat_eq_0_iff)
  moreover have "length bs - 2 ^ 32 < length bs" using \<open>\<not> length bs < 2 ^ 32\<close> by simp
  ultimately show False using cstring_nonzero [OF s] cstring_end [OF s] by metis
qed

lemma cstring_exists: "m (p + of_nat n) = 0 \<Longrightarrow> \<exists>bs. cstring m p bs"
proof (induction n arbitrary: p)
  case 0
  then have "cstring m p []" by simp
  then show ?case by blast
next
  case (Suc n)
  then obtain bs where "cstring m (p + 1) bs" by (auto simp: plus_of_nat_Suc simp del: of_nat_Suc)
  then have "cstring m p (if m p = 0 then [] else m p # bs)" by simp
  then show ?case by blast
qed

section \<open>strlen, strcat, strcpy\<close>

lemma strlen_loop_cstring: "cstring m p bs \<Longrightarrow> strlen_loop m p len = Some (len + of_nat (length bs))"
proof (induction bs arbitrary: p len)
  case Nil
  then show ?case by (subst strlen_loop.simps) simp
next
  case (Cons b bs)
  then show ?case by (subst strlen_loop.simps) (simp add: algebra_simps)
qed

lemma strlen_cstring [simp]: "cstring m p bs \<Longrightarrow> strlen m p = Some (of_nat (length bs))"
  by (simp add: strlen_def strlen_loop_cstring)

lemma strlen_loop_returns: "strlen_loop m p len = Some r \<Longrightarrow> \<exists>a. m a = 0"
proof (rule strlen_loop.raw_induct [where P = "\<lambda>m p len r. \<exists>a. m a = 0"])
  fix f :: "mem \<Rightarrow> addr \<Rightarrow> u32 \<Rightarrow> u32 option" and m p len r
  assume "\<And>m p len r. f m p len = Some r \<Longrightarrow> \<exists>a. m a = 0"
    and "(if m p = 0 then Some len else f m (p + 1) (len + 1)) = Some r"
  then show "\<exists>a. m a = 0" by (cases "m p = 0") auto
qed

lemma strlen_total: "strlen m p = None \<longleftrightarrow> (\<forall>a. m a \<noteq> 0)"
proof
  assume none: "strlen m p = None"
  show "\<forall>a. m a \<noteq> 0"
  proof (rule allI, rule notI)
    fix a assume "m a = 0"
    then have "m (p + of_nat (unat (a - p))) = 0" by simp
    then obtain bs where "cstring m p bs" using cstring_exists by blast
    with none show False by simp
  qed
next
  assume "\<forall>a. m a \<noteq> 0"
  then show "strlen m p = None"
    using strlen_loop_returns [of m p 0] by (cases "strlen m p") (auto simp: strlen_def)
qed

lemma strcat_find_cstring: "cstring m p bs \<Longrightarrow> strcat_find m p = Some (p + of_nat (length bs))"
proof (induction bs arbitrary: p)
  case Nil
  then show ?case by (subst strcat_find.simps) simp
next
  case (Cons b bs)
  then show ?case by (subst strcat_find.simps) (simp add: algebra_simps)
qed

lemma apart_Suc: "apart p (Suc n) q (Suc m) \<Longrightarrow> apart (p + 1) n (q + 1) m"
  by (simp add: apart_def)

lemma apart_not_inside': "apart p n q m \<Longrightarrow> 0 < n \<Longrightarrow> i < m \<Longrightarrow> q + of_nat i \<noteq> p"
  using apart_not_inside [of p n q m i] by (auto simp: inside_def)

lemma strcat_copy_cstring:
  "cstring m src bs \<Longrightarrow> apart p (Suc (length bs)) src (Suc (length bs)) \<Longrightarrow>
    strcat_copy m p src = Some (store_bytes m p (bs @ [0]))"
proof (induction bs arbitrary: m p src)
  case Nil
  then show ?case by (subst strcat_copy.simps) simp
next
  case (Cons b bs)
  have "src + of_nat (Suc i) \<noteq> p" if "i \<le> length bs" for i
    using apart_not_inside' [OF Cons.prems(2), of "Suc i"] that by simp
  then have "cstring (m(p := b)) (src + 1) bs = cstring m (src + 1) bs"
    by (intro cstring_cong) (auto simp: algebra_simps)
  then have "strcat_copy (m(p := b)) (p + 1) (src + 1)
      = Some (store_bytes (m(p := b)) (p + 1) (bs @ [0]))"
    using Cons.prems by (intro Cons.IH apart_Suc) (simp_all del: fun_upd_apply)
  with Cons.prems(1) show ?case by (subst strcat_copy.simps) simp
qed

theorem strcpy_cstring:
  assumes "cstring m src bs" and "apart dest (Suc (length bs)) src (Suc (length bs))"
  shows "strcpy m dest src = Some (store_bytes m dest (bs @ [0]))"
proof -
  have "src + of_nat i \<noteq> dest" if "i \<le> length bs" for i
    using apart_not_inside' [OF assms(2)] that by simp
  then have "cstring (m(dest := 0)) src bs = cstring m src bs"
    by (intro cstring_cong) auto
  moreover have "cstring (m(dest := 0)) dest []" by simp
  moreover have "store_bytes (m(dest := 0)) dest (bs @ [0]) = store_bytes m dest (bs @ [0])"
    by (cases bs) simp_all
  ultimately show ?thesis
    using assms strcat_find_cstring [of "m(dest := 0)" dest "[]"]
    by (simp add: strcpy_def strcat_def strcat_copy_cstring)
qed

theorem strcat_cstring:
  assumes "cstring m dest as" and "cstring m src bs"
    and "apart (dest + of_nat (length as)) (Suc (length bs)) src (Suc (length bs))"
  shows "strcat m dest src = Some (store_bytes m (dest + of_nat (length as)) (bs @ [0]))"
  using assms by (simp add: strcat_def strcat_find_cstring strcat_copy_cstring)

section \<open>strcmp, strchr, memcmp, memchr\<close>

text \<open>\<open>strcmp\<close> compares in the order of signed characters, the NUL of a string that ends first taking
  part; \<open>memcmp\<close> compares in the order of unsigned bytes.\<close>

lemma sint_eq_iff: "sint v = sint w \<longleftrightarrow> v = (w :: 'a::len word)"
  using signed_word_eqI by blast

lemma sint_zero_iff [simp]: "sint w = 0 \<longleftrightarrow> w = (0 :: 'a::len word)"
  using sint_eq_iff [of w 0] by simp

lemma strcmp_cstring:
  "cstring m a as \<Longrightarrow> cstring m b bs \<Longrightarrow>
    \<exists>r. strcmp m a b = Some r \<and> (r = 0 \<longleftrightarrow> as = bs) \<and>
        (r < 0 \<longleftrightarrow> ord_class.lexordp (map sint (as @ [0])) (map sint (bs @ [0])))"
proof (induction as arbitrary: a b bs)
  case Nil
  then show ?case by (subst strcmp.simps) (cases bs; auto simp: not_less le_less eq_commute [of 0])
next
  case (Cons x as)
  show ?case
  proof (cases bs)
    case Nil
    with Cons.prems show ?thesis by (subst strcmp.simps) auto
  next
    case bs: (Cons y ys)
    show ?thesis
    proof (cases "x = y")
      case True
      with bs Cons.prems Cons.IH [of "a + 1" "b + 1" ys] show ?thesis
        by (subst strcmp.simps) auto
    next
      case False
      then have "sint x \<noteq> sint y" by (simp add: sint_eq_iff)
      with False bs Cons.prems show ?thesis by (subst strcmp.simps) auto
    qed
  qed
qed

lemma strchr_cstring:
  "cstring m p bs \<Longrightarrow> strchr m p c =
    Some (case index_of (\<lambda>x. x = ucast c) (bs @ [0]) of None \<Rightarrow> 0 | Some i \<Rightarrow> p + of_nat i)"
proof (induction bs arbitrary: p)
  case Nil
  then show ?case by (subst strchr.simps) auto
next
  case (Cons b bs)
  then show ?case
    by (subst strchr.simps) (auto simp: plus_of_nat_Suc simp del: of_nat_Suc split: option.split)
qed

lemma memcmp_eq_0: "memcmp m a b n = 0 \<longleftrightarrow> load_bytes m a n = load_bytes m b n"
  by (induction n arbitrary: a b) (auto simp: Let_def word_uint_eq_iff)

lemma memcmp_less_0:
  "memcmp m a b n < 0 \<longleftrightarrow> ord_class.lexordp (map uint (load_bytes m a n)) (map uint (load_bytes m b n))"
  by (induction n arbitrary: a b) (auto simp: Let_def)

lemma memchr_loop_index:
  "memchr_loop m p c n =
    (case index_of (\<lambda>x. x = c) (load_bytes m p n) of None \<Rightarrow> 0 | Some i \<Rightarrow> p + of_nat i)"
  by (induction n arbitrary: p)
     (auto simp: plus_of_nat_Suc simp del: of_nat_Suc split: option.split)

section \<open>strstr\<close>

text \<open>The loop's counter reaches the length of the pattern after the last place where it fits.\<close>

lemma load_bytes_cstring:
  "cstring m p bs \<Longrightarrow> n \<le> length bs \<Longrightarrow> load_bytes m p n = take n bs"
proof (induction bs arbitrary: p n)
  case (Cons b bs)
  then show ?case by (cases n) auto
qed simp

lemma index_of_tails_short:
  "length as < length bs \<Longrightarrow> index_of (\<lambda>t. take (length bs) t = bs) (tails as) = None"
  unfolding index_of_None_iff
proof
  fix t assume short: "length as < length bs" and "t \<in> set (tails as)"
  then have "length t \<le> length as" by (induction as) auto
  with short have "length (take (length bs) t) < length bs" by simp
  then show "take (length bs) t \<noteq> bs" by auto
qed

lemma strstr_loop_cstring:
  assumes "cstring m s2 bs" "bs \<noteq> []"
  shows "cstring m p as \<Longrightarrow> strstr_loop m p (of_nat (length as)) s2 (of_nat (length bs)) =
    Some (case index_of (\<lambda>t. take (length bs) t = bs) (tails as) of None \<Rightarrow> 0 | Some i \<Rightarrow> p + of_nat i)"
proof (induction as arbitrary: p)
  case Nil
  have "(of_nat (length bs) :: u32) \<noteq> 0"
    using cstring_length [OF assms(1)] assms(2) by (simp add: word_of_nat_eq_0_iff nat_dvd_not_less)
  then have "\<not> (of_nat (length bs) :: u32) \<le> of_nat (length ([] :: u8 list))" by simp
  moreover have "index_of (\<lambda>t. take (length bs) t = bs) (tails []) = None"
    using assms(2) by (intro index_of_tails_short) simp
  ultimately show ?case unfolding strstr_loop.simps [of m p] by simp
next
  case (Cons x as)
  have lens: "Suc (length as) < 2 ^ 32" "length bs < 2 ^ 32"
    using cstring_length [OF Cons.prems] cstring_length [OF assms(1)] by simp_all
  then have le: "(of_nat (length bs) :: u32) \<le> of_nat (length (x # as)) \<longleftrightarrow> length bs \<le> Suc (length as)"
    by (simp add: word_le_nat_alt unat_of_nat del: of_nat_Suc)
  have pred: "of_nat (length (x # as)) - (1 :: u32) = of_nat (length as)" by simp
  show ?case
  proof (cases "length bs \<le> Suc (length as)")
    case True
    have "unat (of_nat (length bs) :: u32) = length bs" using lens by (simp add: unat_of_nat)
    moreover have "load_bytes m p (length bs) = take (length bs) (x # as)"
      using True by (intro load_bytes_cstring [OF Cons.prems]) simp
    moreover have "load_bytes m s2 (length bs) = bs"
      by (simp add: load_bytes_cstring [OF assms(1)])
    ultimately have cmp: "memcmp m p s2 (unat (of_nat (length bs) :: u32)) = 0 \<longleftrightarrow>
        take (length bs) (x # as) = bs"
      by (simp only: memcmp_eq_0)
    have rest: "strstr_loop m (p + 1) (of_nat (length as)) s2 (of_nat (length bs)) =
        Some (case index_of (\<lambda>t. take (length bs) t = bs) (tails as) of
          None \<Rightarrow> 0 | Some i \<Rightarrow> p + 1 + of_nat i)"
      using Cons.prems by (intro Cons.IH) simp
    show ?thesis
      unfolding strstr_loop.simps [of m p] le pred cmp rest
      using True by (auto split: option.split)
  next
    case False
    then have "index_of (\<lambda>t. take (length bs) t = bs) (tails (x # as)) = None"
      by (intro index_of_tails_short) simp
    with False show ?thesis unfolding strstr_loop.simps [of m p] le by simp
  qed
qed

theorem strstr_cstring:
  assumes "cstring m s1 as" "cstring m s2 bs"
  shows "strstr m s1 s2 = Some (case index_of (\<lambda>t. take (length bs) t = bs) (tails as) of
    None \<Rightarrow> 0 | Some i \<Rightarrow> s1 + of_nat i)"
proof (cases "bs = []")
  case True
  with strlen_cstring [OF assms(2)] show ?thesis by (cases as) (simp_all add: strstr_def)
next
  case False
  then have "(of_nat (length bs) :: u32) \<noteq> 0"
    using cstring_length [OF assms(2)] by (simp add: word_of_nat_eq_0_iff nat_dvd_not_less)
  with strlen_cstring [OF assms(1)] strlen_cstring [OF assms(2)] show ?thesis
    by (simp add: strstr_def strstr_loop_cstring [OF assms(2) False assms(1)])
qed

section \<open>memmove\<close>

text \<open>
  Copying upwards is right when no byte still to be read has been written, that is when the
  destination does not start inside the rest of the source; copying downwards when the source does
  not start inside the rest of the destination.
\<close>

lemma store_bytes_upd_commute:
  "\<not> inside x p (length bs) \<Longrightarrow> length bs < 2 ^ 32 \<Longrightarrow>
    store_bytes (m(x := v)) p bs = (store_bytes m p bs)(x := v)"
  by (rule ext) (auto simp: store_bytes_at)

lemma memmove_up_copies:
  "(\<And>k. 0 < k \<Longrightarrow> k < n \<Longrightarrow> d \<noteq> s + of_nat k) \<Longrightarrow>
    memmove_up m d s n = store_bytes m d (load_bytes m s n)"
proof (induction n arbitrary: m d s)
  case (Suc n)
  have "d + 1 \<noteq> s + 1 + of_nat k" if "0 < k" "k < n" for k
    using Suc.prems [of k] that by (auto simp: algebra_simps)
  then have "memmove_up (m(d := m s)) (d + 1) (s + 1) n
      = store_bytes (m(d := m s)) (d + 1) (load_bytes (m(d := m s)) (s + 1) n)"
    by (rule Suc.IH)
  also have "load_bytes (m(d := m s)) (s + 1) n = load_bytes m (s + 1) n"
  proof (rule load_bytes_cong)
    fix i assume "i < n"
    then have "d \<noteq> s + 1 + of_nat i" using Suc.prems [of "Suc i"] by (simp add: plus_of_nat_Suc del: of_nat_Suc)
    then show "(m(d := m s)) (s + 1 + of_nat i) = m (s + 1 + of_nat i)" by simp
  qed
  finally show ?case by (simp del: fun_upd_apply)
qed simp

lemma memmove_down_copies:
  "n \<le> 2 ^ 32 \<Longrightarrow> (\<And>k. 0 < k \<Longrightarrow> k < n \<Longrightarrow> s \<noteq> d + of_nat k) \<Longrightarrow>
    memmove_down m d s n = store_bytes m (d - of_nat n) (load_bytes m (s - of_nat n) n)"
proof (induction n arbitrary: m d s)
  case (Suc n)
  let ?m = "m(d - 1 := m (s - 1))"
  have "s - 1 \<noteq> d - 1 + of_nat k" if "0 < k" "k < n" for k
    using Suc.prems(2) [of k] that by (auto simp: algebra_simps)
  then have "memmove_down ?m (d - 1) (s - 1) n
      = store_bytes ?m (d - 1 - of_nat n) (load_bytes ?m (s - 1 - of_nat n) n)"
    using Suc.prems(1) by (intro Suc.IH) simp_all
  also have "load_bytes ?m (s - 1 - of_nat n) n = load_bytes m (s - 1 - of_nat n) n"
  proof (rule load_bytes_cong)
    fix i assume "i < n"
    then have "of_nat n = of_nat i + (of_nat (n - i) :: addr)" by (simp flip: of_nat_add)
    moreover have "s \<noteq> d + of_nat (n - i)" using Suc.prems(2) [of "n - i"] \<open>i < n\<close> by simp
    ultimately have "s - 1 - of_nat n + of_nat i \<noteq> d - 1"
      by (auto simp: algebra_simps)
    then show "?m (s - 1 - of_nat n + of_nat i) = m (s - 1 - of_nat n + of_nat i)" by simp
  qed
  also have "store_bytes ?m (d - 1 - of_nat n) (load_bytes m (s - 1 - of_nat n) n)
      = (store_bytes m (d - 1 - of_nat n) (load_bytes m (s - 1 - of_nat n) n))(d - 1 := m (s - 1))"
    using Suc.prems(1) by (intro store_bytes_upd_commute) (simp_all add: inside_def unat_of_nat)
  also have "\<dots> = store_bytes m (d - of_nat (Suc n)) (load_bytes m (s - of_nat (Suc n)) (n + 1))"
    unfolding load_bytes_append store_bytes_append by (simp add: algebra_simps)
  finally show ?case unfolding memmove_down.simps by (simp only: Suc_eq_plus1)
qed simp

theorem memmove_copies:
  assumes "unat dest + unat n \<le> 2 ^ 32" and "unat src + unat n \<le> 2 ^ 32"
  shows "memmove m dest src n = store_bytes m dest (load_bytes m src (unat n))"
proof -
  have ahead: "p \<noteq> q + of_nat k" if "p \<le> q" "0 < k" "k < unat n" "unat q + unat n \<le> 2 ^ 32"
    for p q :: addr and k
  proof -
    have "unat (q + of_nat k) = unat q + k" using that(3,4)
      by (subst unat_word_ariths) (simp add: unat_of_nat)
    then show ?thesis using that(1,2) by (auto simp: word_le_nat_alt)
  qed
  show ?thesis
  proof (cases "dest \<le> src")
    case True
    with ahead assms(2) show ?thesis by (simp add: memmove_def memmove_up_copies)
  next
    case False
    then have "src \<le> dest" by simp
    then have "src + n \<noteq> dest + n + of_nat k" if "0 < k" "k < unat n" for k
      using ahead [of src dest k] that assms(1) by auto
    with False show ?thesis
      using unat_bound [of n] by (simp add: memmove_def memmove_down_copies)
  qed
qed

section \<open>csum8\<close>

text \<open>The sum of the bytes, modulo 256.\<close>

lemma csum8_loop_sum:
  "ucast (csum8_loop m p n s) = (ucast s :: u8) + sum_list (load_bytes m p n)"
proof (induction n arbitrary: p s)
  case (Suc n)
  have "(ucast (s + ucast (m p)) :: u8) = ucast s + m p"
    by (simp add: ucast_add_down ucast_ucast_up)
  with Suc show ?case by (simp add: algebra_simps)
qed simp

lemma csum8_sum: "csum8 m p n = sum_list (load_bytes m p (unat n))"
  by (simp add: csum8_def csum8_loop_sum)

lemma sum_list_update_word:
  "i < length bs \<Longrightarrow> sum_list (bs[i := v]) = sum_list bs - bs ! i + (v :: 'a::len word)"
proof (induction bs arbitrary: i)
  case (Cons b bs)
  then show ?case by (cases i) (auto simp: algebra_simps)
qed simp

lemma load_bytes_upd:
  "i < n \<Longrightarrow> n \<le> 2 ^ 32 \<Longrightarrow> load_bytes (m(p + of_nat i := v)) p n = (load_bytes m p n)[i := v]"
  by (rule nth_equalityI) (auto simp: nth_list_update word_of_nat_eq_iff take_bit_nat_eq_self)

text \<open>
  Subtracting the sum of a region from one of its bytes makes the sum of the region zero: how every
  table of the firmware gets its checksum.
\<close>

lemma checksum_fix:
  assumes "i < n" and "n \<le> 2 ^ 32"
  shows "sum_list (load_bytes
    (m(p + of_nat i := m (p + of_nat i) - sum_list (load_bytes m p n))) p n) = 0"
  using assms by (simp add: load_bytes_upd sum_list_update_word)

section \<open>atol\<close>

text \<open>The value of a list of decimal digits, continuing from an accumulator, and their characters.\<close>

definition dec_value :: "int \<Rightarrow> nat list \<Rightarrow> int" where
  "dec_value acc ds = foldl (\<lambda>a d. a * 10 + int d) acc ds"

definition digit_char :: "nat \<Rightarrow> u8" where
  "digit_char d = of_nat (48 + d)"

definition number_end :: "u8 \<Rightarrow> bool" where
  "number_end c \<longleftrightarrow> c = 0 \<or> sint c < 48 \<or> 57 < sint c"

lemma dec_value_simps [simp]:
  "dec_value acc [] = acc" "dec_value acc (d # ds) = dec_value (acc * 10 + int d) ds"
  by (simp_all add: dec_value_def)

lemma dec_value_ge: "0 \<le> acc \<Longrightarrow> acc \<le> dec_value acc ds"
proof (induction ds arbitrary: acc)
  case (Cons d ds)
  then have "acc * 10 + int d \<le> dec_value (acc * 10 + int d) ds" by simp
  with Cons.prems show ?case by simp
qed simp

lemma digit_char_cases: "(d :: nat) < 10 \<Longrightarrow> d \<in> {0, 1, 2, 3, 4, 5, 6, 7, 8, 9}"
  by auto

lemma sint_digit_char [simp]: "d < 10 \<Longrightarrow> sint (digit_char d) = 48 + int d"
  by (drule digit_char_cases) (auto simp: digit_char_def)

lemma digit_char_nonzero [simp]: "d < 10 \<Longrightarrow> digit_char d \<noteq> 0"
  using sint_digit_char [of d] by (auto simp del: sint_digit_char)

lemma digit_char_not_blank [simp]:
  "d < 10 \<Longrightarrow> digit_char d \<noteq> 32" "d < 10 \<Longrightarrow> digit_char d \<noteq> 9"
  "d < 10 \<Longrightarrow> digit_char d \<noteq> 43" "d < 10 \<Longrightarrow> digit_char d \<noteq> 45"
  using sint_digit_char [of d] by (auto simp del: sint_digit_char)

lemma atol_digits_value:
  assumes "\<forall>d \<in> set ds. d < 10" and "0 \<le> acc" and "acc < 2 ^ 31"
    and "load_bytes m s (Suc (length ds)) = map digit_char ds @ [c]" and "number_end c"
  shows "atol_digits m s acc =
    Some (if dec_value acc ds < 2 ^ 31 then Inr (dec_value acc ds) else Inl Signed_overflow)"
  using assms
proof (induction ds arbitrary: s acc)
  case Nil
  then show ?case by (subst atol_digits.simps) (auto simp: number_end_def)
next
  case (Cons d ds)
  let ?acc = "acc * 10 + int d"
  have d: "d < 10" and s: "m s = digit_char d" using Cons.prems by auto
  show ?case
  proof (cases "?acc < 2 ^ 31")
    case True
    have "atol_digits m (s + 1) ?acc =
        Some (if dec_value ?acc ds < 2 ^ 31 then Inr (dec_value ?acc ds) else Inl Signed_overflow)"
      using Cons.prems True by (intro Cons.IH) simp_all
    with d s True show ?thesis by (subst atol_digits.simps) (simp add: Let_def)
  next
    case False
    then have "\<not> dec_value ?acc ds < 2 ^ 31"
      using dec_value_ge [of ?acc ds] Cons.prems(2) by simp
    with d s False show ?thesis by (subst atol_digits.simps) (simp add: Let_def)
  qed
qed

lemma atol_spaces_skip:
  "\<forall>c \<in> set ws. c = 32 \<or> c = 9 \<Longrightarrow> load_bytes m p (length ws) = ws \<Longrightarrow>
    \<not> (m (p + of_nat (length ws)) = 32 \<or> m (p + of_nat (length ws)) = 9) \<Longrightarrow>
    atol_spaces m p = Some (p + of_nat (length ws))"
proof (induction ws arbitrary: p)
  case Nil
  then show ?case by (subst atol_spaces.simps) simp
next
  case (Cons w ws)
  then show ?case
    by (subst atol_spaces.simps) (auto simp: plus_of_nat_Suc simp del: of_nat_Suc)
qed

text \<open>
  A number in a string: blanks, a sign, digits, and something that is not a digit. The result is the
  number, or an overflow when its magnitude does not fit.
\<close>

theorem atol_number:
  assumes "\<forall>c \<in> set ws. c = 32 \<or> c = 9" and "sg \<in> {[], [43], [45]}"
    and "\<forall>d \<in> set ds. d < 10" and "ds \<noteq> []" and "number_end c"
    and "load_bytes m p (length (ws @ sg @ map digit_char ds @ [c])) = ws @ sg @ map digit_char ds @ [c]"
  shows "atol m p = Some (if dec_value 0 ds < 2 ^ 31
    then Inr (if sg = [45] then - dec_value 0 ds else dec_value 0 ds) else Inl Signed_overflow)"
proof -
  let ?s = "p + of_nat (length ws)" and ?rest = "sg @ map digit_char ds @ [c]"
  have split: "load_bytes m p (length ws) = ws" "load_bytes m ?s (length ?rest) = ?rest"
    using assms(6) unfolding length_append [of ws] load_bytes_append by simp_all
  obtain d ds' where ds: "ds = d # ds'" "d < 10" using assms(3,4) by (cases ds) auto
  have "m ?s = hd ?rest" using split(2) ds by (cases sg) auto
  then have "\<not> (m ?s = 32 \<or> m ?s = 9)" using assms(2) ds by auto
  with split(1) assms(1) have sp: "atol_spaces m p = Some ?s" by (intro atol_spaces_skip)
  let ?t = "?s + of_nat (length sg)"
  have "load_bytes m ?t (Suc (length ds)) = map digit_char ds @ [c]"
    using split(2) unfolding length_append [of sg] load_bytes_append by simp
  then have dg: "atol_digits m ?t 0 =
      Some (if dec_value 0 ds < 2 ^ 31 then Inr (dec_value 0 ds) else Inl Signed_overflow)"
    using assms by (intro atol_digits_value) simp_all
  have "m ?s = (if sg = [] then digit_char d else hd sg)"
    using \<open>m ?s = hd ?rest\<close> ds by (cases sg) auto
  with sp dg assms(2) ds(2) show ?thesis
    by (auto simp: atol_def Let_def)
qed

end
