(* ===== verification/Machine.thy ===== *)
theory Machine
  imports Cstring
begin

text \<open>
  The machine the firmware drives, and the port accesses of include/ioport.h.

  \<open>env\<close> is what the program does not define itself: the devices behind the I/O ports (QEMU), and the
  addresses the linker script and the compiler give to symbols and to stack variables. A device access
  takes and returns the state of the devices; a port write may also change memory, because a device
  may do DMA. \<open>io_poll\<close> is the progress the devices make while the processor spins. \<open>mem\<close> is RAM, and ROM at the top of
  the address space; \<open>io_read\<close> and \<open>io_writable\<close> are how the chipset maps the F-segment before the firmware has made it RAM,
  which concerns only setup_hw: all that runs later loads and stores \<open>mem\<close> directly.
\<close>

record 'd env =
  io_inb :: "u16 \<Rightarrow> 'd \<Rightarrow> u8 \<times> 'd"
  io_inw :: "u16 \<Rightarrow> 'd \<Rightarrow> u16 \<times> 'd"
  io_inl :: "u16 \<Rightarrow> 'd \<Rightarrow> u32 \<times> 'd"
  io_outb :: "u16 \<Rightarrow> u8 \<Rightarrow> mem \<times> 'd \<Rightarrow> mem \<times> 'd"
  io_outw :: "u16 \<Rightarrow> u16 \<Rightarrow> mem \<times> 'd \<Rightarrow> mem \<times> 'd"
  io_outl :: "u16 \<Rightarrow> u32 \<Rightarrow> mem \<times> 'd \<Rightarrow> mem \<times> 'd"
  io_poll :: "mem \<times> 'd \<Rightarrow> mem \<times> 'd"
  io_cpuid :: "u32 \<times> u32"         \<comment> \<open>eax and edx of cpuid leaf 1\<close>
  io_read :: "'d \<Rightarrow> mem \<Rightarrow> addr \<Rightarrow> u8" \<comment> \<open>what a load sees: RAM, or the ROM mapped over it\<close>
  io_writable :: "'d \<Rightarrow> addr \<Rightarrow> bool" \<comment> \<open>does a store reach the RAM at this address?\<close>
  stext :: addr                    \<comment> \<open>symbols of flat.lds\<close>
  edata :: addr
  sinit :: addr
  einit :: addr
  bios_intfake :: addr             \<comment> \<open>entry points of entry.S\<close>
  bios_irq :: addr
  bios_int10 :: addr
  bios_int15 :: addr
  bios32_entry :: addr
  start_info :: addr               \<comment> \<open>global of linuxboot.c\<close>
  dma_desc :: addr                 \<comment> \<open>local \<open>dma\<close> of \<open>fw_cfg_dma\<close>\<close>
  ramdisk_mod :: addr              \<comment> \<open>local of \<open>boot_pvh_from_fw_cfg\<close>\<close>
  loader_script :: addr            \<comment> \<open>local \<open>script\<close> of \<open>extract_acpi\<close>\<close>
  rom_check :: addr                \<comment> \<open>static local of \<open>setup_hw\<close>\<close>

text \<open>
  The state: memory, the devices, and the static variables of the C files. The variables the operating
  system reads through a pointer (the tables, \<open>start_info\<close>, the E820 map) are in memory; the others are
  fields, in the order of the files that define them.
\<close>

record 'd machine =
  mem :: mem
  dev :: 'd
  fseg_base :: addr                \<comment> \<open>malloc.c\<close>
  malloc_top :: addr
  version :: u32                   \<comment> \<open>fw_cfg.c\<close>
  filecnt :: u32
  files :: addr
  file_address :: "addr list"      \<comment> \<open>tables.c\<close>
  lowmem :: u32                    \<comment> \<open>main.c\<close>
  e820 :: addr
  have_mmconfig :: bool
  e820_seg :: u16                  \<comment> \<open>code16.c\<close>
  addend :: u16                    \<comment> \<open>pci.c\<close>
  bus :: u8
  bridge_head :: u8
  use_i440fx_routing :: bool
  bridge_count :: u32
  max_bus :: u8

text \<open>A piece of firmware on this machine; and one that computes on memory only.\<close>

type_synonym ('d, 'a) fw = "('d machine, 'a) prog"

definition on_mem :: "(mem \<Rightarrow> mem) \<Rightarrow> ('d, unit) fw" where
  "on_mem f = update (\<lambda>s. s\<lparr>mem := f (mem s)\<rparr>)"

lemma on_mem_apply [simp]: "on_mem f s = Ret () (s\<lparr>mem := f (mem s)\<rparr>)"
  by (simp add: on_mem_def)

section \<open>Port accesses (include/ioport.h)\<close>

definition inb :: "'d env \<Rightarrow> u16 \<Rightarrow> ('d, u8) fw" where
  "inb env port s = (let (val, d) = io_inb env port (dev s) in Ret val (s\<lparr>dev := d\<rparr>))"

definition inw :: "'d env \<Rightarrow> u16 \<Rightarrow> ('d, u16) fw" where
  "inw env port s = (let (val, d) = io_inw env port (dev s) in Ret val (s\<lparr>dev := d\<rparr>))"

definition inl :: "'d env \<Rightarrow> u16 \<Rightarrow> ('d, u32) fw" where
  "inl env port s = (let (val, d) = io_inl env port (dev s) in Ret val (s\<lparr>dev := d\<rparr>))"

definition outb :: "'d env \<Rightarrow> u16 \<Rightarrow> u8 \<Rightarrow> ('d, unit) fw" where
  "outb env port val s =
     (let (m, d) = io_outb env port val (mem s, dev s) in Ret () (s\<lparr>mem := m, dev := d\<rparr>))"

definition outw :: "'d env \<Rightarrow> u16 \<Rightarrow> u16 \<Rightarrow> ('d, unit) fw" where
  "outw env port val s =
     (let (m, d) = io_outw env port val (mem s, dev s) in Ret () (s\<lparr>mem := m, dev := d\<rparr>))"

definition outl :: "'d env \<Rightarrow> u16 \<Rightarrow> u32 \<Rightarrow> ('d, unit) fw" where
  "outl env port val s =
     (let (m, d) = io_outl env port val (mem s, dev s) in Ret () (s\<lparr>mem := m, dev := d\<rparr>))"

text \<open>\<open>rep insb\<close> and \<open>rep outsb\<close>: the count register is the unsigned value of \<open>len\<close>.\<close>

primrec insb_loop :: "'d env \<Rightarrow> addr \<Rightarrow> u16 \<Rightarrow> nat \<Rightarrow> ('d, unit) fw" where
  "insb_loop env buf port 0 = ret ()"
| "insb_loop env buf port (Suc len) =
     bind (inb env port) (\<lambda>b.
     andthen (on_mem (\<lambda>m. m(buf := b)))
     (insb_loop env (buf + 1) port len))"

definition insb :: "'d env \<Rightarrow> addr \<Rightarrow> u16 \<Rightarrow> u32 \<Rightarrow> ('d, unit) fw" where
  "insb env buf port len = insb_loop env buf port (unat len)"

primrec outsb_loop :: "'d env \<Rightarrow> u16 \<Rightarrow> addr \<Rightarrow> nat \<Rightarrow> ('d, unit) fw" where
  "outsb_loop env port buf 0 = ret ()"
| "outsb_loop env port buf (Suc len) =
     bind get_state (\<lambda>s.
     andthen (outb env port (mem s buf))
     (outsb_loop env port (buf + 1) len))"

definition outsb :: "'d env \<Rightarrow> u16 \<Rightarrow> addr \<Rightarrow> u32 \<Rightarrow> ('d, unit) fw" where
  "outsb env port buf len = outsb_loop env port buf (unat len)"

text \<open>
  A port that delivers the bytes of a stream, one per read: \<open>rep insb\<close> puts a prefix of the stream into
  memory. \<open>strm d n\<close> is the \<open>n\<close>-th byte the port will deliver in device state \<open>d\<close>, and \<open>adv\<close> what
  a read does to the state.
\<close>

lemma insb_loop_stream:
  assumes "\<And>d. io_inb env port d = (strm d 0, adv d)" and "\<And>d n. strm (adv d) n = strm d (Suc n)"
  shows "insb_loop env buf port len s =
    Ret () (s\<lparr>mem := store_bytes (mem s) buf (map (strm (dev s)) [0..<len]), dev := (adv ^^ len) (dev s)\<rparr>)"
proof (induction len arbitrary: buf s)
  case (Suc len)
  have "map (strm (dev s)) [0..<Suc len] = strm (dev s) 0 # map (strm (adv (dev s))) [0..<len]"
    by (simp add: assms(2) upt_conv_Cons map_Suc_upt [symmetric] comp_def del: upt_Suc)
  then show ?case
    by (simp add: prog_simps inb_def assms(1) Suc.IH funpow_swap1 del: upt_Suc fun_upd_apply)
qed simp

end
