(* ===== verification/Alloc.thy ===== *)
theory Alloc
  imports Machine
begin

text \<open>
  malloc.c and the two wrappers of include/string.h: a heap that grows down from the start of the
  firmware image (\<open>stext\<close>), and one that grows up from its end (\<open>edata\<close>) within the F-segment. Neither is
  ever freed. Both meet one contract, the locale \<open>bump_allocator\<close>, from which it follows that the blocks
  handed out by any sequence of requests are aligned, lie in free memory and never overlap.
\<close>

section \<open>The allocators\<close>

definition malloc_align :: "u32 \<Rightarrow> u32 \<Rightarrow> ('d, addr) fw" where
  "malloc_align n align =
     andthen (update (\<lambda>s. s\<lparr>malloc_top := (malloc_top s - n) AND - align\<rparr>))
     (bind get_state (\<lambda>s.
     ret (malloc_top s)))"

definition malloc_fseg_align :: "u32 \<Rightarrow> u32 \<Rightarrow> ('d, addr) fw" where
  "malloc_fseg_align n align =
     andthen (update (\<lambda>s. s\<lparr>fseg_base := (fseg_base s + align - 1) AND - align\<rparr>))
     (bind get_state (\<lambda>s. let p = fseg_base s in
     andthen (update (\<lambda>s. s\<lparr>fseg_base := fseg_base s + n\<rparr>))
     (ret p)))"

definition malloc :: "u32 \<Rightarrow> ('d, addr) fw" where
  "malloc n = malloc_align n 16"

definition malloc_fseg :: "u32 \<Rightarrow> ('d, addr) fw" where
  "malloc_fseg n = malloc_fseg_align n 16"

section \<open>Rounding down to a power of two\<close>

definition power_of_two :: "u32 \<Rightarrow> bool" where
  "power_of_two a \<longleftrightarrow> (\<exists>k < 32. a = 2 ^ k)"

lemma power_of_two_16 [simp]: "power_of_two 16"
  unfolding power_of_two_def by (rule exI [of _ 4]) simp

lemma unat_power_of_two:
  assumes "k < 32"
  shows "unat (2 ^ k :: u32) = 2 ^ k"
proof -
  have "unat (push_bit k (1 :: u32)) = take_bit 32 (push_bit k 1)"
    by (simp only: unsigned_push_bit_eq) simp
  with assms show ?thesis by (simp add: push_bit_eq_mult)
qed

lemma unat_round_down:
  assumes "power_of_two a"
  shows "unat (x AND - a) = unat a * (unat x div unat a)"
proof -
  from assms obtain k where k: "k < 32" "a = 2 ^ k" by (auto simp: power_of_two_def)
  have "x AND - a = push_bit k (drop_bit k x)"
    unfolding k(2) minus_exp_eq_not_mask by (auto intro!: bit_word_eqI simp: bit_simps)
  moreover have "unat (push_bit k (drop_bit k x)) = 2 ^ k * (unat x div 2 ^ k)"
  proof -
    have "2 ^ k * (unat x div 2 ^ k) \<le> unat x" by simp
    then have "2 ^ k * (unat x div 2 ^ k) < 2 ^ 32"
      by (rule le_less_trans) (use unat_bound [of x] in simp)
    then show ?thesis
      by (simp only: unsigned_push_bit_eq unat_drop_bit_eq)
         (simp add: push_bit_eq_mult drop_bit_eq_div take_bit_nat_eq_self_iff mult.commute)
  qed
  ultimately show ?thesis by (simp add: k unat_power_of_two)
qed

lemma round_down_le: "power_of_two a \<Longrightarrow> unat (x AND - a) \<le> unat x"
  by (simp add: unat_round_down)

lemma round_down_aligned: "power_of_two a \<Longrightarrow> unat (x AND - a) mod unat a = 0"
  by (simp add: unat_round_down)

lemma round_down_close:
  assumes "power_of_two a"
  shows "unat x < unat (x AND - a) + unat a"
proof -
  from assms obtain k where "k < 32" "a = 2 ^ k" by (auto simp: power_of_two_def)
  then have "0 < unat a" by (simp add: unat_power_of_two)
  then have "unat x mod unat a < unat a" by (rule mod_less_divisor)
  moreover have "unat a * (unat x div unat a) + unat x mod unat a = unat x" by (rule mult_div_mod_eq)
  ultimately show ?thesis unfolding unat_round_down [OF assms] by linarith
qed

section \<open>The contract of a bump allocator\<close>

text \<open>A sequence of requests (size and alignment), and whether each is granted where it is made.\<close>

primrec alloc_all :: "(u32 \<Rightarrow> u32 \<Rightarrow> ('d, addr) fw) \<Rightarrow> (u32 \<times> u32) list \<Rightarrow> ('d, (addr \<times> u32) list) fw" where
  "alloc_all alloc [] = ret []"
| "alloc_all alloc (r # rs) =
     bind (alloc (fst r) (snd r)) (\<lambda>p. bind (alloc_all alloc rs) (\<lambda>bs. ret ((p, fst r) # bs)))"

primrec all_fit :: "(u32 \<Rightarrow> u32 \<Rightarrow> 'd machine \<Rightarrow> bool) \<Rightarrow> (u32 \<Rightarrow> u32 \<Rightarrow> ('d, addr) fw) \<Rightarrow>
    (u32 \<times> u32) list \<Rightarrow> 'd machine \<Rightarrow> bool" where
  "all_fit fits alloc [] s \<longleftrightarrow> True"
| "all_fit fits alloc (r # rs) s \<longleftrightarrow> fits (fst r) (snd r) s \<and>
     (case alloc (fst r) (snd r) s of Ret p s' \<Rightarrow> all_fit fits alloc rs s' | _ \<Rightarrow> False)"

definition block :: "addr \<times> u32 \<Rightarrow> addr set" where
  "block b = {a. inside a (fst b) (unat (snd b))}"

locale bump_allocator =
  fixes alloc :: "u32 \<Rightarrow> u32 \<Rightarrow> ('d, addr) fw"
    and fits :: "u32 \<Rightarrow> u32 \<Rightarrow> 'd machine \<Rightarrow> bool"
    and free :: "'d machine \<Rightarrow> addr set"
  assumes alloc_returns: "fits n align s \<Longrightarrow> \<exists>p s'. alloc n align s = Ret p s'"
    and alloc_free: "fits n align s \<Longrightarrow> alloc n align s = Ret p s' \<Longrightarrow> block (p, n) \<subseteq> free s"
    and alloc_taken: "fits n align s \<Longrightarrow> alloc n align s = Ret p s' \<Longrightarrow> free s' \<subseteq> free s - block (p, n)"
    and alloc_aligned: "fits n align s \<Longrightarrow> alloc n align s = Ret p s' \<Longrightarrow> unat p mod unat align = 0"
    and alloc_mem: "fits n align s \<Longrightarrow> alloc n align s = Ret p s' \<Longrightarrow> mem s' = mem s \<and> dev s' = dev s"
begin

text \<open>Everything a client may rely on after any number of requests.\<close>

lemma alloc_all_blocks:
  assumes "all_fit fits alloc rs s"
  shows "\<exists>bs s'. alloc_all alloc rs s = Ret bs s' \<and> mem s' = mem s \<and> dev s' = dev s
    \<and> map snd bs = map fst rs
    \<and> (\<forall>i < length bs. unat (fst (bs ! i)) mod unat (snd (rs ! i)) = 0)
    \<and> (\<forall>b \<in> set bs. block b \<subseteq> free s - free s')
    \<and> (\<forall>i j. i < j \<longrightarrow> j < length bs \<longrightarrow> block (bs ! i) \<inter> block (bs ! j) = {})
    \<and> free s' \<subseteq> free s"
  using assms
proof (induction rs arbitrary: s)
  case Nil
  then show ?case by simp
next
  case (Cons r rs)
  from Cons.prems have fits: "fits (fst r) (snd r) s" by simp
  with alloc_returns obtain p s1 where p: "alloc (fst r) (snd r) s = Ret p s1" by blast
  with Cons.prems have "all_fit fits alloc rs s1" by simp
  from Cons.IH [OF this] obtain bs s2 where IH: "alloc_all alloc rs s1 = Ret bs s2"
    "mem s2 = mem s1" "dev s2 = dev s1" "map snd bs = map fst rs"
    "\<forall>i < length bs. unat (fst (bs ! i)) mod unat (snd (rs ! i)) = 0"
    "\<forall>b \<in> set bs. block b \<subseteq> free s1 - free s2"
    "\<forall>i j. i < j \<longrightarrow> j < length bs \<longrightarrow> block (bs ! i) \<inter> block (bs ! j) = {}" "free s2 \<subseteq> free s1"
    by auto
  note law = alloc_free [OF fits p] alloc_taken [OF fits p] alloc_aligned [OF fits p] alloc_mem [OF fits p]
  have run: "alloc_all alloc (r # rs) s = Ret ((p, fst r) # bs) s2"
    by (simp add: prog_simps p IH(1))
  have "block (p, fst r) \<inter> block (bs ! j) = {}" if "j < length bs" for j
    using IH(6) law(2) that nth_mem by blast
  then have disjoint: "block (((p, fst r) # bs) ! i) \<inter> block (((p, fst r) # bs) ! j) = {}"
    if "i < j" "j < length ((p, fst r) # bs)" for i j
    using that IH(7) by (cases i; cases j) auto
  have aligned: "unat (fst (((p, fst r) # bs) ! i)) mod unat (snd ((r # rs) ! i)) = 0"
    if "i < length ((p, fst r) # bs)" for i
    using that IH(5) law(3) by (cases i) auto
  have taken: "\<forall>b \<in> set ((p, fst r) # bs). block b \<subseteq> free s - free s2"
    using IH(6,8) law(1,2) by fastforce
  show ?case
    by (intro exI [of _ "(p, fst r) # bs"] exI [of _ s2] conjI allI impI)
       (use run law IH disjoint aligned taken in auto)
qed

end

section \<open>Both allocators meet it\<close>

definition heap_free :: "'d machine \<Rightarrow> addr set" where
  "heap_free s = {a. unat a < unat (malloc_top s)}"

definition heap_fits :: "u32 \<Rightarrow> u32 \<Rightarrow> 'd machine \<Rightarrow> bool" where
  "heap_fits n align s \<longleftrightarrow> power_of_two align \<and> unat n \<le> unat (malloc_top s)"

definition fseg_free :: "'d machine \<Rightarrow> addr set" where
  "fseg_free s = {a. unat (fseg_base s) \<le> unat a}"

definition fseg_fits :: "u32 \<Rightarrow> u32 \<Rightarrow> 'd machine \<Rightarrow> bool" where
  "fseg_fits n align s \<longleftrightarrow> power_of_two align \<and> unat (fseg_base s) + unat align + unat n \<le> 2 ^ 32"

lemma malloc_align_apply:
  "malloc_align n align s = Ret ((malloc_top s - n) AND - align)
     (s\<lparr>malloc_top := (malloc_top s - n) AND - align\<rparr>)"
  by (simp add: malloc_align_def prog_simps)

lemma malloc_fseg_align_apply:
  "malloc_fseg_align n align s = (let p = (fseg_base s + align - 1) AND - align in
     Ret p (s\<lparr>fseg_base := p + n\<rparr>))"
  by (simp add: malloc_fseg_align_def prog_simps Let_def)

text \<open>A block that ends at or below 4 GiB is an interval.\<close>

lemma block_interval:
  assumes "unat p + unat n \<le> 2 ^ 32"
  shows "block (p, n) = {a. unat p \<le> unat a \<and> unat a < unat p + unat n}"
  using inside_interval [OF assms] by (simp add: block_def)

lemma malloc_align_bounds:
  assumes "heap_fits n align s" and "malloc_align n align s = Ret p s'"
  shows "unat p + unat n \<le> unat (malloc_top s)" "malloc_top s' = p" "s' = s\<lparr>malloc_top := p\<rparr>"
    "unat p mod unat align = 0" "unat (malloc_top s) < unat p + unat n + unat align"
proof -
  from assms have a: "power_of_two align" "unat n \<le> unat (malloc_top s)"
    "p = (malloc_top s - n) AND - align" and s': "s' = s\<lparr>malloc_top := p\<rparr>"
    by (auto simp: heap_fits_def malloc_align_apply)
  have "unat (malloc_top s - n) = unat (malloc_top s) - unat n" by (rule unat_sub_le [OF a(2)])
  with a round_down_le [OF a(1), of "malloc_top s - n"] round_down_close [OF a(1), of "malloc_top s - n"]
  show "unat p + unat n \<le> unat (malloc_top s)" "unat (malloc_top s) < unat p + unat n + unat align"
    by simp_all
  show "malloc_top s' = p" "s' = s\<lparr>malloc_top := p\<rparr>" using s' by simp_all
  show "unat p mod unat align = 0" using a round_down_aligned by simp
qed

lemma malloc_fseg_align_bounds:
  assumes "fseg_fits n align s" and "malloc_fseg_align n align s = Ret p s'"
  shows "unat (fseg_base s) \<le> unat p" "unat p + unat n < 2 ^ 32" "s' = s\<lparr>fseg_base := p + n\<rparr>"
    "unat (p + n) = unat p + unat n" "unat p mod unat align = 0"
    "unat p < unat (fseg_base s) + unat align"
proof -
  let ?x = "fseg_base s + align - 1"
  from assms have a: "power_of_two align" "unat (fseg_base s) + unat align + unat n \<le> 2 ^ 32"
    "p = ?x AND - align" and s': "s' = s\<lparr>fseg_base := p + n\<rparr>"
    by (auto simp: fseg_fits_def malloc_fseg_align_apply Let_def)
  have "0 < unat align" using a(1) by (auto simp: power_of_two_def unat_power_of_two)
  have "?x = fseg_base s + (align - 1)" by simp
  moreover have "unat (align - 1) = unat align - 1"
    using \<open>0 < unat align\<close> by (intro unat_minus_one) auto
  moreover have "unat (fseg_base s) + unat (align - 1) < 2 ^ 32"
    using calculation(2) a(2) \<open>0 < unat align\<close> by linarith
  ultimately have x: "unat ?x = unat (fseg_base s) + (unat align - 1)"
    using unat_add_less [of "fseg_base s" "align - 1"] by (simp only: add_diff_eq)
  have "unat p \<le> unat ?x" "unat ?x < unat p + unat align"
    using round_down_le [OF a(1), of ?x] round_down_close [OF a(1), of ?x] a(3) by simp_all
  with x a(2) \<open>0 < unat align\<close>
  show "unat (fseg_base s) \<le> unat p" "unat p + unat n < 2 ^ 32" "unat p < unat (fseg_base s) + unat align"
    by - linarith+
  then show "unat (p + n) = unat p + unat n" by (simp add: unat_add_less)
  show "s' = s\<lparr>fseg_base := p + n\<rparr>" using s' .
  show "unat p mod unat align = 0" using a round_down_aligned by simp
qed

interpretation heap: bump_allocator malloc_align heap_fits heap_free
proof unfold_locales
  fix n align :: u32 and s s' :: "'d machine" and p
  assume fits: "heap_fits n align s"
  show "\<exists>p s'. malloc_align n align s = Ret p s'" by (simp add: malloc_align_apply)
  assume run: "malloc_align n align s = Ret p s'"
  note b = malloc_align_bounds [OF fits run]
  have blk: "block (p, n) = {a. unat p \<le> unat a \<and> unat a < unat p + unat n}"
    using b(1) unat_bound [of "malloc_top s"] by (intro block_interval) simp
  show "block (p, n) \<subseteq> heap_free s" using b(1) by (auto simp: blk heap_free_def)
  show "heap_free s' \<subseteq> heap_free s - block (p, n)" using b(1,2) by (auto simp: blk heap_free_def)
  show "unat p mod unat align = 0" by (rule b(4))
  show "mem s' = mem s \<and> dev s' = dev s" using b(3) by simp
qed

interpretation fseg: bump_allocator malloc_fseg_align fseg_fits fseg_free
proof unfold_locales
  fix n align :: u32 and s s' :: "'d machine" and p
  assume fits: "fseg_fits n align s"
  show "\<exists>p s'. malloc_fseg_align n align s = Ret p s'" by (simp add: malloc_fseg_align_apply Let_def)
  assume run: "malloc_fseg_align n align s = Ret p s'"
  note b = malloc_fseg_align_bounds [OF fits run]
  have blk: "block (p, n) = {a. unat p \<le> unat a \<and> unat a < unat p + unat n}"
    using b(2) by (intro block_interval) simp
  show "block (p, n) \<subseteq> fseg_free s" using b(1) by (auto simp: blk fseg_free_def)
  show "fseg_free s' \<subseteq> fseg_free s - block (p, n)" using b(1,3,4) by (auto simp: blk fseg_free_def)
  show "unat p mod unat align = 0" by (rule b(5))
  show "mem s' = mem s \<and> dev s' = dev s" using b(3) by simp
qed

end
