(* ===== verification/Libspec.thy ===== *)
theory Libspec
  imports Alloc
begin

text \<open>
  What the routines under the components promise: the string library (string.c), the two allocators
  (malloc.c) and the real-mode address arithmetic (include/segment.h). Each promise is stated against lists of
  bytes, sets of addresses or numbers.
\<close>

text \<open>
  C17: strlen. It fails to return exactly when memory holds no NUL byte at all; otherwise there is a string at
  the pointer, it is shorter than the address space, and strlen returns its length.
\<close>

theorem strlen_returns:
  "(strlen m p = None \<longleftrightarrow> (\<forall>a. m a \<noteq> 0)) \<and>
   (\<forall>n. strlen m p = Some n \<longleftrightarrow> (\<exists>bs. cstring m p bs \<and> length bs < 2 ^ 32 \<and> n = of_nat (length bs)))"
proof (intro conjI allI)
  show "strlen m p = None \<longleftrightarrow> (\<forall>a. m a \<noteq> 0)" by (rule strlen_total)
  fix n
  show "strlen m p = Some n \<longleftrightarrow> (\<exists>bs. cstring m p bs \<and> length bs < 2 ^ 32 \<and> n = of_nat (length bs))"
  proof
    assume n: "strlen m p = Some n"
    then obtain a where "m a = 0" using strlen_total [of m p] by auto
    then have "m (p + of_nat (unat (a - p))) = 0" by simp
    then obtain bs where bs: "cstring m p bs" using cstring_exists by blast
    with n cstring_length [OF bs] show "\<exists>bs. cstring m p bs \<and> length bs < 2 ^ 32 \<and> n = of_nat (length bs)"
      by (intro exI [of _ bs]) simp
  qed auto
qed

text \<open>
  C18: strcpy and strcat. With room for the result away from the source, strcat leaves the concatenation of
  the two strings at the destination, strcpy a copy of the source, and neither changes a byte outside the
  bytes it writes.
\<close>

lemma cstring_stored:
  assumes "0 \<notin> set bs" "length bs < 2 ^ 32"
  shows "cstring (store_bytes m p (bs @ [0])) p bs"
  using assms by (simp add: cstring_iff_load load_store_same del: load_bytes.simps)

theorem strcat_concatenates:
  assumes "cstring m dest as" and "cstring m src bs" and "length as + length bs + 1 \<le> 2 ^ 32"
    and "apart (dest + of_nat (length as)) (Suc (length bs)) src (Suc (length bs))"
    and "apart d (Suc (length bs)) src (Suc (length bs))"
  shows "\<exists>m' m''. strcat m dest src = Some m' \<and> cstring m' dest (as @ bs) \<and>
    (\<forall>a. \<not> inside a (dest + of_nat (length as)) (Suc (length bs)) \<longrightarrow> m' a = m a) \<and>
    strcpy m d src = Some m'' \<and> cstring m'' d bs \<and>
    (\<forall>a. \<not> inside a d (Suc (length bs)) \<longrightarrow> m'' a = m a)"
proof -
  let ?q = "dest + of_nat (length as)"
  let ?m = "store_bytes m ?q (bs @ [0])" and ?m' = "store_bytes m d (bs @ [0])"
  have nz: "0 \<notin> set as" "0 \<notin> set bs" "load_bytes m dest (Suc (length as)) = as @ [0]"
    using assms(1,2) by (simp_all add: cstring_iff_load del: load_bytes.simps)
  have "apart ?q (length (bs @ [0])) dest (length as)"
  proof -
    have "unat (of_nat (length as) :: u32) = length as" using assms(3) by (simp add: unat_of_nat)
    moreover have "unat (- of_nat (length as) :: u32) = 2 ^ 32 - length as" if "length as \<noteq> 0"
    proof -
      have "(of_nat (length as) :: u32) \<noteq> 0" using calculation that by (metis unat_0)
      from unat_diff_commute [of "of_nat (length as) :: u32" 0] this show ?thesis using calculation by simp
    qed
    ultimately show ?thesis using assms(3) by (cases "as = []") (simp_all add: apart_def)
  qed
  then have "load_bytes ?m dest (length as) = load_bytes m dest (length as)" by (rule load_store_apart)
  also have "\<dots> = as" using arg_cong [OF nz(3), of "take (length as)"] load_bytes_append [of m dest "length as" 1] by simp
  finally have "load_bytes ?m dest (length as + Suc (length bs)) = as @ bs @ [0]"
    using assms(3) unfolding load_bytes_append by (simp add: load_store_same del: load_bytes.simps)
  then have "cstring ?m dest (as @ bs)" using nz by (simp add: cstring_iff_load del: load_bytes.simps)
  moreover have "?m a = m a" if "\<not> inside a ?q (Suc (length bs))" for a
    using that assms(3) by (intro store_bytes_outside [OF that]) simp_all
  moreover have "?m' a = m a" if "\<not> inside a d (Suc (length bs))" for a
    using that assms(3) by (intro store_bytes_outside [OF that]) simp_all
  moreover have "cstring ?m' d bs" using nz assms(3) by (intro cstring_stored) simp_all
  ultimately show ?thesis
    using strcat_cstring [OF assms(1,2,4)] strcpy_cstring [OF assms(2,5)] by blast
qed

definition demo_strings :: mem where
  "demo_strings = store_bytes (store_bytes (\<lambda>_. 0) 0x100 [104, 105, 0]) 0x200 [33, 0]"

lemma demo_strings_at: "cstring demo_strings 0x100 [104, 105]" "cstring demo_strings 0x200 [33]"
  by (simp_all add: demo_strings_def)

theorem strcat_concatenates_witness:
  "\<exists>m'. strcat demo_strings 0x100 0x200 = Some m' \<and> cstring m' 0x100 [104, 105, 33]"
proof -
  have "apart ((0x100 :: addr) + of_nat (length [104 :: u8, 105])) (Suc (length [33 :: u8])) 0x200 (Suc (length [33 :: u8]))"
    "apart (0x300 :: addr) (Suc (length [33 :: u8])) 0x200 (Suc (length [33 :: u8]))"
    by (simp_all add: apart_def)
  from strcat_concatenates [OF demo_strings_at _ this] show ?thesis by auto
qed

text \<open>
  C19: Comparison. strcmp is zero exactly on equal strings and negative exactly when the first comes first in
  the order of signed characters, a string coming before its extensions; memcmp compares the same way n bytes,
  as unsigned numbers; filenamecmp-style mismatches of sign cannot occur on ASCII text.
\<close>

theorem comparison_order:
  assumes "cstring m a as" and "cstring m b bs"
  shows "\<exists>r. strcmp m a b = Some r \<and> (r = 0 \<longleftrightarrow> as = bs) \<and>
    (r < 0 \<longleftrightarrow> ord_class.lexordp (map sint (as @ [0])) (map sint (bs @ [0]))) \<and>
    (memcmp m p q n = 0 \<longleftrightarrow> load_bytes m p n = load_bytes m q n) \<and>
    (memcmp m p q n < 0 \<longleftrightarrow> ord_class.lexordp (map uint (load_bytes m p n)) (map uint (load_bytes m q n)))"
  using strcmp_cstring [OF assms] memcmp_eq_0 [of m p q n] memcmp_less_0 [of m p q n] by blast

theorem comparison_order_witness:
  "\<exists>r. strcmp demo_strings 0x200 0x100 = Some r \<and> r < 0"
  using comparison_order [OF demo_strings_at(2,1), of 0 0 0] by auto

text \<open>
  C20: Searching. strchr, memchr and strstr return the address of the first occurrence, and NULL when there is
  none; strchr finds the NUL at the end; the empty string occurs at the start.
\<close>

theorem searches_find_first:
  assumes "cstring m s as" and "cstring m t bs"
  shows "strchr m s c = Some (case index_of (\<lambda>x. x = ucast c) (as @ [0]) of None \<Rightarrow> 0 | Some i \<Rightarrow> s + of_nat i) \<and>
    memchr m p c n = (case index_of (\<lambda>x. x = ucast c) (load_bytes m p (unat n)) of None \<Rightarrow> 0 | Some i \<Rightarrow> p + of_nat i) \<and>
    strstr m s t = Some (case index_of (\<lambda>x. take (length bs) x = bs) (tails as) of None \<Rightarrow> 0 | Some i \<Rightarrow> s + of_nat i)"
  using strchr_cstring [OF assms(1)] strstr_cstring [OF assms] by (simp add: memchr_def memchr_loop_index)

theorem searches_find_first_witness:
  "strchr demo_strings 0x100 105 = Some 0x101 \<and> strstr demo_strings 0x100 0x200 = Some 0"
  using searches_find_first [OF demo_strings_at, of 105 0 0] by simp

text \<open>
  C21: memmove. For regions that do not go round the end of the address space, overlapping or not, the
  destination afterwards holds what the source held before, and nothing else has changed.
\<close>

theorem memmove_moves:
  assumes "unat dest + unat n \<le> 2 ^ 32" and "unat src + unat n \<le> 2 ^ 32"
  shows "load_bytes (memmove m dest src n) dest (unat n) = load_bytes m src (unat n) \<and>
    (\<forall>a. \<not> inside a dest (unat n) \<longrightarrow> memmove m dest src n a = m a)"
proof -
  have n: "unat n \<le> 2 ^ 32" using unat_bound [of n] by simp
  then show ?thesis
    unfolding memmove_copies [OF assms] by (auto simp: load_store_same intro: store_bytes_outside)
qed

theorem memmove_moves_witness:
  "load_bytes (memmove demo_strings 0x101 0x100 3) 0x101 3 = [104, 105, 0]"
proof -
  have "load_bytes demo_strings 0x100 3 = [104, 105, 0]" by (simp add: demo_strings_def numeral_3_eq_3)
  with memmove_moves [of "0x101" 3 "0x100" demo_strings] show ?thesis by simp
qed

text \<open>
  C22: atol. On a numeral, that is blanks, an optional sign, decimal digits and a character that is not a
  digit, atol returns the number the digits denote, negated after a minus sign; it overflows a signed long
  exactly when the magnitude does not fit.
\<close>

theorem atol_reads_numeral:
  assumes "\<forall>c \<in> set ws. c = 32 \<or> c = 9" and "sg \<in> {[], [43], [45]}" and "\<forall>d \<in> set ds. d < 10" and "ds \<noteq> []"
    and "number_end c"
    and "load_bytes m p (length (ws @ sg @ map digit_char ds @ [c])) = ws @ sg @ map digit_char ds @ [c]"
  shows "atol m p = Some (if dec_value 0 ds < 2 ^ 31
    then Inr (if sg = [45] then - dec_value 0 ds else dec_value 0 ds) else Inl Signed_overflow)"
  by (rule atol_number [OF assms])

theorem atol_reads_numeral_witness:
  "atol (store_bytes (\<lambda>_. 0) 0x100 [32, 45, 52, 50, 0]) 0x100 = Some (Inr (- 42))"
proof -
  let ?m = "store_bytes (\<lambda>_. 0) 0x100 [32, 45, 52, 50, 0]"
  have "load_bytes ?m 0x100 (length ([32] @ [45] @ map digit_char [4, 2] @ [0])) = [32] @ [45] @ map digit_char [4, 2] @ [0]"
    by (simp add: digit_char_def)
  from atol_reads_numeral [OF _ _ _ _ _ this] show ?thesis by (simp add: number_end_def)
qed

text \<open>What an allocator does with a list of requests it has room for.\<close>

definition hands_out :: "(u32 \<Rightarrow> u32 \<Rightarrow> ('d, addr) fw) \<Rightarrow> ('d machine \<Rightarrow> addr set) \<Rightarrow> (u32 \<times> u32) list \<Rightarrow> 'd machine \<Rightarrow> bool" where
  "hands_out alloc free rs s \<longleftrightarrow> (\<exists>bs s'. alloc_all alloc rs s = Ret bs s' \<and> mem s' = mem s \<and> dev s' = dev s \<and>
    map snd bs = map fst rs \<and>
    (\<forall>i < length bs. unat (fst (bs ! i)) mod unat (snd (rs ! i)) = 0) \<and>
    (\<forall>b \<in> set bs. block b \<subseteq> free s - free s') \<and>
    (\<forall>i j. i < j \<longrightarrow> j < length bs \<longrightarrow> block (bs ! i) \<inter> block (bs ! j) = {}))"

text \<open>
  C23: The two heaps, the one that grows down from the F-segment and the one that grows up in it. Requests with
  power of two alignments that fit in what is left are all granted, one block for each; the blocks are aligned
  as asked, lie in what was free and is not any more, never overlap, and neither memory nor the devices are
  touched.
\<close>

theorem allocated_blocks:
  "(all_fit heap_fits malloc_align rs s \<longrightarrow> hands_out malloc_align heap_free rs s) \<and>
   (all_fit fseg_fits malloc_fseg_align rs s \<longrightarrow> hands_out malloc_fseg_align fseg_free rs s)"
proof (intro conjI impI)
  assume "all_fit heap_fits malloc_align rs s"
  from heap.alloc_all_blocks [OF this] show "hands_out malloc_align heap_free rs s" unfolding hands_out_def by blast
next
  assume "all_fit fseg_fits malloc_fseg_align rs s"
  from fseg.alloc_all_blocks [OF this] show "hands_out malloc_fseg_align fseg_free rs s" unfolding hands_out_def by blast
qed

definition fresh_machine :: "unit machine" where
  "fresh_machine = \<lparr>mem = (\<lambda>_. 0), dev = (), fseg_base = 0xf8000, malloc_top = 0xf0000, version = 0, filecnt = 0,
     files = 0, file_address = replicate 20 0, lowmem = 0, e820 = 0, have_mmconfig = False, e820_seg = 0,
     addend = 0, bus = 0, bridge_head = 0, use_i440fx_routing = False, bridge_count = 0, max_bus = 0\<rparr>"

lemma power_of_two_64: "power_of_two 64"
  unfolding power_of_two_def by (rule exI [of _ 6]) simp

theorem allocated_blocks_witness:
  "hands_out malloc_align heap_free [(100, 16), (50, 64)] fresh_machine \<and>
   hands_out malloc_fseg_align fseg_free [(100, 16), (50, 64)] fresh_machine"
proof -
  have "all_fit heap_fits malloc_align [(100, 16), (50, 64)] fresh_machine"
    by (simp add: heap_fits_def malloc_align_apply fresh_machine_def power_of_two_64)
  moreover have "all_fit fseg_fits malloc_fseg_align [(100, 16), (50, 64)] fresh_machine"
    by (simp add: fseg_fits_def malloc_fseg_align_apply fresh_machine_def power_of_two_64 Let_def)
  ultimately show ?thesis using allocated_blocks [of "[(100, 16), (50, 64)]" fresh_machine] by blast
qed

text \<open>
  Real-mode addresses. Every address below 1 MiB is recovered from the segment and offset it is split
  into, the offset of an address within its 64 KiB bank being its low half.
\<close>

lemma segment_halves:
  assumes "unat address < 2 ^ 20"
  shows "segment_to_flat (flat_to_seg16 address) (flat_to_off16 address) = address \<and>
    unat (flat_to_off16 address) = unat address mod 2 ^ 16"
proof -
  have "(65535 :: u32) = mask 16" by (simp add: mask_eq_exp_minus_1)
  have "flat_to_off16 address = ucast address"
    unfolding flat_to_off16_def \<open>65535 = mask 16\<close> by (intro bit_word_eqI) (simp add: bit_simps)
  then show ?thesis using segment_round_trip [OF assms] by (simp add: unsigned_ucast_eq take_bit_eq_mod)
qed

end
