(* ===== verification/Fwcfg.thy ===== *)
theory Fwcfg
  imports Alloc
begin

text \<open>
  The QEMU fw_cfg interface: the port accessors of include/fw_cfg.h and the first half of fw_cfg.c, the
  file directory, the DMA command and the two ways to read an entry. What the device does is a
  hypothesis, \<open>fw_cfg_device\<close>, that states its documented behaviour.
\<close>

section \<open>Port accessors (include/fw_cfg.h)\<close>

abbreviation (input) FW_CFG_ID where "FW_CFG_ID \<equiv> 0x01"
abbreviation (input) FW_CFG_NB_CPUS where "FW_CFG_NB_CPUS \<equiv> 0x05"
abbreviation (input) FW_CFG_KERNEL_ADDR where "FW_CFG_KERNEL_ADDR \<equiv> 0x07"
abbreviation (input) FW_CFG_KERNEL_SIZE where "FW_CFG_KERNEL_SIZE \<equiv> 0x08"
abbreviation (input) FW_CFG_INITRD_ADDR where "FW_CFG_INITRD_ADDR \<equiv> 0x0a"
abbreviation (input) FW_CFG_INITRD_SIZE where "FW_CFG_INITRD_SIZE \<equiv> 0x0b"
abbreviation (input) FW_CFG_KERNEL_ENTRY where "FW_CFG_KERNEL_ENTRY \<equiv> 0x10"
abbreviation (input) FW_CFG_KERNEL_DATA where "FW_CFG_KERNEL_DATA \<equiv> 0x11"
abbreviation (input) FW_CFG_INITRD_DATA where "FW_CFG_INITRD_DATA \<equiv> 0x12"
abbreviation (input) FW_CFG_CMDLINE_SIZE where "FW_CFG_CMDLINE_SIZE \<equiv> 0x14"
abbreviation (input) FW_CFG_CMDLINE_DATA where "FW_CFG_CMDLINE_DATA \<equiv> 0x15"
abbreviation (input) FW_CFG_SETUP_ADDR where "FW_CFG_SETUP_ADDR \<equiv> 0x16"
abbreviation (input) FW_CFG_SETUP_SIZE where "FW_CFG_SETUP_SIZE \<equiv> 0x17"
abbreviation (input) FW_CFG_SETUP_DATA where "FW_CFG_SETUP_DATA \<equiv> 0x18"
abbreviation (input) FW_CFG_FILE_DIR where "FW_CFG_FILE_DIR \<equiv> 0x19"
abbreviation (input) FW_CFG_IRQ0_OVERRIDE where "FW_CFG_IRQ0_OVERRIDE \<equiv> 0x8002"

abbreviation (input) FW_CFG_VERSION_DMA where "FW_CFG_VERSION_DMA \<equiv> 0x02"
abbreviation (input) FW_CFG_DMA_CTL_ERROR where "FW_CFG_DMA_CTL_ERROR \<equiv> 0x01"
abbreviation (input) FW_CFG_DMA_CTL_READ where "FW_CFG_DMA_CTL_READ \<equiv> 0x02"
abbreviation (input) FW_CFG_DMA_CTL_SELECT where "FW_CFG_DMA_CTL_SELECT \<equiv> 0x08"

abbreviation (input) FW_CFG_CTL where "FW_CFG_CTL \<equiv> 0x510"
abbreviation (input) FW_CFG_DATA where "FW_CFG_DATA \<equiv> 0x511"
abbreviation (input) FW_CFG_DMA_ADDR_LOW where "FW_CFG_DMA_ADDR_LOW \<equiv> 0x518"

definition fw_cfg_select :: "'d env \<Rightarrow> u16 \<Rightarrow> ('d, unit) fw" where
  "fw_cfg_select env f = outw env FW_CFG_CTL f"

definition fw_cfg_readb :: "'d env \<Rightarrow> ('d, u32) fw" where
  "fw_cfg_readb env = bind (inb env FW_CFG_DATA) (\<lambda>b. ret (ucast b))"

definition fw_cfg_readw_be :: "'d env \<Rightarrow> ('d, u32) fw" where
  "fw_cfg_readw_be env =
     bind (inb env FW_CFG_DATA) (\<lambda>b. let val = ucast b in
     bind (inb env FW_CFG_DATA) (\<lambda>b. let val = push_bit 8 val OR ucast b in
     ret val))"

definition fw_cfg_readw_le :: "'d env \<Rightarrow> ('d, u32) fw" where
  "fw_cfg_readw_le env =
     bind (inb env FW_CFG_DATA) (\<lambda>b. let val = ucast b in
     bind (inb env FW_CFG_DATA) (\<lambda>b. let val = push_bit 8 (ucast b) OR val in
     ret val))"

definition fw_cfg_readl_be :: "'d env \<Rightarrow> ('d, u32) fw" where
  "fw_cfg_readl_be env =
     bind (inb env FW_CFG_DATA) (\<lambda>b. let val = ucast b in
     bind (inb env FW_CFG_DATA) (\<lambda>b. let val = push_bit 8 val OR ucast b in
     bind (inb env FW_CFG_DATA) (\<lambda>b. let val = push_bit 8 val OR ucast b in
     bind (inb env FW_CFG_DATA) (\<lambda>b. let val = push_bit 8 val OR ucast b in
     ret val))))"

definition fw_cfg_readl_le :: "'d env \<Rightarrow> ('d, u32) fw" where
  "fw_cfg_readl_le env =
     bind (inb env FW_CFG_DATA) (\<lambda>b. let val = ucast b in
     bind (inb env FW_CFG_DATA) (\<lambda>b. let val = push_bit 8 (ucast b) OR val in
     bind (inb env FW_CFG_DATA) (\<lambda>b. let val = push_bit 16 (ucast b) OR val in
     bind (inb env FW_CFG_DATA) (\<lambda>b. let val = push_bit 24 (ucast b) OR val in
     ret val))))"

primrec fw_cfg_skip_loop :: "'d env \<Rightarrow> nat \<Rightarrow> ('d, unit) fw" where
  "fw_cfg_skip_loop env 0 = ret ()"
| "fw_cfg_skip_loop env (Suc len) = bind (inb env FW_CFG_DATA) (\<lambda>_. fw_cfg_skip_loop env len)"

definition fw_cfg_skip :: "'d env \<Rightarrow> u32 \<Rightarrow> ('d, unit) fw" where
  "fw_cfg_skip env len = fw_cfg_skip_loop env (unat len)"

section \<open>Reading an entry (fw_cfg.c)\<close>

text \<open>
  The DMA descriptor is a packed struct on the stack: control, length and address, big-endian. The
  processor spins until the device has cleared every control bit but the error bit; a device that
  never does makes the firmware hang.
\<close>

definition dma_busy :: "'d env \<Rightarrow> 'd machine \<Rightarrow> bool" where
  "dma_busy env s \<longleftrightarrow> bswap32 (ldl_p (mem s) (dma_desc env)) AND NOT FW_CFG_DMA_CTL_ERROR \<noteq> 0"

definition poll :: "'d env \<Rightarrow> 'd machine \<Rightarrow> 'd machine" where
  "poll env s = (let (m, d) = io_poll env (mem s, dev s) in s\<lparr>mem := m, dev := d\<rparr>)"

definition dma_wait :: "'d env \<Rightarrow> ('d, unit) fw" where
  "dma_wait env s = (case while_option (dma_busy env) (poll env) s of
     None \<Rightarrow> Hang | Some s' \<Rightarrow> Ret () s')"

definition fw_cfg_dma :: "'d env \<Rightarrow> u32 \<Rightarrow> addr \<Rightarrow> u32 \<Rightarrow> ('d, unit) fw" where
  "fw_cfg_dma env control buf len =
     andthen (on_mem (stl_p (dma_desc env) (bswap32 control)))
     (andthen (on_mem (stl_p (dma_desc env + 4) (bswap32 len)))
     (andthen (on_mem (stq_p (dma_desc env + 8) (bswap64 (ucast buf))))
     (andthen (outl env FW_CFG_DMA_ADDR_LOW (bswap32 (dma_desc env)))
     (dma_wait env))))"

definition fw_cfg_read :: "'d env \<Rightarrow> addr \<Rightarrow> u32 \<Rightarrow> ('d, unit) fw" where
  "fw_cfg_read env buf len =
     bind get_state (\<lambda>s.
     if version s AND FW_CFG_VERSION_DMA \<noteq> 0
     then fw_cfg_dma env FW_CFG_DMA_CTL_READ buf len
     else insb env buf FW_CFG_DATA len)"

definition fw_cfg_read_entry :: "'d env \<Rightarrow> u32 \<Rightarrow> addr \<Rightarrow> u32 \<Rightarrow> ('d, unit) fw" where
  "fw_cfg_read_entry env e buf len =
     bind get_state (\<lambda>s.
     if version s AND FW_CFG_VERSION_DMA \<noteq> 0
     then let control = push_bit 16 e;
              control = control OR FW_CFG_DMA_CTL_SELECT;
              control = control OR FW_CFG_DMA_CTL_READ
          in fw_cfg_dma env control buf len
     else andthen (fw_cfg_select env (ucast e)) (insb env buf FW_CFG_DATA len))"

section \<open>The file directory (fw_cfg.c)\<close>

text \<open>
  An entry of the directory has 64 bytes: size, select, unused, and 56 bytes of name. The table stays in
  memory, where \<open>fw_cfg_setup\<close> reads it and swaps it in place.
\<close>

definition fw_cfg_file_at :: "'d machine \<Rightarrow> u32 \<Rightarrow> addr" where
  "fw_cfg_file_at s i = files s + 64 * i"

definition swap_file :: "addr \<Rightarrow> mem \<Rightarrow> mem" where
  "swap_file f m =
     (let m = stl_p f (bswap32 (ldl_p m f)) m
      in stw_p (f + 4) (bswap16 (lduw_p m (f + 4))) m)"

definition fw_cfg_setup :: "'d env \<Rightarrow> ('d, unit) fw" where
  "fw_cfg_setup env =
     andthen (fw_cfg_select env FW_CFG_ID)
     (bind (fw_cfg_readl_le env) (\<lambda>v.
     andthen (update (\<lambda>s. s\<lparr>version := v\<rparr>))
     (andthen (fw_cfg_select env FW_CFG_FILE_DIR)
     (bind (fw_cfg_readl_be env) (\<lambda>n.
     andthen (update (\<lambda>s. s\<lparr>filecnt := n\<rparr>))
     (bind (malloc_fseg (64 * n)) (\<lambda>p.
     andthen (update (\<lambda>s. s\<lparr>files := p\<rparr>))
     (andthen (fw_cfg_read env p (64 * n))
     (for_each [0..<nat (sint n)] (\<lambda>i.
       bind get_state (\<lambda>s. on_mem (swap_file (fw_cfg_file_at s (of_nat i))))))))))))))"

text \<open>
  A string argument is given by its bytes from its first on: \<open>string_at m p\<close> for a pointer, \<open>literal cs\<close>
  for a string constant of the program.
\<close>

definition string_at :: "mem \<Rightarrow> addr \<Rightarrow> nat \<Rightarrow> u8" where
  "string_at m p i = m (p + of_nat i)"

definition literal :: "string \<Rightarrow> nat \<Rightarrow> u8" where
  "literal cs i = (if i < length cs then of_nat (of_char (cs ! i)) else 0)"

text \<open>\<open>n\<close> counts the characters of the name that are left after the one compared.\<close>

fun filenamecmp_loop :: "(nat \<Rightarrow> u8) \<Rightarrow> (nat \<Rightarrow> u8) \<Rightarrow> nat \<Rightarrow> nat \<Rightarrow> int" where
  "filenamecmp_loop a b i n =
     (if a i = b i
      then if a i = 0 then sint (a i) - sint (b i)
           else case n of 0 \<Rightarrow> sint (a i) | Suc n' \<Rightarrow> filenamecmp_loop a b (Suc i) n'
      else sint (a i) - sint (b i))"

declare filenamecmp_loop.simps [simp del]

definition filenamecmp :: "(nat \<Rightarrow> u8) \<Rightarrow> addr \<Rightarrow> mem \<Rightarrow> int" where
  "filenamecmp a f m = filenamecmp_loop a (string_at m (f + 8)) 0 55"

primrec fw_cfg_file_id_loop :: "(nat \<Rightarrow> u8) \<Rightarrow> 'd machine \<Rightarrow> nat \<Rightarrow> nat \<Rightarrow> u32" where
  "fw_cfg_file_id_loop name s i 0 = -1"
| "fw_cfg_file_id_loop name s i (Suc k) =
     (if filenamecmp name (fw_cfg_file_at s (of_nat i)) (mem s) = 0 then of_nat i
      else fw_cfg_file_id_loop name s (Suc i) k)"

definition fw_cfg_file_id :: "(nat \<Rightarrow> u8) \<Rightarrow> 'd machine \<Rightarrow> u32" where
  "fw_cfg_file_id name s = fw_cfg_file_id_loop name s 0 (nat (sint (filecnt s)))"

definition fw_cfg_file_size :: "u32 \<Rightarrow> 'd machine \<Rightarrow> u32" where
  "fw_cfg_file_size fid s = (if fid = -1 then 0 else ldl_p (mem s) (fw_cfg_file_at s fid))"

definition fw_cfg_file_select :: "'d env \<Rightarrow> u32 \<Rightarrow> ('d, unit) fw" where
  "fw_cfg_file_select env fid =
     bind get_state (\<lambda>s. fw_cfg_select env (lduw_p (mem s) (fw_cfg_file_at s fid + 4)))"

definition fw_cfg_read_file :: "'d env \<Rightarrow> u32 \<Rightarrow> addr \<Rightarrow> u32 \<Rightarrow> ('d, unit) fw" where
  "fw_cfg_read_file env fid buf len =
     bind get_state (\<lambda>s.
     fw_cfg_read_entry env (ucast (lduw_p (mem s) (fw_cfg_file_at s fid + 4))) buf len)"

section \<open>What the device does\<close>

text \<open>
  The documented behaviour of the device. \<open>E e i\<close> is byte \<open>i\<close> of entry \<open>e\<close>; a device state has a selected
  entry \<open>sel\<close> and a position \<open>off\<close> in it. Writing the selector selects an entry and goes back to its
  start; reading the data port returns the next byte; a DMA command (bit 0 of the control word is ERROR, 1 READ, 2 SKIP, 3 SELECT, 4 WRITE) that
  reads, possibly after selecting the entry in its high half, puts the next bytes at the given address, clears the control word, and may take any
  number of polls to do so.
\<close>

definition entry_bytes :: "(u16 \<Rightarrow> nat \<Rightarrow> u8) \<Rightarrow> u16 \<Rightarrow> nat \<Rightarrow> nat \<Rightarrow> u8 list" where
  "entry_bytes E e pos n = map (\<lambda>i. E e (pos + i)) [0..<n]"

definition pio_device :: "'d env \<Rightarrow> ('d \<Rightarrow> u16) \<Rightarrow> ('d \<Rightarrow> nat) \<Rightarrow> (u16 \<Rightarrow> nat \<Rightarrow> u8) \<Rightarrow> bool" where
  "pio_device env sel off E \<longleftrightarrow>
     (\<forall>d. let (b, d') = io_inb env FW_CFG_DATA d in
        b = E (sel d) (off d) \<and> sel d' = sel d \<and> off d' = Suc (off d)) \<and>
     (\<forall>m d e. let (m', d') = io_outw env FW_CFG_CTL e (m, d) in m' = m \<and> sel d' = e \<and> off d' = 0)"

definition dma_device :: "'d env \<Rightarrow> ('d \<Rightarrow> u16) \<Rightarrow> ('d \<Rightarrow> nat) \<Rightarrow> (u16 \<Rightarrow> nat \<Rightarrow> u8) \<Rightarrow> bool" where
  "dma_device env sel off E \<longleftrightarrow>
     (\<forall>m d (control :: u32) (len :: u32) buf.
        load_bytes m (dma_desc env) 16 =
          be_bytes 4 control @ be_bytes 4 len @ be_bytes 8 (ucast buf :: u64) \<longrightarrow>
        bit control 1 \<longrightarrow> \<not> bit control 2 \<longrightarrow> \<not> bit control 4 \<longrightarrow>
        apart buf (unat len) (dma_desc env) 16 \<longrightarrow>
        (let e = (if bit control 3 then ucast (drop_bit 16 control) else sel d);
             pos = (if bit control 3 then 0 else off d);
             md = io_outl env FW_CFG_DMA_ADDR_LOW (bswap32 (dma_desc env)) (m, d)
         in \<exists>k. (\<forall>j < k. ldl_be_p (fst ((io_poll env ^^ j) md)) (dma_desc env) AND NOT FW_CFG_DMA_CTL_ERROR \<noteq> 0) \<and>
              fst ((io_poll env ^^ k) md)
                = store_bytes (store_bytes m buf (entry_bytes E e pos (unat len))) (dma_desc env) [0, 0, 0, 0] \<and>
              sel (snd ((io_poll env ^^ k) md)) = e \<and>
              off (snd ((io_poll env ^^ k) md)) = pos + unat len))"

definition fw_cfg_device :: "'d env \<Rightarrow> ('d \<Rightarrow> u16) \<Rightarrow> ('d \<Rightarrow> nat) \<Rightarrow> (u16 \<Rightarrow> nat \<Rightarrow> u8) \<Rightarrow> bool" where
  "fw_cfg_device env sel off E \<longleftrightarrow> pio_device env sel off E \<and> dma_device env sel off E"

text \<open>What a read of the data port, and a write of the selector, do to the devices.\<close>

definition cfg_next :: "'d env \<Rightarrow> 'd \<Rightarrow> 'd" where
  "cfg_next env d = snd (io_inb env FW_CFG_DATA d)"

definition cfg_select :: "'d env \<Rightarrow> u16 \<Rightarrow> mem \<Rightarrow> 'd \<Rightarrow> 'd" where
  "cfg_select env e m d = snd (io_outw env FW_CFG_CTL e (m, d))"

text \<open>
  \<open>delivered env buf bs s s'\<close>: the bytes \<open>bs\<close> have been put at \<open>buf\<close>; nothing else has changed but
  the devices and, possibly, the descriptor on the stack.
\<close>

definition delivered :: "'d env \<Rightarrow> addr \<Rightarrow> u8 list \<Rightarrow> 'd machine \<Rightarrow> 'd machine \<Rightarrow> bool" where
  "delivered env buf bs s s' \<longleftrightarrow> s' = s\<lparr>mem := mem s', dev := dev s'\<rparr> \<and>
     (\<forall>a. \<not> inside a (dma_desc env) 16 \<longrightarrow> mem s' a = store_bytes (mem s) buf bs a)"

lemma deliveredE:
  assumes "delivered env buf bs s s'"
  obtains m d where "s' = s\<lparr>mem := m, dev := d\<rparr>"
    and "\<And>a. \<not> inside a (dma_desc env) 16 \<Longrightarrow> m a = store_bytes (mem s) buf bs a"
  using assms unfolding delivered_def by blast

lemma length_entry_bytes [simp]: "length (entry_bytes E e pos n) = n"
  by (simp add: entry_bytes_def)

lemma poll_rounds:
  "(poll env ^^ j) s = s\<lparr>mem := fst ((io_poll env ^^ j) (mem s, dev s)),
     dev := snd ((io_poll env ^^ j) (mem s, dev s))\<rparr>"
  by (induction j) (auto simp: poll_def split: prod.split)

lemma funpow_4: "(f ^^ 4) x = f (f (f (f x)))"
  by (simp add: numeral_eq_Suc)

lemma le_word_4:
  "(push_bit 24 (ucast d) OR (push_bit 16 (ucast c) OR (push_bit 8 (ucast b) OR ucast a)) :: u32)
     = le_word [a, b, c, d]"
  by (simp add: ac_simps)

lemma entry_bytes_4:
  "entry_bytes E e pos 4 = [E e pos, E e (Suc pos), E e (Suc (Suc pos)), E e (Suc (Suc (Suc pos)))]"
  by (simp add: entry_bytes_def upt_rec numeral_3_eq_3)

locale fw_cfg_port =
  fixes env :: "'d env"
    and sel :: "'d \<Rightarrow> u16"
    and off :: "'d \<Rightarrow> nat"
    and E :: "u16 \<Rightarrow> nat \<Rightarrow> u8"
  assumes device: "fw_cfg_device env sel off E"
begin

lemma inb_data [simp]:
  "io_inb env FW_CFG_DATA d = (E (sel d) (off d), cfg_next env d)"
  "sel (cfg_next env d) = sel d" "off (cfg_next env d) = Suc (off d)"
  using device by (cases "io_inb env FW_CFG_DATA d"; auto simp: fw_cfg_device_def pio_device_def cfg_next_def Let_def split: prod.splits)+

lemma next_rounds [simp]:
  "sel ((cfg_next env ^^ n) d) = sel d" "off ((cfg_next env ^^ n) d) = off d + n"
  by (induction n) auto

lemma select [simp]:
  "io_outw env FW_CFG_CTL e (m, d) = (m, cfg_select env e m d)"
  "sel (cfg_select env e m d) = e" "off (cfg_select env e m d) = 0"
  using device by (cases "io_outw env FW_CFG_CTL e (m, d)"; auto simp: fw_cfg_device_def pio_device_def cfg_select_def Let_def split: prod.splits)+

lemma fw_cfg_select_apply [simp]:
  "fw_cfg_select env e s = Ret () (s\<lparr>dev := cfg_select env e (mem s) (dev s)\<rparr>)"
  by (simp add: fw_cfg_select_def outw_def)

lemma readl_le_apply [simp]:
  "fw_cfg_readl_le env s = Ret (le_word (entry_bytes E (sel (dev s)) (off (dev s)) 4))
     (s\<lparr>dev := (cfg_next env ^^ 4) (dev s)\<rparr>)"
  by (simp add: fw_cfg_readl_le_def prog_simps inb_def Let_def le_word_4 entry_bytes_4
      funpow_4 del: le_word.simps)

lemma readl_be_apply [simp]:
  "fw_cfg_readl_be env s = Ret (be_word (entry_bytes E (sel (dev s)) (off (dev s)) 4))
     (s\<lparr>dev := (cfg_next env ^^ 4) (dev s)\<rparr>)"
  by (simp add: fw_cfg_readl_be_def prog_simps inb_def Let_def be_word_def entry_bytes_4
      funpow_4 ac_simps)

lemma insb_data:
  "insb env buf FW_CFG_DATA len s =
     Ret () (s\<lparr>mem := store_bytes (mem s) buf (entry_bytes E (sel (dev s)) (off (dev s)) (unat len)),
       dev := (cfg_next env ^^ unat len) (dev s)\<rparr>)"
  unfolding insb_def entry_bytes_def
  by (rule insb_loop_stream [where strm = "\<lambda>d i. E (sel d) (off d + i)"]) simp_all

text \<open>
  A DMA read: the descriptor is in memory when the device is told about it, the wait ends, and the
  bytes have been delivered.
\<close>

lemma dma_busy_iff: "dma_busy env s \<longleftrightarrow> ldl_be_p (mem s) (dma_desc env) AND NOT FW_CFG_DMA_CTL_ERROR \<noteq> 0"
  by (simp add: dma_busy_def ldl_p_def ldl_be_p_def)

lemma dma_descriptor:
  "stq_p (p + 8) (bswap64 (ucast (buf :: addr))) (stl_p (p + 4) (bswap32 len) (stl_p p (bswap32 control) m))
     = store_bytes m p (be_bytes 4 control @ be_bytes 4 len @ be_bytes 8 (ucast buf :: u64))"
  by (simp add: stq_p_def stl_p_def store_bytes_append add.commute)

lemma fw_cfg_dma_delivers:
  assumes control: "bit control 1" "\<not> bit control 2" "\<not> bit control 4"
    and apart: "apart buf (unat len) (dma_desc env) 16"
    and e: "e = (if bit control 3 then ucast (drop_bit 16 control) else sel (dev s))"
    and pos: "pos = (if bit control 3 then 0 else off (dev s))"
  shows "\<exists>s'. fw_cfg_dma env control buf len s = Ret () s' \<and>
    delivered env buf (entry_bytes E e pos (unat len)) s s' \<and> sel (dev s') = e \<and> off (dev s') = pos + unat len"
proof -
  let ?D = "dma_desc env" and ?bs = "entry_bytes E e pos (unat len)"
  define cmd where "cmd = be_bytes 4 control @ be_bytes 4 len @ be_bytes 8 (ucast buf :: u64)"
  define m0 where "m0 = store_bytes (mem s) ?D cmd"
  define md where "md = io_outl env FW_CFG_DMA_ADDR_LOW (bswap32 ?D) (m0, dev s)"
  have len_cmd: "length cmd = 16" by (simp add: cmd_def)
  then have "load_bytes m0 ?D 16 = cmd" by (simp add: m0_def load_store_same)
  then obtain k where k:
    "\<forall>j < k. ldl_be_p (fst ((io_poll env ^^ j) md)) ?D AND NOT FW_CFG_DMA_CTL_ERROR \<noteq> 0"
    "fst ((io_poll env ^^ k) md) = store_bytes (store_bytes m0 buf ?bs) ?D [0, 0, 0, 0]"
    "sel (snd ((io_poll env ^^ k) md)) = e" "off (snd ((io_poll env ^^ k) md)) = pos + unat len"
    using device control apart unfolding fw_cfg_device_def dma_device_def cmd_def md_def e pos Let_def
    by blast
  define s1 where "s1 = s\<lparr>mem := fst md, dev := snd md\<rparr>"
  define s' where "s' = (poll env ^^ k) s1"
  have s': "s' = s\<lparr>mem := store_bytes (store_bytes m0 buf ?bs) ?D [0, 0, 0, 0], dev := snd ((io_poll env ^^ k) md)\<rparr>"
    unfolding s'_def poll_rounds by (simp add: s1_def k(2))
  have "\<not> dma_busy env s'"
    by (simp add: dma_busy_iff s' ldl_be_p_def load_store_same be_word_def del: store_bytes.simps)
  moreover have "\<forall>j < k. dma_busy env ((poll env ^^ j) s1)"
    using k(1) by (simp add: dma_busy_iff poll_rounds s1_def)
  ultimately have "while_option (dma_busy env) (poll env) s1 = Some s'"
    unfolding s'_def by (intro while_option_rounds)
  then have wait: "dma_wait env s1 = Ret () s'" by (simp add: dma_wait_def)
  have "outl env FW_CFG_DMA_ADDR_LOW (bswap32 ?D) (s\<lparr>mem := m0\<rparr>) = Ret () s1"
    by (simp add: outl_def md_def [symmetric] s1_def case_prod_beta)
  then have run: "fw_cfg_dma env control buf len s = Ret () s'"
    by (simp add: fw_cfg_dma_def prog_simps dma_descriptor m0_def cmd_def wait)
  have "mem s' a = store_bytes (mem s) buf ?bs a" if "\<not> inside a ?D 16" for a
  proof -
    have "mem s' a = store_bytes m0 buf ?bs a"
      unfolding s' using that by (simp add: store_bytes_outside [where n = 16] del: store_bytes.simps)
    also have "\<dots> = store_bytes (mem s) buf ?bs a"
      using that unat_bound [of len]
      by (simp add: store_bytes_at m0_def store_bytes_outside [where n = 16] len_cmd)
    finally show ?thesis .
  qed
  then have "delivered env buf ?bs s s'" by (simp add: delivered_def s')
  with run k(3,4) show ?thesis by (auto simp: s')
qed

text \<open>Both transports deliver the same bytes: fw_cfg.c picks one by the version of the device.\<close>

lemma fw_cfg_read_delivers:
  assumes "apart buf (unat len) (dma_desc env) 16"
  shows "\<exists>s'. fw_cfg_read env buf len s = Ret () s' \<and>
    delivered env buf (entry_bytes E (sel (dev s)) (off (dev s)) (unat len)) s s' \<and>
    sel (dev s') = sel (dev s) \<and> off (dev s') = off (dev s) + unat len"
proof (cases "version s AND FW_CFG_VERSION_DMA = 0")
  case True
  then show ?thesis by (simp add: fw_cfg_read_def prog_simps insb_data delivered_def)
next
  case False
  then show ?thesis
    using fw_cfg_dma_delivers [of FW_CFG_DMA_CTL_READ buf len "sel (dev s)" s "off (dev s)"] assms
    by (simp add: fw_cfg_read_def prog_simps)
qed

lemma fw_cfg_read_entry_delivers:
  assumes "apart buf (unat len) (dma_desc env) 16"
  shows "\<exists>s'. fw_cfg_read_entry env e buf len s = Ret () s' \<and>
    delivered env buf (entry_bytes E (ucast e) 0 (unat len)) s s' \<and>
    sel (dev s') = ucast e \<and> off (dev s') = unat len"
proof (cases "version s AND FW_CFG_VERSION_DMA = 0")
  case True
  then show ?thesis by (simp add: fw_cfg_read_entry_def prog_simps insb_data delivered_def)
next
  case False
  let ?c = "(push_bit 16 e OR FW_CFG_DMA_CTL_SELECT) OR FW_CFG_DMA_CTL_READ"
  have "bit ?c 1" "\<not> bit ?c 2" "\<not> bit ?c 4" "bit ?c 3" by (simp_all add: bit_simps)
  moreover have "ucast (drop_bit 16 ?c) = (ucast e :: u16)"
  proof -
    have "?c = (push_bit 16 e OR push_bit 3 1) OR push_bit 1 1" by simp
    then show ?thesis by (auto intro!: bit_word_eqI simp: bit_simps)
  qed
  ultimately show ?thesis
    using fw_cfg_dma_delivers [of ?c buf len "ucast e" s 0] assms False
    by (simp add: fw_cfg_read_entry_def prog_simps Let_def)
qed

end

end
