(* ===== verification/Fwdir.thy ===== *)
theory Fwdir
  imports Fwcfg
begin

text \<open>
  Correctness of the file directory of fw_cfg.c: after \<open>fw_cfg_setup\<close> the table in memory is the
  directory the device advertises, in host byte order, and \<open>fw_cfg_file_id\<close> finds the first file
  of a name in it.
\<close>

section \<open>Directory entries\<close>

text \<open>\<open>struct fw_cfg_file\<close>, and its layout in memory (host order) and in the device (big-endian).\<close>

record fw_cfg_file =
  file_size :: u32
  file_select :: u16
  file_unused :: u16
  file_name :: "u8 list"

definition valid_file :: "fw_cfg_file \<Rightarrow> bool" where
  "valid_file f \<longleftrightarrow> length (file_name f) = 56"

definition enc_file :: "fw_cfg_file \<Rightarrow> u8 list" where
  "enc_file f = le_bytes 4 (file_size f) @ le_bytes 2 (file_select f) @ le_bytes 2 (file_unused f) @ file_name f"

definition dec_file :: "u8 list \<Rightarrow> fw_cfg_file" where
  "dec_file bs = \<lparr>file_size = le_word (take 4 bs), file_select = le_word (take 2 (drop 4 bs)),
     file_unused = le_word (take 2 (drop 6 bs)), file_name = drop 8 bs\<rparr>"

definition device_file :: "fw_cfg_file \<Rightarrow> u8 list" where
  "device_file f = be_bytes 4 (file_size f) @ be_bytes 2 (file_select f) @ le_bytes 2 (file_unused f) @ file_name f"

interpretation dirent: codec 64 valid_file enc_file dec_file
  by unfold_locales (auto simp: valid_file_def enc_file_def dec_file_def)

text \<open>The table the other components see.\<close>

definition file_table :: "'d machine \<Rightarrow> fw_cfg_file list" where
  "file_table s = load_array 64 dec_file (mem s) (files s) (nat (sint (filecnt s)))"

section \<open>Swapping an entry in place\<close>

definition swap_bytes :: "u8 list \<Rightarrow> u8 list" where
  "swap_bytes bs = rev (take 4 bs) @ rev (take 2 (drop 4 bs)) @ drop 6 bs"

lemma swap_bytes_device: "valid_file f \<Longrightarrow> swap_bytes (device_file f) = enc_file f"
  by (simp add: swap_bytes_def device_file_def enc_file_def be_bytes_def)

lemma length_swap_bytes [simp]: "6 \<le> length bs \<Longrightarrow> length (swap_bytes bs) = length bs"
  by (simp add: swap_bytes_def)

lemma le_bytes_be_word:
  "length bs = 4 \<Longrightarrow> le_bytes 4 (be_word bs :: u32) = rev bs"
  "length bs = 2 \<Longrightarrow> le_bytes 2 (be_word bs :: u16) = rev bs"
  by (simp_all add: be_word_def le_bytes_le_word_4 le_bytes_le_word_2)

lemma swap_file_store:
  "swap_file f m = store_bytes m f (rev (load_bytes m f 4) @ rev (load_bytes m (f + 4) 2))"
proof -
  have "apart f (length (rev (load_bytes m f 4))) (f + 4) 2" by (simp add: apart_def)
  then have "load_bytes (store_bytes m f (rev (load_bytes m f 4))) (f + 4) 2 = load_bytes m (f + 4) 2"
    by (rule load_store_apart)
  then show ?thesis
    by (simp add: swap_file_def Let_def stl_p_def stw_p_def store_bytes_append ldl_p_def lduw_p_def
        le_bytes_be_word)
qed

lemma swap_file_same: "load_bytes (swap_file f m) f 64 = swap_bytes (load_bytes m f 64)"
proof -
  let ?bs = "load_bytes m f 64"
  let ?new = "rev (load_bytes m f 4) @ rev (load_bytes m (f + 4) 2)"
  have head: "take 4 ?bs = load_bytes m f 4" "take 2 (drop 4 ?bs) = load_bytes m (f + 4) 2"
    and tail: "drop 6 ?bs = load_bytes m (f + 6) 58"
    using load_bytes_append [of m f 4 60] load_bytes_append [of m "f + 4" 2 58] by (simp_all add: add.commute)
  have "load_bytes (store_bytes m f ?new) (f + 6) 58 = load_bytes m (f + 6) 58"
    by (intro load_store_apart) (simp add: apart_def)
  moreover have "load_bytes (store_bytes m f ?new) f 6 = ?new"
    by (rule load_store_same) simp_all
  ultimately have "load_bytes (store_bytes m f ?new) f (6 + 58) = ?new @ load_bytes m (f + 6) 58"
    by (subst load_bytes_append) simp
  then show ?thesis by (simp add: swap_file_store swap_bytes_def head tail)
qed

lemma swap_file_apart: "apart f 64 q n \<Longrightarrow> load_bytes (swap_file f m) q n = load_bytes m q n"
  unfolding swap_file_store by (rule load_store_apart) (auto elim: apart_mono)

lemma swap_file_outside: "\<not> inside a f 64 \<Longrightarrow> swap_file f m a = m a"
  unfolding swap_file_store by (rule store_bytes_outside [where n = 64]) simp_all

text \<open>The loop over the table: each entry is swapped once, whatever the others are.\<close>

definition swap_all :: "addr \<Rightarrow> nat \<Rightarrow> mem \<Rightarrow> mem" where
  "swap_all p n m = fold (\<lambda>i. swap_file (p + of_nat (64 * i))) [0..<n] m"

lemma swap_all_Suc: "swap_all p (Suc n) m = swap_file (p + of_nat (64 * n)) (swap_all p n m)"
  by (simp add: swap_all_def)

lemma swap_all_entry:
  assumes "64 * n \<le> 2 ^ 32" and "i < n" and "k \<le> n"
  shows "load_bytes (swap_all p k m) (p + of_nat (64 * i)) 64 =
    (if i < k then swap_bytes (load_bytes m (p + of_nat (64 * i)) 64) else load_bytes m (p + of_nat (64 * i)) 64)"
  using assms(3)
proof (induction k)
  case 0
  then show ?case by (simp add: swap_all_def)
next
  case (Suc k)
  show ?case
  proof (cases "i = k")
    case True
    with Suc show ?thesis by (simp only: swap_all_Suc swap_file_same) simp
  next
    case False
    then have "apart (p + of_nat (64 * k)) 64 (p + of_nat (64 * i)) 64"
      using Suc.prems assms by (intro apart_elements [of k i n]) auto
    with Suc False show ?thesis by (simp only: swap_all_Suc swap_file_apart) auto
  qed
qed

lemma swap_all_outside:
  "64 * n \<le> 2 ^ 32 \<Longrightarrow> \<not> inside a p (64 * n) \<Longrightarrow> swap_all p n m a = m a"
proof (induction n)
  case 0
  then show ?case by (simp add: swap_all_def)
next
  case (Suc n)
  have "\<not> inside a (p + of_nat (64 * n)) 64"
  proof
    assume "inside a (p + of_nat (64 * n)) 64"
    then obtain i where i: "i < 64" "a = p + of_nat (64 * n) + of_nat i" by (rule insideE)
    then have "a = p + of_nat (64 * n + i)" by simp
    moreover have "inside (p + of_nat (64 * n + i)) p (64 * Suc n)"
      using i(1) Suc.prems(1) by (intro inside_offset) simp_all
    ultimately show False using Suc.prems(2) by simp
  qed
  moreover have "\<not> inside a p (64 * n)" using Suc.prems(2) by (auto simp: inside_def)
  ultimately show ?case using Suc by (simp add: swap_all_Suc swap_file_outside)
qed

lemma swap_loop:
  "for_each [0..<n] (\<lambda>i. bind get_state (\<lambda>s. on_mem (swap_file (fw_cfg_file_at s (of_nat i))))) s
     = Ret () (s\<lparr>mem := swap_all (files s) n (mem s)\<rparr>)"
proof -
  have "for_each xs (\<lambda>i. bind get_state (\<lambda>s. on_mem (swap_file (fw_cfg_file_at s (of_nat i))))) s
     = Ret () (s\<lparr>mem := fold (\<lambda>i. swap_file (files s + of_nat (64 * i))) xs (mem s)\<rparr>)" for xs
    by (induction xs arbitrary: s) (simp_all add: prog_simps fw_cfg_file_at_def)
  then show ?thesis by (simp add: swap_all_def)
qed

section \<open>fw_cfg_setup\<close>

text \<open>
  The device advertises the directory \<open>dir\<close>: the entry FW_CFG_FILE_DIR starts with the number of files
  and the files, all big-endian.
\<close>

definition advertises :: "(u16 \<Rightarrow> nat \<Rightarrow> u8) \<Rightarrow> fw_cfg_file list \<Rightarrow> bool" where
  "advertises E dir \<longleftrightarrow> (\<forall>f \<in> set dir. valid_file f) \<and>
     entry_bytes E FW_CFG_FILE_DIR 0 (4 + 64 * length dir)
       = be_bytes 4 (of_nat (length dir) :: u32) @ concat (map device_file dir)"

lemma entry_bytes_append:
  "entry_bytes E e pos (n + k) = entry_bytes E e pos n @ entry_bytes E e (pos + n) k"
  by (rule nth_equalityI) (auto simp: entry_bytes_def nth_append)

lemma advertises_parts:
  assumes "advertises E dir"
  shows "be_word (entry_bytes E FW_CFG_FILE_DIR 0 4) = (of_nat (length dir) :: u32)"
    and "entry_bytes E FW_CFG_FILE_DIR 4 (64 * length dir) = concat (map device_file dir)"
    and "\<forall>f \<in> set dir. valid_file f"
proof -
  from assms have "entry_bytes E FW_CFG_FILE_DIR 0 4 @ entry_bytes E FW_CFG_FILE_DIR 4 (64 * length dir)
      = be_bytes 4 (of_nat (length dir) :: u32) @ concat (map device_file dir)"
    by (simp add: advertises_def entry_bytes_append)
  then have "entry_bytes E FW_CFG_FILE_DIR 0 4 = be_bytes 4 (of_nat (length dir) :: u32)
      \<and> entry_bytes E FW_CFG_FILE_DIR 4 (64 * length dir) = concat (map device_file dir)"
    by (rule append_eq_append_conv [THEN iffD1, rotated]) simp
  then show "be_word (entry_bytes E FW_CFG_FILE_DIR 0 4) = (of_nat (length dir) :: u32)"
    "entry_bytes E FW_CFG_FILE_DIR 4 (64 * length dir) = concat (map device_file dir)"
    by simp_all
  show "\<forall>f \<in> set dir. valid_file f" using assms by (simp add: advertises_def)
qed

text \<open>The raw table, swapped entry by entry, is the directory.\<close>

lemma load_bytes_entry:
  assumes "load_bytes m p (64 * length dir) = concat (map device_file dir)"
    and "\<forall>f \<in> set dir. valid_file f" and "i < length dir"
  shows "load_bytes m (p + of_nat (64 * i)) 64 = device_file (dir ! i)"
  using assms
proof (induction dir arbitrary: p i)
  case (Cons f dir)
  have len: "length (device_file f) = 64" using Cons.prems(2) by (simp add: device_file_def valid_file_def)
  have "load_bytes m p (64 + 64 * length dir) = device_file f @ concat (map device_file dir)"
    using Cons.prems(1) by simp
  then have parts: "load_bytes m p 64 = device_file f"
    "load_bytes m (p + 64) (64 * length dir) = concat (map device_file dir)"
    unfolding load_bytes_append using len by auto
  show ?case
  proof (cases i)
    case 0
    with parts show ?thesis by simp
  next
    case (Suc k)
    then show ?thesis
      using Cons.IH [OF parts(2)] Cons.prems by (simp add: add.assoc)
  qed
qed simp

lemma swapped_table:
  assumes "load_bytes m p (64 * length dir) = concat (map device_file dir)"
    and "\<forall>f \<in> set dir. valid_file f" and "64 * length dir \<le> 2 ^ 32"
  shows "load_array 64 dec_file (swap_all p (length dir) m) p (length dir) = dir"
proof (rule nth_equalityI)
  fix i assume "i < length (load_array 64 dec_file (swap_all p (length dir) m) p (length dir))"
  then have i: "i < length dir" by simp
  then have "load_bytes (swap_all p (length dir) m) (p + of_nat (64 * i)) 64 = enc_file (dir ! i)"
    using assms by (simp only: swap_all_entry load_bytes_entry swap_bytes_device nth_mem if_True order.refl)
  then show "load_array 64 dec_file (swap_all p (length dir) m) p (length dir) ! i = dir ! i"
    using i assms(2) by (simp add: nth_load_array mult.commute)
qed simp

text \<open>
  The stack, with the DMA descriptor, lies below the F-segment heap, and the table fits above it.
\<close>

definition room_for :: "'d env \<Rightarrow> 'd machine \<Rightarrow> nat \<Rightarrow> bool" where
  "room_for env s n \<longleftrightarrow> unat (dma_desc env) + 16 \<le> unat (fseg_base s) \<and> unat (fseg_base s) + 16 + n \<le> 2 ^ 32"

text \<open>Where the next F-segment block goes.\<close>

definition fseg_next :: "'d machine \<Rightarrow> addr" where
  "fseg_next s = (fseg_base s + 16 - 1) AND - 16"

lemma fseg_next_bounds:
  assumes "room_for env s n"
  shows "unat (fseg_base s) \<le> unat (fseg_next s)" "unat (fseg_next s) + n \<le> 2 ^ 32"
    "apart (fseg_next s) n (dma_desc env) 16" "unat (fseg_next s) < unat (fseg_base s) + 16"
proof -
  have fits: "fseg_fits (of_nat 0) 16 s" using assms by (simp add: fseg_fits_def room_for_def)
  have "malloc_fseg_align (of_nat 0) 16 s = Ret (fseg_next s) (s\<lparr>fseg_base := fseg_next s + of_nat 0\<rparr>)"
    by (simp add: malloc_fseg_align_apply fseg_next_def Let_def)
  note b = malloc_fseg_align_bounds [OF fits this]
  show base: "unat (fseg_base s) \<le> unat (fseg_next s)" by (rule b(1))
  show close: "unat (fseg_next s) < unat (fseg_base s) + 16" using b(6) by simp
  then show top: "unat (fseg_next s) + n \<le> 2 ^ 32" using assms by (simp add: room_for_def)
  have "apart (dma_desc env) 16 (fseg_next s) n"
    using assms base top by (intro apart_interval) (simp_all add: room_for_def)
  then show "apart (fseg_next s) n (dma_desc env) 16" by (simp only: apart_commute)
qed

context fw_cfg_port
begin

lemma fw_cfg_setup_directory:
  assumes adv: "advertises E dir" and room: "room_for env s (64 * length dir)"
  shows "\<exists>s'. fw_cfg_setup env s = Ret () s' \<and> file_table s' = dir \<and>
    s' = s\<lparr>mem := mem s', dev := dev s', version := le_word (entry_bytes E FW_CFG_ID 0 4),
      filecnt := of_nat (length dir), files := fseg_next s,
      fseg_base := fseg_next s + 64 * of_nat (length dir)\<rparr> \<and>
    (\<forall>a. \<not> inside a (dma_desc env) 16 \<and> \<not> inside a (fseg_next s) (64 * length dir) \<longrightarrow> mem s' a = mem s a)"
proof -
  let ?n = "length dir" and ?p = "fseg_next s"
  note room' = fseg_next_bounds [OF room]
  have n: "64 * ?n < 2 ^ 32" using room by (simp add: room_for_def)
  then have u: "unat (64 * of_nat ?n :: u32) = 64 * ?n" "unat (of_nat ?n :: u32) = ?n"
    by (simp_all add: unat_word_ariths unat_of_nat)
  then have "sint (of_nat ?n :: u32) = int ?n" using n by (subst sint_small) simp_all
  note u = u this
  define d1 where "d1 = (cfg_next env ^^ 4) (cfg_select env FW_CFG_ID (mem s) (dev s))"
  define d2 where "d2 = (cfg_next env ^^ 4) (cfg_select env FW_CFG_FILE_DIR (mem s) d1)"
  define s2 where "s2 = s\<lparr>version := le_word (entry_bytes E FW_CFG_ID 0 4), dev := d2,
    filecnt := of_nat ?n, fseg_base := ?p + 64 * of_nat ?n, files := ?p\<rparr>"
  have d2: "sel d2 = FW_CFG_FILE_DIR" "off d2 = 4" by (simp_all add: d2_def)
  have prefix: "fw_cfg_setup env s = andthen (fw_cfg_read env ?p (64 * of_nat ?n))
      (for_each [0..<nat (sint (of_nat ?n :: u32))] (\<lambda>i.
        bind get_state (\<lambda>s. on_mem (swap_file (fw_cfg_file_at s (of_nat i)))))) s2"
    by (simp add: fw_cfg_setup_def prog_simps malloc_fseg_def malloc_fseg_align_apply Let_def
        advertises_parts(1) [OF adv] s2_def d2_def d1_def fseg_next_def cong: outcome.case_cong)
  have "apart ?p (unat (64 * of_nat ?n :: u32)) (dma_desc env) 16" using room'(3) by (simp only: u)
  from fw_cfg_read_delivers [OF this, of s2] obtain s3 where s3:
    "fw_cfg_read env ?p (64 * of_nat ?n) s2 = Ret () s3"
    "delivered env ?p (concat (map device_file dir)) s2 s3"
    by (auto simp: s2_def d2 u advertises_parts(2) [OF adv])
  obtain m3 d3 where m3: "s3 = s2\<lparr>mem := m3, dev := d3\<rparr>"
    "\<And>a. \<not> inside a (dma_desc env) 16 \<Longrightarrow> m3 a = store_bytes (mem s) ?p (concat (map device_file dir)) a"
    using s3(2) by (rule deliveredE) (simp add: s2_def)
  define s' where "s' = s3\<lparr>mem := swap_all ?p ?n m3\<rparr>"
  have len: "length (concat (map device_file dir)) = 64 * ?n"
    using advertises_parts(2) [OF adv] by (metis length_entry_bytes)
  have run: "fw_cfg_setup env s = Ret () s'"
    by (simp add: prefix prog_simps s3(1) u swap_loop s'_def m3(1)) (simp add: s2_def)
  have "load_bytes m3 ?p (64 * ?n) = concat (map device_file dir)"
  proof (rule load_bytes_eqI)
    fix i assume i: "i < 64 * ?n"
    then have "\<not> inside (?p + of_nat i) (dma_desc env) 16"
      using apart_not_inside room'(3) apart_commute by blast
    then show "m3 (?p + of_nat i) = concat (map device_file dir) ! i"
      using i n len by (simp add: m3(2) store_bytes_at inside_def unat_of_nat)
  qed (simp add: len)
  then have "load_array 64 dec_file (swap_all ?p ?n m3) ?p ?n = dir"
    using n advertises_parts(3) [OF adv] by (intro swapped_table) simp_all
  then have table: "file_table s' = dir"
    by (simp add: file_table_def s'_def m3(1) s2_def u)
  have "mem s' a = mem s a" if "\<not> inside a (dma_desc env) 16" "\<not> inside a ?p (64 * ?n)" for a
    using that n by (simp add: s'_def swap_all_outside m3(2) store_bytes_at len)
  with run table show ?thesis by (auto simp: s'_def m3(1) s2_def)
qed

end

section \<open>Looking a file up by name\<close>

text \<open>The string an argument denotes, and the files of that name: the name field holds the string and
  a NUL. A name that fills the field has no NUL in it and is never found.\<close>

definition is_string :: "(nat \<Rightarrow> u8) \<Rightarrow> u8 list \<Rightarrow> bool" where
  "is_string a cs \<longleftrightarrow> (\<forall>i < length cs. a i = cs ! i \<and> cs ! i \<noteq> 0) \<and> a (length cs) = 0"

definition file_named :: "u8 list \<Rightarrow> fw_cfg_file \<Rightarrow> bool" where
  "file_named cs f \<longleftrightarrow> take (Suc (length cs)) (file_name f) = cs @ [0]"

lemma is_string_at: "cstring m p cs \<Longrightarrow> is_string (string_at m p) cs"
proof (induction cs arbitrary: p)
  case (Cons c cs)
  then have IH: "is_string (string_at m (p + 1)) cs" by simp
  have shift: "string_at m p (Suc i) = string_at m (p + 1) i" for i
    by (simp add: string_at_def add.assoc)
  have "string_at m p i = (c # cs) ! i \<and> (c # cs) ! i \<noteq> 0" if "i < length (c # cs)" for i
    using that IH Cons.prems by (cases i) (auto simp: is_string_def shift string_at_def [of m p 0])
  with IH show ?case by (simp add: is_string_def shift)
qed (simp add: is_string_def string_at_def)

lemma filenamecmp_loop_zero:
  "filenamecmp_loop a b i n = 0 \<longleftrightarrow>
    (\<exists>k \<le> n. (\<forall>j < k. a (i + j) = b (i + j) \<and> a (i + j) \<noteq> 0) \<and> a (i + k) = 0 \<and> b (i + k) = 0)"
proof (induction n arbitrary: i)
  case 0
  then show ?case by (auto simp: sint_eq_iff filenamecmp_loop.simps)
next
  case (Suc n)
  have step: "(\<exists>k \<le> Suc n. (\<forall>j < k. P j) \<and> Q k) \<longleftrightarrow> Q 0 \<or> P 0 \<and> (\<exists>k \<le> n. (\<forall>j < k. P (Suc j)) \<and> Q (Suc k))"
    for P Q :: "nat \<Rightarrow> bool"
  proof
    assume "\<exists>k \<le> Suc n. (\<forall>j < k. P j) \<and> Q k"
    then obtain k where "k \<le> Suc n" "\<forall>j < k. P j" "Q k" by blast
    then show "Q 0 \<or> P 0 \<and> (\<exists>k \<le> n. (\<forall>j < k. P (Suc j)) \<and> Q (Suc k))"
      by (cases k) auto
  next
    assume "Q 0 \<or> P 0 \<and> (\<exists>k \<le> n. (\<forall>j < k. P (Suc j)) \<and> Q (Suc k))"
    then show "\<exists>k \<le> Suc n. (\<forall>j < k. P j) \<and> Q k"
    proof (elim disjE conjE exE)
      fix k assume "P 0" "k \<le> n" "\<forall>j < k. P (Suc j)" "Q (Suc k)"
      then show ?thesis by (intro exI [of _ "Suc k"]) (auto simp: less_Suc_eq_0_disj)
    qed auto
  qed
  show ?case
    by (subst step, subst filenamecmp_loop.simps) (use Suc [of "Suc i"] in \<open>auto simp: sint_eq_iff\<close>)
qed

lemma filenamecmp_zero:
  assumes "is_string a cs"
  shows "filenamecmp a f m = 0 \<longleftrightarrow> file_named cs (dec_file (load_bytes m f 64))"
proof -
  let ?b = "string_at m (f + 8)" and ?name = "file_name (dec_file (load_bytes m f 64))"
  have name: "?name ! j = ?b j" if "j < 56" for j
    using that by (simp add: dec_file_def string_at_def add.assoc)
  have len: "length ?name = 56" by (simp add: dec_file_def)
  have k: "k = length cs" if "\<forall>j < k. a j = ?b j \<and> a j \<noteq> 0" "a k = 0" for k
    using that assms by (cases k "length cs" rule: linorder_cases) (auto simp: is_string_def)
  have str: "\<forall>i < length cs. a i = cs ! i \<and> cs ! i \<noteq> 0" "a (length cs) = 0"
    using assms by (simp_all add: is_string_def)
  have "filenamecmp a f m = 0 \<longleftrightarrow>
      (\<exists>k \<le> 55. (\<forall>j < k. a j = ?b j \<and> a j \<noteq> 0) \<and> a k = 0 \<and> ?b k = 0)"
    by (simp add: filenamecmp_def filenamecmp_loop_zero)
  also have "\<dots> \<longleftrightarrow> length cs \<le> 55 \<and> (\<forall>j < length cs. cs ! j = ?b j) \<and> ?b (length cs) = 0"
    (is "?L \<longleftrightarrow> ?R")
  proof
    assume ?L
    then obtain j where j: "j \<le> 55" "\<forall>i < j. a i = ?b i \<and> a i \<noteq> 0" "a j = 0" "?b j = 0" by blast
    with k have "j = length cs" by blast
    with j str show ?R by metis
  next
    assume ?R
    with str show ?L by (intro exI [of _ "length cs"]) simp
  qed
  also have "\<dots> \<longleftrightarrow> take (Suc (length cs)) ?name = cs @ [0]"
  proof
    assume *: "length cs \<le> 55 \<and> (\<forall>j < length cs. cs ! j = ?b j) \<and> ?b (length cs) = 0"
    then show "take (Suc (length cs)) ?name = cs @ [0]"
      by (intro nth_equalityI) (auto simp: len name nth_append less_Suc_eq)
  next
    assume eq: "take (Suc (length cs)) ?name = cs @ [0]"
    then have le: "length cs \<le> 55" using len by (auto dest: arg_cong [of _ _ length])
    have "?b j = (cs @ [0]) ! j" if "j \<le> length cs" for j
    proof -
      have "?name ! j = (cs @ [0]) ! j" using eq that by (metis le_imp_less_Suc nth_take)
      then show ?thesis using name [of j] that le by simp
    qed
    with le show "length cs \<le> 55 \<and> (\<forall>j < length cs. cs ! j = ?b j) \<and> ?b (length cs) = 0"
      by (auto simp: nth_append)
  qed
  finally show ?thesis by (simp add: file_named_def)
qed

text \<open>The lookup returns the index of the first file of that name, or -1.\<close>

lemma file_id_loop_index:
  assumes "is_string name cs"
  shows "fw_cfg_file_id_loop name s i k =
    (case index_of (file_named cs) (load_array 64 dec_file (mem s) (fw_cfg_file_at s (of_nat i)) k) of
       None \<Rightarrow> -1 | Some j \<Rightarrow> of_nat (i + j))"
proof (induction k arbitrary: i)
  case (Suc k)
  have "fw_cfg_file_at s (of_nat i) + 64 = fw_cfg_file_at s (of_nat (Suc i))"
    by (simp add: fw_cfg_file_at_def algebra_simps)
  with Suc [of "Suc i"] show ?case
    by (simp add: filenamecmp_zero [OF assms] split: option.split)
qed simp

lemma fw_cfg_file_id_index:
  assumes "is_string name cs"
  shows "fw_cfg_file_id name s =
    (case index_of (file_named cs) (file_table s) of None \<Rightarrow> -1 | Some i \<Rightarrow> of_nat i)"
  using file_id_loop_index [OF assms, of s 0]
  by (simp add: fw_cfg_file_id_def file_table_def fw_cfg_file_at_def cong: option.case_cong)

lemma length_file_table: "length (file_table s) < 2 ^ 31"
proof -
  have "sint (filecnt s) < 2 ^ 31" using sint_less [of "filecnt s"] by simp
  then have "nat (sint (filecnt s)) < 2 ^ 31" by (simp add: nat_less_iff)
  then show ?thesis by (simp add: file_table_def)
qed

lemma unat_of_nat_file: "i < length (file_table s) \<Longrightarrow> unat (of_nat i :: u32) = i"
  using length_file_table [of s] by (simp add: unat_of_nat)

lemma file_id_not_minus_one:
  assumes "i < length (file_table s)"
  shows "of_nat i \<noteq> (- 1 :: u32)"
proof
  assume "of_nat i = (- 1 :: u32)"
  then have "unat (of_nat i :: u32) = 2 ^ 32 - 1"
    by (simp add: unsigned_minus_1_eq_mask mask_eq_exp_minus_1)
  with assms length_file_table [of s] show False by (simp add: unat_of_nat_file)
qed

text \<open>Size and selector of a file that was found are those of its entry.\<close>

lemma file_table_nth:
  "i < length (file_table s) \<Longrightarrow>
    file_table s ! i = dec_file (load_bytes (mem s) (fw_cfg_file_at s (of_nat i)) 64)"
  by (simp add: file_table_def nth_load_array fw_cfg_file_at_def mult.commute)

lemma fw_cfg_file_size_entry:
  assumes "i < length (file_table s)"
  shows "fw_cfg_file_size (of_nat i) s = file_size (file_table s ! i)"
  using load_bytes_append [of "mem s" "fw_cfg_file_at s (of_nat i)" 4 60] file_id_not_minus_one [OF assms]
  by (simp add: fw_cfg_file_size_def file_table_nth [OF assms] dec_file_def ldl_p_def)

lemma fw_cfg_file_select_entry:
  assumes "i < length (file_table s)"
  shows "lduw_p (mem s) (fw_cfg_file_at s (of_nat i) + 4) = file_select (file_table s ! i)"
  using load_bytes_append [of "mem s" "fw_cfg_file_at s (of_nat i)" 4 60]
    load_bytes_append [of "mem s" "fw_cfg_file_at s (of_nat i) + 4" 2 58]
  by (simp add: file_table_nth [OF assms] dec_file_def lduw_p_def)

context fw_cfg_port
begin

lemma fw_cfg_read_file_delivers:
  assumes "i < length (file_table s)" and "apart buf (unat len) (dma_desc env) 16"
  shows "\<exists>s'. fw_cfg_read_file env (of_nat i) buf len s = Ret () s' \<and>
    delivered env buf (entry_bytes E (file_select (file_table s ! i)) 0 (unat len)) s s' \<and>
    sel (dev s') = file_select (file_table s ! i) \<and> off (dev s') = unat len"
  using fw_cfg_read_entry_delivers [OF assms(2), of "ucast (file_select (file_table s ! i))" s]
  by (simp add: fw_cfg_read_file_def prog_simps fw_cfg_file_select_entry [OF assms(1)] ucast_ucast_up)

end

text \<open>The table does not change when memory outside it does.\<close>

lemma file_table_cong:
  assumes "files s' = files s" "filecnt s' = filecnt s"
    and "\<And>a. inside a (files s) (64 * nat (sint (filecnt s))) \<Longrightarrow> mem s' a = mem s a"
    and "64 * nat (sint (filecnt s)) \<le> 2 ^ 32"
  shows "file_table s' = file_table s"
  unfolding file_table_def assms(1,2)
  by (rule load_array_cong) (use assms(3,4) inside_offset in simp)

text \<open>A string constant of the program is the string it spells.\<close>

lemma is_string_literal:
  assumes "\<forall>c \<in> set cs. (of_nat (of_char c) :: u8) \<noteq> 0"
  shows "is_string (literal cs) (map (\<lambda>c. of_nat (of_char c)) cs)"
  using assms by (simp add: is_string_def literal_def)

text \<open>Reading a file to a place above the directory, which itself lies above the DMA descriptor.\<close>

context fw_cfg_port
begin

lemma read_file_above:
  assumes low: "unat (dma_desc env) + 16 \<le> unat (files s)"
    and above: "unat (files s) + 64 * length (file_table s) \<le> unat p" "unat p + unat n \<le> 2 ^ 32"
    and i: "i < length (file_table s)"
  obtains m d where "fw_cfg_read_file env (of_nat i) p n s = Ret () (s\<lparr>mem := m, dev := d\<rparr>)"
    and "load_bytes m p (unat n) = entry_bytes E (file_select (file_table s ! i)) 0 (unat n)"
    and "\<And>a. unat (dma_desc env) + 16 \<le> unat a \<Longrightarrow> \<not> inside a p (unat n) \<Longrightarrow> m a = mem s a"
    and "file_table (s\<lparr>mem := m, dev := d\<rparr>) = file_table s"
    and "\<And>a. \<not> inside a (dma_desc env) 16 \<Longrightarrow> \<not> inside a p (unat n) \<Longrightarrow> m a = mem s a"
proof -
  let ?D = "dma_desc env" and ?bs = "entry_bytes E (file_select (file_table s ! i)) 0 (unat n)"
  have n: "unat n \<le> 2 ^ 32" using unat_bound [of n] by simp
  have dma: "apart p (unat n) ?D 16" using low above by (subst apart_commute) (intro apart_interval; simp)
  obtain s' where s': "fw_cfg_read_file env (of_nat i) p n s = Ret () s'" "delivered env p ?bs s s'"
    using fw_cfg_read_file_delivers [OF i dma] by blast
  obtain m d where m: "s' = s\<lparr>mem := m, dev := d\<rparr>"
    "\<And>a. \<not> inside a ?D 16 \<Longrightarrow> m a = store_bytes (mem s) p ?bs a"
    using deliveredE [OF s'(2)] by metis
  have bytes: "load_bytes m p (unat n) = ?bs"
  proof -
    have "load_bytes m p (unat n) = load_bytes (store_bytes (mem s) p ?bs) p (unat n)"
      using dma by (intro load_bytes_cong m(2)) (simp add: apart_not_inside apart_commute)
    also have "\<dots> = ?bs" using n by (intro load_store_same) simp_all
    finally show ?thesis .
  qed
  have out: "m a = mem s a" if "\<not> inside a ?D 16" "\<not> inside a p (unat n)" for a
    using m(2) that n by (simp add: store_bytes_outside [where n = "unat n"])
  have kept: "m a = mem s a" if "unat ?D + 16 \<le> unat a" "\<not> inside a p (unat n)" for a
    using that by (intro out) (simp_all add: inside_def unat_sub_if')
  let ?t = "64 * length (file_table s)"
  have t: "64 * nat (sint (filecnt s)) = ?t" by (simp add: file_table_def)
  have away: "apart (files s) ?t p (unat n)" using above by (intro apart_interval) simp_all
  have table: "file_table (s\<lparr>mem := m, dev := d\<rparr>) = file_table s"
  proof (rule file_table_cong)
    fix a assume a: "inside a (files s) (64 * nat (sint (filecnt s)))"
    have "\<not> inside a p (unat n)" using away a unfolding t by (metis apart_not_inside insideE)
    moreover have "unat (files s) \<le> unat a"
      using a above(1) unat_bound [of p] unat_bound [of a] unfolding t
      by (simp add: inside_def unat_sub_if' split: if_splits)
    ultimately show "mem (s\<lparr>mem := m, dev := d\<rparr>) a = mem s a" using low kept by simp
  qed (use above(1) unat_bound [of p] t in simp_all)
  from s'(1) m(1) bytes kept table out show ?thesis by (intro that [of d m]) simp_all
qed

end

end
