(* ===== verification/Reference.thy ===== *)
theory Reference
  imports Fwdir
begin

text \<open>
  A reference platform: a fw_cfg device with ports and DMA, PCI configuration mechanism 1 over a plain
  configuration space, whose register 0x59 maps the F-segment to RAM or ROM as that of the i440FX does, and a record of the other port writes. It is executable. It satisfies the
  hypotheses the development makes about devices, and is where the properties are evaluated.
\<close>

record platform =
  entry :: u16                     \<comment> \<open>fw_cfg: the entry selected, and the position in it\<close>
  position :: nat
  pending :: bool                  \<comment> \<open>fw_cfg: a DMA command has been given and not yet run\<close>
  cfg_addr :: u32                  \<comment> \<open>PCI: CONFIG_ADDRESS\<close>
  cfg_space :: "u32 \<Rightarrow> u8"
  port_log :: "(u16 \<times> u32) list"

section \<open>The fw_cfg device\<close>

definition dma_run :: "(u16 \<Rightarrow> nat \<Rightarrow> u8) \<Rightarrow> addr \<Rightarrow> mem \<times> platform \<Rightarrow> mem \<times> platform" where
  "dma_run E p md =
     (let (m, d) = md;
          control = (be_word (load_bytes m p 4) :: u32);
          n = unat (be_word (load_bytes m (p + 4) 4) :: u32);
          buf = ucast (be_word (load_bytes m (p + 8) 8) :: u64);
          d = (if bit control 3 then d\<lparr>entry := ucast (drop_bit 16 control), position := 0\<rparr> else d);
          m = (if bit control 1 then store_bytes m buf (entry_bytes E (entry d) (position d) n) else m);
          d = (if bit control 1 \<or> bit control 2 then d\<lparr>position := position d + n\<rparr> else d)
      in (store_bytes m p [0, 0, 0, 0], d))"

definition dma_step :: "(u16 \<Rightarrow> nat \<Rightarrow> u8) \<Rightarrow> addr \<Rightarrow> mem \<times> platform \<Rightarrow> mem \<times> platform" where
  "dma_step E p md =
     (if pending (snd md) then (let (m, d) = dma_run E p md in (m, d\<lparr>pending := False\<rparr>)) else md)"

section \<open>PCI configuration space\<close>

text \<open>The register CONFIG_ADDRESS selects; four data ports access it when the enable bit is set.\<close>

definition cfg_reg :: "platform \<Rightarrow> u16 \<Rightarrow> u32" where
  "cfg_reg d port = (cfg_addr d AND 0xfffffc) + ucast (port - 0xcfc)"

definition cfg_store :: "platform \<Rightarrow> u16 \<Rightarrow> u8 list \<Rightarrow> platform" where
  "cfg_store d port bs = d\<lparr>cfg_space := store_bytes (cfg_space d) (cfg_reg d port) bs\<rparr>"

definition data_port :: "u16 \<Rightarrow> bool" where
  "data_port port \<longleftrightarrow> port = 0xcfc \<or> port = 0xcfd \<or> port = 0xcfe \<or> port = 0xcff"

definition config_port :: "platform \<Rightarrow> u16 \<Rightarrow> bool" where
  "config_port d port \<longleftrightarrow> data_port port \<and> bit (cfg_addr d) 31"

definition log_write :: "u16 \<Rightarrow> u32 \<Rightarrow> platform \<Rightarrow> platform" where
  "log_write port v d = d\<lparr>port_log := port_log d @ [(port, v)]\<rparr>"

section \<open>The platform\<close>

definition ref_env :: "(u16 \<Rightarrow> nat \<Rightarrow> u8) \<Rightarrow> platform env" where
  "ref_env E =
    \<lparr>io_inb = (\<lambda>port d.
       if port = FW_CFG_DATA then (E (entry d) (position d), d\<lparr>position := Suc (position d)\<rparr>)
       else if config_port d port then (cfg_space d (cfg_reg d port), d) else (0xff, d)),
     io_inw = (\<lambda>port d.
       if config_port d port then (le_word (load_bytes (cfg_space d) (cfg_reg d port) 2), d) else (0xffff, d)),
     io_inl = (\<lambda>port d.
       if config_port d port then (le_word (load_bytes (cfg_space d) (cfg_reg d port) 4), d) else (0xffffffff, d)),
     io_outb = (\<lambda>port v (m, d).
       if config_port d port then (m, cfg_store d port [v]) else (m, log_write port (ucast v) d)),
     io_outw = (\<lambda>port v (m, d).
       if port = FW_CFG_CTL then (m, d\<lparr>entry := v, position := 0\<rparr>)
       else if config_port d port then (m, cfg_store d port (le_bytes 2 v)) else (m, log_write port (ucast v) d)),
     io_outl = (\<lambda>port v (m, d).
       if port = FW_CFG_DMA_ADDR_LOW then (m, d\<lparr>pending := True\<rparr>)
       else if port = 0xcf8 then (m, d\<lparr>cfg_addr := v\<rparr>)
       else if config_port d port then (m, cfg_store d port (le_bytes 4 v)) else (m, log_write port v d)),
     io_poll = dma_step E 0x7000,
     io_cpuid = (0x663, 0x78bfbfd),
     io_read = (\<lambda>d m a. if 0xf0000 \<le> a \<and> a < 0x100000 \<and> \<not> bit (cfg_space d 0x59) 4 then m (a + 0xfff00000) else m a),
     io_writable = (\<lambda>d a. if 0xf0000 \<le> a \<and> a < 0x100000 then bit (cfg_space d 0x59) 5 else a < 0xfff00000),
     stext = 0xf0000, edata = 0xf8000, sinit = 0xfff80, einit = 0x100000,
     bios_intfake = 0xf1010, bios_irq = 0xf1020, bios_int10 = 0xf1030, bios_int15 = 0xf1040,
     bios32_entry = 0xf1050, start_info = 0xf7000, dma_desc = 0x7000,
     ramdisk_mod = 0x7020, loader_script = 0x7800, rom_check = 0xf7100\<rparr>"

lemma ref_env_simps [simp]:
  "io_poll (ref_env E) = dma_step E 0x7000" "io_cpuid (ref_env E) = (0x663, 0x78bfbfd)"
  "stext (ref_env E) = 0xf0000" "edata (ref_env E) = 0xf8000" "sinit (ref_env E) = 0xfff80"
  "einit (ref_env E) = 0x100000" "bios_intfake (ref_env E) = 0xf1010" "bios_irq (ref_env E) = 0xf1020"
  "bios_int10 (ref_env E) = 0xf1030" "bios_int15 (ref_env E) = 0xf1040"
  "bios32_entry (ref_env E) = 0xf1050" "start_info (ref_env E) = 0xf7000"
  "dma_desc (ref_env E) = 0x7000" "ramdisk_mod (ref_env E) = 0x7020" "loader_script (ref_env E) = 0x7800"
  "rom_check (ref_env E) = 0xf7100"
  by (simp_all add: ref_env_def)

text \<open>
  The device keeps its promises. A command runs at the first poll after it was given, so that the
  firmware does have to wait.
\<close>

lemma ref_pio_device: "pio_device (ref_env E) entry position E"
  by (simp add: pio_device_def ref_env_def)

lemma ref_dma_device: "dma_device (ref_env E) entry position E"
  unfolding dma_device_def ref_env_simps
proof (intro allI impI)
  fix m and d :: platform and control len :: u32 and buf :: addr
  let ?cmd = "be_bytes 4 control @ be_bytes 4 len @ be_bytes 8 (ucast buf :: u64)"
  let ?e = "if bit control 3 then ucast (drop_bit 16 control) else entry d"
  let ?pos = "if bit control 3 then 0 else position d"
  assume cmd: "load_bytes m 0x7000 16 = ?cmd" and control: "bit control 1" "\<not> bit control 2" "\<not> bit control 4"
  have "load_bytes m 0x7000 (4 + (4 + 8)) = ?cmd" using cmd by simp
  then have parts: "load_bytes m 0x7000 4 = be_bytes 4 control" "load_bytes m 0x7004 4 = be_bytes 4 len"
    "load_bytes m 0x7008 8 = be_bytes 8 (ucast buf :: u64)"
    unfolding load_bytes_append by simp_all
  have busy: "ldl_be_p m 0x7000 AND NOT 1 \<noteq> 0"
  proof
    assume "ldl_be_p m 0x7000 AND NOT 1 = 0"
    then have "bit (control AND NOT 1) 1 = bit (0 :: u32) 1" by (simp add: ldl_be_p_def parts)
    with control(1) show False by (simp add: bit_simps)
  qed
  let ?md = "(m, d\<lparr>pending := True\<rparr>)"
  have buf: "ucast (ucast buf :: u64) = buf" by (simp add: ucast_ucast_up)
  have run: "dma_step E 0x7000 ?md =
      (store_bytes (store_bytes m buf (entry_bytes E ?e ?pos (unat len))) 0x7000 [0, 0, 0, 0],
       d\<lparr>entry := ?e, position := ?pos + unat len, pending := False\<rparr>)"
    using control by (simp add: dma_step_def dma_run_def parts buf Let_def del: store_bytes.simps)
  have "io_outl (ref_env E) 0x518 (bswap32 0x7000) (m, d) = ?md" by (simp add: ref_env_def)
  with busy run show "let e = ?e; pos = ?pos; md = io_outl (ref_env E) 0x518 (bswap32 0x7000) (m, d)
      in \<exists>k. (\<forall>j < k. ldl_be_p (fst ((dma_step E 0x7000 ^^ j) md)) 0x7000 AND NOT 1 \<noteq> 0) \<and>
        fst ((dma_step E 0x7000 ^^ k) md)
          = store_bytes (store_bytes m buf (entry_bytes E e pos (unat len))) 0x7000 [0, 0, 0, 0] \<and>
        entry (snd ((dma_step E 0x7000 ^^ k) md)) = e \<and>
        position (snd ((dma_step E 0x7000 ^^ k) md)) = pos + unat len"
    unfolding Let_def by (intro exI [of _ 1]) (simp del: store_bytes.simps)
qed

lemma ref_device: "fw_cfg_device (ref_env E) entry position E"
  by (simp add: fw_cfg_device_def ref_pio_device ref_dma_device)

interpretation refdev: fw_cfg_port "ref_env E" entry position E for E
  by unfold_locales (rule ref_device)

text \<open>A machine at reset, with the static variables the C files initialise.\<close>

definition boot_machine :: "mem \<Rightarrow> platform machine" where
  "boot_machine m = \<lparr>mem = m,
     dev = \<lparr>entry = 0, position = 0, pending = False, cfg_addr = 0, cfg_space = (\<lambda>_. 0xff), port_log = []\<rparr>,
     fseg_base = 0xf8000, malloc_top = 0xf0000, version = 0, filecnt = 0, files = 0,
     file_address = replicate 20 0, lowmem = 0, e820 = 0, have_mmconfig = False, e820_seg = 0,
     addend = 0, bus = 0, bridge_head = 0, use_i440fx_routing = False, bridge_count = 0, max_bus = 0\<rparr>"

section \<open>A platform with given files\<close>

text \<open>
  A device that offers the files \<open>fs\<close> (name and content), file \<open>k\<close> under the selector 0x20 + k, and
  nothing else but the directory and the identification.
\<close>

definition chars :: "string \<Rightarrow> u8 list" where
  "chars cs = map (\<lambda>c. of_nat (of_char c)) cs"

definition make_file :: "nat \<Rightarrow> string \<times> u8 list \<Rightarrow> fw_cfg_file" where
  "make_file k f = \<lparr>file_size = of_nat (length (snd f)), file_select = 0x20 + of_nat k, file_unused = 0,
     file_name = chars (fst f) @ replicate (56 - length (fst f)) 0\<rparr>"

definition make_dir :: "(string \<times> u8 list) list \<Rightarrow> fw_cfg_file list" where
  "make_dir fs = map (\<lambda>k. make_file k (fs ! k)) [0..<length fs]"

definition byte_of :: "u8 list \<Rightarrow> nat \<Rightarrow> u8" where
  "byte_of bs i = (if i < length bs then bs ! i else 0)"

definition contents :: "(string \<times> u8 list) list \<Rightarrow> u16 \<Rightarrow> nat \<Rightarrow> u8" where
  "contents fs e =
     (if 0x20 \<le> e \<and> unat e < 0x20 + length fs then byte_of (snd (fs ! (unat e - 0x20)))
      else if e = FW_CFG_ID then byte_of [3, 0, 0, 0]
      else if e = FW_CFG_FILE_DIR
        then byte_of (be_bytes 4 (of_nat (length fs) :: u32) @ concat (map device_file (make_dir fs)))
      else (\<lambda>_. 0))"

definition good_files :: "(string \<times> u8 list) list \<Rightarrow> bool" where
  "good_files fs \<longleftrightarrow> length fs < 100 \<and> (\<forall>f \<in> set fs. length (fst f) \<le> 55 \<and> length (snd f) < 2 ^ 31 \<and>
     (\<forall>c \<in> set (chars (fst f)). c \<noteq> 0))"

text \<open>The machine after \<open>fw_cfg_setup\<close> has read the directory.\<close>

definition loaded_machine :: "(string \<times> u8 list) list \<Rightarrow> platform machine" where
  "loaded_machine fs = (boot_machine (store_bytes (\<lambda>_. 0) 0xf8000 (concat (map enc_file (make_dir fs)))))
     \<lparr>files := 0xf8000, filecnt := of_nat (length fs), version := 3,
      fseg_base := 0xf8000 + 64 * of_nat (length fs)\<rparr>"

lemma entry_bytes_byte_of: "n = length bs \<Longrightarrow> E e = byte_of bs \<Longrightarrow> entry_bytes E e 0 n = bs"
  by (intro nth_equalityI) (simp_all add: entry_bytes_def byte_of_def)

lemma length_make_dir [simp]: "length (make_dir fs) = length fs"
  by (simp add: make_dir_def)

lemma make_dir_valid: "good_files fs \<Longrightarrow> \<forall>f \<in> set (make_dir fs). valid_file f"
  by (auto simp: make_dir_def make_file_def valid_file_def good_files_def chars_def all_set_conv_all_nth)

lemma contents_advertises: "good_files fs \<Longrightarrow> advertises (contents fs) (make_dir fs)"
proof -
  assume good: "good_files fs"
  have "length (concat (map device_file (make_dir fs))) = 64 * length fs"
  proof -
    have "length (concat (map device_file dir)) = 64 * length dir" if "\<forall>f \<in> set dir. valid_file f" for dir
      using that by (induction dir) (simp_all add: device_file_def valid_file_def)
    with make_dir_valid [OF good] show ?thesis by simp
  qed
  moreover have "contents fs FW_CFG_FILE_DIR
      = byte_of (be_bytes 4 (of_nat (length fs) :: u32) @ concat (map device_file (make_dir fs)))"
    by (simp add: contents_def word_le_nat_alt)
  ultimately show ?thesis
    using make_dir_valid [OF good] unfolding advertises_def length_make_dir
    by (intro conjI entry_bytes_byte_of) simp_all
qed

lemma loaded_file_table:
  assumes "good_files fs"
  shows "file_table (loaded_machine fs) = make_dir fs"
proof -
  have "length fs < 100" using assms by (simp add: good_files_def)
  then have "nat (sint (of_nat (length fs) :: u32)) = length (make_dir fs)"
    by (subst sint_small) (simp_all add: unat_of_nat_u32)
  then have "file_table (loaded_machine fs) = load_array 64 dec_file
      (store_bytes (\<lambda>_. 0) 0xf8000 (concat (map enc_file (make_dir fs)))) 0xf8000 (length (make_dir fs))"
    unfolding file_table_def by (simp add: loaded_machine_def boot_machine_def)
  also have "\<dots> = make_dir fs"
    using make_dir_valid [OF assms] \<open>length fs < 100\<close> by (intro dirent.load_array_stored) simp_all
  finally show ?thesis .
qed

lemma chars_inject: "chars a = chars b \<longleftrightarrow> a = b"
proof -
  have u: "unat (of_nat (of_char c) :: u8) = of_char c" for c
    by (simp add: unat_of_nat take_bit_eq_mod)
  have "inj (\<lambda>c. of_nat (of_char c) :: u8)"
  proof (rule injI)
    fix c d assume "(of_nat (of_char c) :: u8) = of_nat (of_char d)"
    then have "(of_char c :: nat) = of_char d" using u by metis
    then show "c = d" by simp
  qed
  then show ?thesis by (simp add: chars_def)
qed

lemma file_named_make:
  assumes "length (fst f) \<le> 55" "0 \<notin> set (chars (fst f))" "0 \<notin> set (chars cs)"
  shows "file_named (chars cs) (make_file j f) \<longleftrightarrow> fst f = cs"
proof
  let ?a = "chars (fst f)" and ?name = "file_name (make_file j f)"
  have name: "?name = ?a @ replicate (56 - length (fst f)) 0" by (simp add: make_file_def)
  {
    assume "file_named (chars cs) (make_file j f)"
    then have eq: "take (Suc (length (chars cs))) ?name = chars cs @ [0]" by (simp add: file_named_def)
    have at: "?name ! i = (chars cs @ [0]) ! i" if "i \<le> length (chars cs)" for i
      using arg_cong [OF eq, of "\<lambda>xs. xs ! i"] that by simp
    have "length (chars cs) = length ?a"
    proof (rule linorder_cases [of "length (chars cs)" "length ?a"])
      assume "length (chars cs) < length ?a"
      with at [of "length (chars cs)"] have "?a ! length (chars cs) = 0" by (simp add: name nth_append)
      with assms(2) \<open>length (chars cs) < length ?a\<close> show ?thesis by (metis nth_mem)
    next
      assume "length ?a < length (chars cs)"
      with at [of "length ?a"] have "chars cs ! length ?a = 0"
        using assms(1) by (simp add: name nth_append chars_def split: if_splits)
      with assms(3) \<open>length ?a < length (chars cs)\<close> show ?thesis by (metis nth_mem)
    qed
    moreover have "take (length (chars cs)) (take (Suc (length (chars cs))) ?name) = chars cs"
      unfolding eq by simp
    ultimately have "take (length ?a) ?name = chars cs" by simp
    then have "?a = chars cs" by (simp add: name)
    then show "fst f = cs" by (simp add: chars_inject)
  }
  assume "fst f = cs"
  with assms(1) show "file_named (chars cs) (make_file j f)"
    by (auto simp: file_named_def name chars_def take_Suc_conv_app_nth nth_append)
qed

text \<open>Looking up the only file of a name.\<close>

lemma loaded_file_index:
  assumes good: "good_files fs" and k: "k < length fs" "fst (fs ! k) = cs"
    and first: "\<forall>j < k. fst (fs ! j) \<noteq> cs"
  shows "index_of (file_named (chars cs)) (file_table (loaded_machine fs)) = Some k"
proof -
  have "file_named (chars cs) (make_dir fs ! j) \<longleftrightarrow> fst (fs ! j) = cs" if "j < length fs" for j
  proof -
    have "fs ! j \<in> set fs" "fs ! k \<in> set fs" using that k(1) by simp_all
    with good k(2) have "length (fst (fs ! j)) \<le> 55" "0 \<notin> set (chars (fst (fs ! j)))" "0 \<notin> set (chars cs)"
      by (auto simp: good_files_def)
    then show ?thesis using that by (simp add: make_dir_def file_named_make)
  qed
  then show ?thesis
    using k first by (simp add: loaded_file_table [OF good] index_of_Some_iff)
qed

lemma loaded_file_id:
  assumes "good_files fs" and "k < length fs" "fst (fs ! k) = cs" and "\<forall>j < k. fst (fs ! j) \<noteq> cs"
  shows "fw_cfg_file_id (literal cs) (loaded_machine fs) = of_nat k"
proof -
  have "is_string (literal cs) (chars cs)"
    using assms(1-3) unfolding chars_def by (intro is_string_literal) (auto simp: good_files_def chars_def)
  then show ?thesis by (simp add: fw_cfg_file_id_index loaded_file_index [OF assms])
qed

lemma make_dir_entry:
  assumes "good_files fs" "k < length fs"
  shows "file_size (make_dir fs ! k) = of_nat (length (snd (fs ! k)))"
    and "entry_bytes (contents fs) (file_select (make_dir fs ! k)) 0 (length (snd (fs ! k))) = snd (fs ! k)"
proof -
  show "file_size (make_dir fs ! k) = of_nat (length (snd (fs ! k)))"
    using assms(2) by (simp add: make_dir_def make_file_def)
  have "unat (0x20 + of_nat k :: u16) = 0x20 + k"
    using assms by (simp add: good_files_def unat_word_ariths unat_of_nat)
  then have "contents fs (file_select (make_dir fs ! k)) = byte_of (snd (fs ! k))"
    using assms(2) by (simp add: contents_def make_dir_def make_file_def word_le_nat_alt)
  then show "entry_bytes (contents fs) (file_select (make_dir fs ! k)) 0 (length (snd (fs ! k))) = snd (fs ! k)"
    by (intro entry_bytes_byte_of) simp_all
qed

end
