(* ===== verification/Acpi.thy ===== *)
theory Acpi
  imports Reference
begin

text \<open>
  The ACPI linker/loader of tables.c: a script of 128-byte commands, offered by the device, that loads
  files into memory, adds the address of one file to a pointer in another, and fills in checksums.
\<close>

section \<open>Commands\<close>

abbreviation (input) CMD_QUIT where "CMD_QUIT \<equiv> 0"
abbreviation (input) CMD_ALLOC where "CMD_ALLOC \<equiv> 1"
abbreviation (input) CMD_PTR where "CMD_PTR \<equiv> 2"
abbreviation (input) CMD_CHECKSUM where "CMD_CHECKSUM \<equiv> 3"
abbreviation (input) ALLOC_HIGH where "ALLOC_HIGH \<equiv> 1"
abbreviation (input) ALLOC_FSEG where "ALLOC_FSEG \<equiv> 2"

text \<open>\<open>file_address\<close> has 20 elements; an id outside 0 .. 19, -1 in particular, is out of its bounds.\<close>

definition id_to_addr :: "u32 \<Rightarrow> ('d, addr) fw" where
  "id_to_addr fw_cfg_id s =
     (if unat fw_cfg_id < 20 then Ret (file_address s ! unat fw_cfg_id) s else Fault Array_bounds)"

definition set_file_addr :: "u32 \<Rightarrow> addr \<Rightarrow> ('d, unit) fw" where
  "set_file_addr fw_cfg_id p s =
     (if unat fw_cfg_id < 20 then Ret () (s\<lparr>file_address := (file_address s)[unat fw_cfg_id := p]\<rparr>)
      else Fault Array_bounds)"

text \<open>\<open>memcmp\<close> against a constant of the program returns 0 when the bytes are those of the constant.\<close>

definition do_alloc :: "'d env \<Rightarrow> (nat \<Rightarrow> u8) \<Rightarrow> u32 \<Rightarrow> u8 \<Rightarrow> ('d, unit) fw" where
  "do_alloc env name align zone =
     bind get_state (\<lambda>s. let fid = fw_cfg_file_id name s; n = fw_cfg_file_size fid s in
     if fid = -1 then panic
     else let align = (if align < 16 then 16 else align) in
     bind (if zone = ALLOC_FSEG then malloc_fseg_align n align else malloc_align n align) (\<lambda>p.
     andthen (set_file_addr fid p)
     (andthen (fw_cfg_read_file env fid p n)
     (when_do (zone = ALLOC_FSEG)
       (bind get_state (\<lambda>s. when_do (load_bytes (mem s) p 8 = chars ''RSD PTR '')
         (bind (id_to_addr fid) (\<lambda>p. on_mem (stq_p (start_info env + 32) (ucast p))))))))))"

text \<open>The union of \<open>do_ptr\<close> has 8 bytes, so a pointer cannot be longer than that.\<close>

definition do_ptr :: "(nat \<Rightarrow> u8) \<Rightarrow> (nat \<Rightarrow> u8) \<Rightarrow> u32 \<Rightarrow> u8 \<Rightarrow> ('d, unit) fw" where
  "do_ptr dest src offset width =
     bind get_state (\<lambda>s.
     bind (id_to_addr (fw_cfg_file_id src s)) (\<lambda>p.
     if p = 0 then panic
     else bind (id_to_addr (fw_cfg_file_id dest s)) (\<lambda>q.
     if q = 0 then panic
     else let q = q + offset in
     if 8 < unat width then (\<lambda>_. Fault Array_bounds)
     else on_mem (\<lambda>m. let data = le_word (load_bytes m q (unat width)) :: u64; data = data + ucast p
                      in store_bytes m q (take (unat width) (le_bytes 8 data))))))"

definition do_checksum :: "(nat \<Rightarrow> u8) \<Rightarrow> u32 \<Rightarrow> u32 \<Rightarrow> u32 \<Rightarrow> ('d, unit) fw" where
  "do_checksum name offset start len =
     bind get_state (\<lambda>s. let fid = fw_cfg_file_id name s in
     bind (id_to_addr fid) (\<lambda>p.
     if p = 0 then panic
     else let n = fw_cfg_file_size fid s in
     if offset \<ge> n \<or> n < start \<or> len > n - start then panic
     else on_mem (\<lambda>m. m(p + offset := m (p + offset) - csum8 m (p + start) len))))"

section \<open>The script\<close>

text \<open>Command \<open>i\<close> of the script, \<open>k\<close> commands left. A file name is used where it is, in the script.\<close>

primrec loader_loop :: "'d env \<Rightarrow> nat \<Rightarrow> nat \<Rightarrow> ('d, unit) fw" where
  "loader_loop env i 0 = ret ()"
| "loader_loop env i (Suc k) =
     bind get_state (\<lambda>s. let c = loader_script env + 128 * of_nat i; m = mem s; cmd = ldl_p m c in
     if cmd = CMD_ALLOC then
       andthen (do_alloc env (string_at m (c + 4)) (ldl_p m (c + 60)) (m (c + 64))) (loader_loop env (Suc i) k)
     else if cmd = CMD_PTR then
       andthen (do_ptr (string_at m (c + 4)) (string_at m (c + 60)) (ldl_p m (c + 116)) (m (c + 120)))
         (loader_loop env (Suc i) k)
     else if cmd = CMD_CHECKSUM then
       andthen (do_checksum (string_at m (c + 4)) (ldl_p m (c + 60)) (ldl_p m (c + 64)) (ldl_p m (c + 68)))
         (loader_loop env (Suc i) k)
     else if cmd = CMD_QUIT then ret ()
     else panic)"

definition extract_acpi :: "'d env \<Rightarrow> ('d, unit) fw" where
  "extract_acpi env =
     bind get_state (\<lambda>s. let fid = fw_cfg_file_id (literal ''etc/table-loader'') s;
                             n = fw_cfg_file_size fid s in
     if n = 0 then ret ()
     else andthen (fw_cfg_read_file env fid (loader_script env) n)
          (loader_loop env 0 (unat (n div 128))))"

section \<open>Loaded files\<close>

text \<open>
  File \<open>i\<close> of the directory is loaded when \<open>file_address\<close> has its address. The invariant of the loader: the
  files loaded so far, the directory and \<open>start_info\<close> lie between the two heaps and do not meet.
\<close>

definition file_len :: "'d machine \<Rightarrow> nat \<Rightarrow> nat" where
  "file_len s i = unat (file_size (file_table s ! i))"

definition loaded :: "'d machine \<Rightarrow> nat \<Rightarrow> bool" where
  "loaded s i \<longleftrightarrow> i < 20 \<and> i < length (file_table s) \<and> file_address s ! i \<noteq> 0"

definition blob :: "'d machine \<Rightarrow> nat \<Rightarrow> u8 list" where
  "blob s i = load_bytes (mem s) (file_address s ! i) (file_len s i)"

definition between :: "'d machine \<Rightarrow> addr \<Rightarrow> nat \<Rightarrow> bool" where
  "between s p n \<longleftrightarrow> unat (malloc_top s) \<le> unat p \<and> unat p + n \<le> unat (fseg_base s)"

definition blobs_ok :: "'d env \<Rightarrow> 'd machine \<Rightarrow> bool" where
  "blobs_ok env s \<longleftrightarrow> length (file_address s) = 20 \<and>
     unat (dma_desc env) + 16 \<le> unat (malloc_top s) \<and>
     between s (files s) (64 * length (file_table s)) \<and> between s (start_info env) 56 \<and>
     apart (start_info env) 56 (files s) (64 * length (file_table s)) \<and>
     (\<forall>i. loaded s i \<longrightarrow> between s (file_address s ! i) (file_len s i) \<and>
        apart (file_address s ! i) (file_len s i) (files s) (64 * length (file_table s)) \<and>
        apart (file_address s ! i) (file_len s i) (start_info env) 56 \<and>
        (\<forall>j. loaded s j \<longrightarrow> j \<noteq> i \<longrightarrow>
           apart (file_address s ! i) (file_len s i) (file_address s ! j) (file_len s j)))"

lemma between_bound: "between s p n \<Longrightarrow> unat p + n < 2 ^ 32"
  using unat_bound [of "fseg_base s"] by (simp add: between_def)

lemma table_unchanged:
  assumes "files s' = files s" "filecnt s' = filecnt s" "64 * length (file_table s) \<le> 2 ^ 32"
    and "\<And>a. inside a (files s) (64 * length (file_table s)) \<Longrightarrow> mem s' a = mem s a"
  shows "file_table s' = file_table s"
  using assms by (intro file_table_cong) (simp_all add: file_table_def)

text \<open>Only memory has changed, and the directory is where it was: the invariant still holds.\<close>

lemma blobs_ok_mem:
  assumes "blobs_ok env s" "s' = s\<lparr>mem := m, dev := d\<rparr>" "file_table s' = file_table s"
  shows "blobs_ok env s'"
proof -
  have same: "file_address s' = file_address s" "malloc_top s' = malloc_top s" "fseg_base s' = fseg_base s"
    "files s' = files s" by (simp_all add: assms(2))
  then have "file_len s' = file_len s" "loaded s' = loaded s" "between s' = between s"
    by (auto simp: file_len_def loaded_def between_def assms(3) fun_eq_iff)
  with same assms(1,3) show ?thesis by (simp add: blobs_ok_def)
qed

text \<open>Writing inside one file changes that file and no other.\<close>

lemma blob_write:
  assumes ok: "blobs_ok env s" and d: "loaded s d" "i + length cs \<le> file_len s d"
    and s': "s' = s\<lparr>mem := store_bytes (mem s) (file_address s ! d + of_nat i) cs\<rparr>"
  shows "blob s' d = splice i cs (blob s d)"
    and "\<And>j. loaded s j \<Longrightarrow> j \<noteq> d \<Longrightarrow> blob s' j = blob s j"
    and "file_table s' = file_table s" and "blobs_ok env s'"
    and "\<And>a. unat a < unat (malloc_top s) \<Longrightarrow> mem s' a = mem s a"
proof -
  let ?p = "file_address s ! d" and ?n = "file_len s d" and ?t = "64 * length (file_table s)"
  have reg: "between s ?p ?n" "apart ?p ?n (files s) ?t"
    "\<And>j. loaded s j \<Longrightarrow> j \<noteq> d \<Longrightarrow> apart ?p ?n (file_address s ! j) (file_len s j)"
    using ok d(1) by (auto simp: blobs_ok_def)
  have "between s (files s) ?t" using ok by (simp add: blobs_ok_def)
  then have t: "?t \<le> 2 ^ 32" using between_bound by fastforce
  show table: "file_table s' = file_table s"
  proof (rule table_unchanged)
    fix a assume "inside a (files s) ?t"
    moreover have "apart (?p + of_nat i) (length cs) (files s) ?t" using reg(2) d(2) by (rule apart_sub)
    ultimately show "mem s' a = mem s a" by (simp add: s' store_bytes_apart)
  qed (use t in \<open>simp_all add: s'\<close>)
  then have len: "file_len s' = file_len s" by (simp add: file_len_def fun_eq_iff)
  have same: "file_address s' = file_address s" "mem s' = store_bytes (mem s) (?p + of_nat i) cs"
    by (simp_all add: s')
  show "blob s' d = splice i cs (blob s d)"
    using d(2) between_bound [OF reg(1)] unfolding blob_def len same by (intro load_store_within) simp_all
  show "blob s' j = blob s j" if "loaded s j" "j \<noteq> d" for j
    using apart_sub [OF reg(3) [OF that] d(2)] unfolding blob_def len same by (intro load_store_apart)
  show "blobs_ok env s'" using table by (intro blobs_ok_mem [OF ok, where d = "dev s"]) (simp_all add: s')
  show "mem s' a = mem s a" if a: "unat a < unat (malloc_top s)" for a
  proof -
    have "\<not> inside a ?p ?n" using a reg(1) inside_interval [of ?p ?n a] between_bound [OF reg(1)] by (simp add: between_def)
    then have "\<not> inside a (?p + of_nat i) (length cs)"
      using inside_sub [of a ?p i "length cs" ?n] d(2) between_bound [OF reg(1)] by auto
    then show ?thesis using d(2) between_bound [OF reg(1)] by (simp add: same store_bytes_outside)
  qed
qed

section \<open>The commands\<close>

text \<open>The little-endian number at \<open>i\<close>, of \<open>w\<close> bytes, has \<open>p\<close> added to it.\<close>

definition patch_pointer :: "nat \<Rightarrow> nat \<Rightarrow> addr \<Rightarrow> u8 list \<Rightarrow> u8 list" where
  "patch_pointer i w p bs =
     splice i (take w (le_bytes 8 (le_word (take w (drop i bs)) + ucast p :: u64))) bs"

definition patch_checksum :: "nat \<Rightarrow> nat \<Rightarrow> nat \<Rightarrow> u8 list \<Rightarrow> u8 list" where
  "patch_checksum i start n bs = bs[i := bs ! i - sum_list (take n (drop start bs))]"

definition found :: "'d machine \<Rightarrow> (nat \<Rightarrow> u8) \<Rightarrow> nat \<Rightarrow> bool" where
  "found s name i \<longleftrightarrow> fw_cfg_file_id name s = of_nat i \<and> loaded s i"

lemma id_to_addr_loaded:
  assumes "loaded s i"
  shows "id_to_addr (of_nat i) s = Ret (file_address s ! i) s"
proof -
  have "unat (of_nat i :: u32) = i" using assms by (intro unat_of_nat_u32) (simp add: loaded_def)
  with assms show ?thesis by (simp add: id_to_addr_def loaded_def)
qed

lemma splice_update: "i < length bs \<Longrightarrow> splice i [b] bs = bs[i := b]"
  by (simp add: splice_def upd_conv_take_nth_drop)

lemma do_ptr_patches:
  assumes ok: "blobs_ok env s" and files: "found s src e" "found s dest d"
    and w: "unat offset + unat width \<le> file_len s d" "unat width \<le> 8"
  shows "\<exists>s'. do_ptr dest src offset width s = Ret () s' \<and>
    blob s' d = patch_pointer (unat offset) (unat width) (file_address s ! e) (blob s d) \<and>
    (\<forall>j. loaded s j \<longrightarrow> j \<noteq> d \<longrightarrow> blob s' j = blob s j) \<and> blobs_ok env s' \<and> s' = s\<lparr>mem := mem s'\<rparr> \<and>
    file_table s' = file_table s \<and> (\<forall>a. unat a < unat (malloc_top s) \<longrightarrow> mem s' a = mem s a)"
proof -
  let ?q = "file_address s ! d" and ?p = "file_address s ! e" and ?i = "unat offset" and ?w = "unat width"
  let ?cs = "take ?w (le_bytes 8 (le_word (take ?w (drop ?i (blob s d))) + ucast ?p :: u64))"
  let ?s = "s\<lparr>mem := store_bytes (mem s) (?q + of_nat ?i) ?cs\<rparr>"
  have d: "loaded s d" "loaded s e" "?p \<noteq> 0" "?q \<noteq> 0" using files by (simp_all add: found_def loaded_def)
  have cs: "length ?cs = ?w" using w(2) by simp
  have "load_bytes (mem s) (?q + of_nat ?i) ?w = take ?w (drop ?i (blob s d))"
    unfolding blob_def using w(1) by (rule load_bytes_sub)
  then have run: "do_ptr dest src offset width s = Ret () ?s"
    using files w(2) d by (simp add: do_ptr_def prog_simps found_def id_to_addr_loaded Let_def)
  note wr = blob_write [OF ok d(1), of ?i ?cs ?s, unfolded cs, OF w(1) refl]
  show ?thesis
    using run wr by (intro exI [of _ ?s]) (simp add: patch_pointer_def)
qed

lemma do_checksum_patches:
  assumes ok: "blobs_ok env s" and nm: "found s name d"
    and range: "unat offset < file_len s d" "unat start + unat n \<le> file_len s d"
  shows "\<exists>s'. do_checksum name offset start n s = Ret () s' \<and>
    blob s' d = patch_checksum (unat offset) (unat start) (unat n) (blob s d) \<and>
    (\<forall>j. loaded s j \<longrightarrow> j \<noteq> d \<longrightarrow> blob s' j = blob s j) \<and> blobs_ok env s' \<and> s' = s\<lparr>mem := mem s'\<rparr> \<and>
    file_table s' = file_table s \<and> (\<forall>a. unat a < unat (malloc_top s) \<longrightarrow> mem s' a = mem s a)"
proof -
  let ?q = "file_address s ! d" and ?i = "unat offset"
  let ?b = "mem s (?q + offset) - csum8 (mem s) (?q + start) n"
  let ?s = "s\<lparr>mem := store_bytes (mem s) (?q + of_nat ?i) [?b]\<rparr>"
  have d: "loaded s d" "?q \<noteq> 0" "d < length (file_table s)" using nm by (simp_all add: found_def loaded_def)
  have sz: "fw_cfg_file_size (of_nat d) s = file_size (file_table s ! d)" by (rule fw_cfg_file_size_entry [OF d(3)])
  have "unat (file_size (file_table s ! d) - start) = unat (file_size (file_table s ! d)) - unat start"
    using range(2) by (intro unat_sub_le) (simp add: file_len_def)
  then have "\<not> file_size (file_table s ! d) \<le> offset" "\<not> file_size (file_table s ! d) < start"
    "\<not> file_size (file_table s ! d) - start < n"
    using range by (simp_all add: word_le_nat_alt word_less_nat_alt file_len_def)
  then have run: "do_checksum name offset start n s = Ret () ?s"
    using nm d by (simp add: do_checksum_def prog_simps found_def id_to_addr_loaded sz Let_def)
  have i1: "?i + length [?b] \<le> file_len s d" using range(1) by simp
  note wr = blob_write [OF ok d(1) i1 refl]
  have "splice ?i [?b] (blob s d) = patch_checksum ?i (unat start) (unat n) (blob s d)"
    using range csum8_sum [of "mem s" "?q + start" n] load_bytes_sub [OF range(2), of "mem s" ?q]
    by (simp add: splice_update patch_checksum_def blob_def)
  with run wr show ?thesis by (intro exI [of _ ?s]) simp
qed

text \<open>Where a new block may go, and what the two allocators have in common.\<close>

definition min_align :: "u32 \<Rightarrow> u32" where
  "min_align align = (if align < 16 then 16 else align)"

definition alloc_room :: "'d env \<Rightarrow> 'd machine \<Rightarrow> u8 \<Rightarrow> u32 \<Rightarrow> u32 \<Rightarrow> bool" where
  "alloc_room env s zone align n \<longleftrightarrow> power_of_two (min_align align) \<and>
     (if zone = ALLOC_FSEG then fseg_fits n (min_align align) s
      else unat (dma_desc env) + 16 + unat n + unat (min_align align) \<le> unat (malloc_top s))"

definition zone_alloc :: "u8 \<Rightarrow> u32 \<Rightarrow> u32 \<Rightarrow> ('d, addr) fw" where
  "zone_alloc zone n align = (if zone = ALLOC_FSEG then malloc_fseg_align n align else malloc_align n align)"

text \<open>At most \<open>k\<close> bytes of a zone have been used up, and none of the other; nothing is given back.\<close>

definition used :: "u8 \<Rightarrow> nat \<Rightarrow> 'd machine \<Rightarrow> 'd machine \<Rightarrow> bool" where
  "used zone k s s' \<longleftrightarrow> unat (malloc_top s') \<le> unat (malloc_top s) \<and> unat (fseg_base s) \<le> unat (fseg_base s') \<and> (if zone = ALLOC_FSEG
     then malloc_top s' = malloc_top s \<and> unat (fseg_base s') \<le> unat (fseg_base s) + k
     else fseg_base s' = fseg_base s \<and> unat (malloc_top s) \<le> unat (malloc_top s') + k)"

definition fresh :: "'d machine \<Rightarrow> addr \<Rightarrow> nat \<Rightarrow> bool" where
  "fresh s p n \<longleftrightarrow> unat p + n \<le> unat (malloc_top s) \<or> unat (fseg_base s) \<le> unat p \<and> unat p + n < 2 ^ 32"

lemma fresh_apart: "fresh s p n \<Longrightarrow> between s q k \<Longrightarrow> apart p n q k"
  using unat_bound [of "malloc_top s"] unat_bound [of "fseg_base s"]
  by (auto simp: fresh_def between_def intro: apart_interval)
     (subst apart_commute, auto intro: apart_interval)

lemma zone_alloc_fresh:
  assumes room: "alloc_room env s zone align n" and ok: "blobs_ok env s"
  obtains p t f where "zone_alloc zone n (min_align align) s = Ret p (s\<lparr>fseg_base := f, malloc_top := t\<rparr>)"
    "fresh s p (unat n)" "unat t \<le> unat (malloc_top s)" "unat (fseg_base s) \<le> unat f"
    "unat (dma_desc env) + 16 \<le> unat t" "unat t \<le> unat p" "unat p + unat n \<le> unat f"
    "unat p mod unat (min_align align) = 0" "unat (dma_desc env) + 16 \<le> unat p"
    "if zone = ALLOC_FSEG then unat (fseg_base s) \<le> unat p else unat p + unat n \<le> unat (malloc_top s)"
    "used zone (unat n + unat (min_align align)) s (s\<lparr>fseg_base := f, malloc_top := t\<rparr>)"
proof -
  have lim: "unat (dma_desc env) + 16 \<le> unat (malloc_top s)" "unat (malloc_top s) \<le> unat (fseg_base s)"
    using ok by (simp_all add: blobs_ok_def between_def)
  show ?thesis
  proof (cases "zone = ALLOC_FSEG")
    case True
    then have fits: "fseg_fits n (min_align align) s" using room by (simp add: alloc_room_def)
    obtain p s1 where run: "malloc_fseg_align n (min_align align) s = Ret p s1"
      by (simp add: malloc_fseg_align_apply Let_def)
    note b = malloc_fseg_align_bounds [OF fits run]
    have "s1 = s\<lparr>fseg_base := p + n, malloc_top := malloc_top s\<rparr>" using b(3) by simp
    with b lim run True show ?thesis
      by (intro that [of p "malloc_top s" "p + n"]) (simp_all add: zone_alloc_def fresh_def used_def)
  next
    case False
    then have fits: "heap_fits n (min_align align) s"
      and room': "unat (dma_desc env) + 16 + unat n + unat (min_align align) \<le> unat (malloc_top s)"
      using room by (simp_all add: alloc_room_def heap_fits_def)
    obtain p s1 where run: "malloc_align n (min_align align) s = Ret p s1" by (simp add: malloc_align_apply)
    note b = malloc_align_bounds [OF fits run]
    have "s1 = s\<lparr>fseg_base := fseg_base s, malloc_top := p\<rparr>" using b(3) by simp
    with b lim run room' False show ?thesis
      by (intro that [of p p "fseg_base s"]) (simp_all add: zone_alloc_def fresh_def used_def)
  qed
qed

text \<open>A new file in a fresh block: the invariant holds again.\<close>

lemma blobs_ok_loaded:
  assumes ok: "blobs_ok env s" and i: "i < 20" "i < length (file_table s)"
    and p: "fresh s p (file_len s i)" "unat t \<le> unat (malloc_top s)" "unat (fseg_base s) \<le> unat f"
      "unat (dma_desc env) + 16 \<le> unat t" "unat t \<le> unat p" "unat p + file_len s i \<le> unat f" "p \<noteq> 0"
    and s': "s' = s\<lparr>fseg_base := f, malloc_top := t, file_address := (file_address s)[i := p], mem := m, dev := d\<rparr>"
    and table: "file_table s' = file_table s"
  shows "blobs_ok env s'" "loaded s' i" "\<And>j. j \<noteq> i \<Longrightarrow> loaded s' j = loaded s j"
    "file_len s' = file_len s" "\<And>j. j \<noteq> i \<Longrightarrow> file_address s' ! j = file_address s ! j" "file_address s' ! i = p"
proof -
  have len20: "length (file_address s) = 20" using ok by (simp add: blobs_ok_def)
  show len: "file_len s' = file_len s" by (simp add: file_len_def table fun_eq_iff)
  show addr: "\<And>j. j \<noteq> i \<Longrightarrow> file_address s' ! j = file_address s ! j" "file_address s' ! i = p"
    using len20 i(1) by (simp_all add: s')
  show other: "\<And>j. j \<noteq> i \<Longrightarrow> loaded s' j = loaded s j" and this: "loaded s' i"
    using addr p(7) i by (simp_all add: loaded_def table)
  have wider: "between s' q k" if "between s q k" for q k
    using that p(2,3) by (simp add: between_def s')
  have new: "between s' p (file_len s i)" using p(5,6) by (simp add: between_def s')
  note away = fresh_apart [OF p(1)]
  have files: "files s' = files s" by (simp add: s')
  have base: "between s (files s) (64 * length (file_table s))" "between s (start_info env) 56"
    "apart (start_info env) 56 (files s) (64 * length (file_table s))"
    using ok by (simp_all add: blobs_ok_def)
  have old: "between s (file_address s ! j) (file_len s j)"
    "apart (file_address s ! j) (file_len s j) (files s) (64 * length (file_table s))"
    "apart (file_address s ! j) (file_len s j) (start_info env) 56"
    "\<And>k. loaded s k \<Longrightarrow> k \<noteq> j \<Longrightarrow> apart (file_address s ! j) (file_len s j) (file_address s ! k) (file_len s k)"
    if "loaded s j" for j
    using ok that by (simp_all add: blobs_ok_def)
  have single: "between s' (file_address s' ! j) (file_len s j) \<and>
      apart (file_address s' ! j) (file_len s j) (files s) (64 * length (file_table s)) \<and>
      apart (file_address s' ! j) (file_len s j) (start_info env) 56" if "loaded s' j" for j
    using that new away base old [of j] wider other addr by (cases "j = i") simp_all
  have pair: "apart (file_address s' ! j) (file_len s j) (file_address s' ! k) (file_len s k)"
    if "loaded s' j" "loaded s' k" "k \<noteq> j" for j k
  proof (cases "j = i")
    case True
    then show ?thesis using that away [OF old(1)] other addr by simp
  next
    case False
    then show ?thesis using that away [OF old(1) [of j]] old(4) [of j k] other addr
      by (cases "k = i") (simp_all add: apart_commute)
  qed
  show "blobs_ok env s'"
    unfolding blobs_ok_def files table len
    using single pair base wider p(4) len20 by (auto simp: s')
qed

lemma between_apart_dma: "unat (dma_desc env) + 16 \<le> unat q \<Longrightarrow> unat q + k \<le> 2 ^ 32 \<Longrightarrow> apart q k (dma_desc env) 16"
  by (subst apart_commute) (intro apart_interval)

context fw_cfg_port
begin

lemma do_alloc_loads:
  fixes s :: "'d machine"
  assumes ok: "blobs_ok env s" and id: "fw_cfg_file_id name s = of_nat i"
    and i: "i < 20" "i < length (file_table s)"
    and room: "alloc_room env s zone align (file_size (file_table s ! i))"
  shows "\<exists>s' p. do_alloc env name align zone s = Ret () s' \<and> blobs_ok env s' \<and>
    loaded s' i \<and> file_address s' ! i = p \<and> unat p mod unat (min_align align) = 0 \<and>
    (if zone = ALLOC_FSEG then unat (fseg_base s) \<le> unat p else unat p + file_len s i \<le> unat (malloc_top s)) \<and>
    blob s' i = entry_bytes E (file_select (file_table s ! i)) 0 (file_len s i) \<and>
    (\<forall>j. j \<noteq> i \<longrightarrow> loaded s' j = loaded s j \<and> (loaded s j \<longrightarrow> blob s' j = blob s j)) \<and>
    file_table s' = file_table s \<and>
    (8 \<le> file_len s i \<longrightarrow> ldq_p (mem s') (start_info env + 32) =
      (if zone = ALLOC_FSEG \<and> take 8 (blob s' i) = chars ''RSD PTR '' then ucast p
       else ldq_p (mem s) (start_info env + 32))) \<and>
    used zone (file_len s i + unat (min_align align)) s s' \<and> (\<forall>j. j \<noteq> i \<longrightarrow> file_address s' ! j = file_address s ! j) \<and>
    (\<forall>a. unat a < unat (malloc_top s') \<longrightarrow> \<not> inside a (dma_desc env) 16 \<longrightarrow> mem s' a = mem s a)"
proof -
  let ?n = "file_size (file_table s ! i)" and ?D = "dma_desc env" and ?si = "start_info env"
  let ?bs = "entry_bytes E (file_select (file_table s ! i)) 0 (file_len s i)"
  have len: "unat ?n = file_len s i" by (simp add: file_len_def)
  have size: "fw_cfg_file_size (of_nat i) s = ?n" by (rule fw_cfg_file_size_entry [OF i(2)])
  have i20: "unat (of_nat i :: u32) = i" using i(1) by (intro unat_of_nat_u32) simp
  obtain p t f where a: "zone_alloc zone ?n (min_align align) s = Ret p (s\<lparr>fseg_base := f, malloc_top := t\<rparr>)"
    "fresh s p (file_len s i)" "unat t \<le> unat (malloc_top s)" "unat (fseg_base s) \<le> unat f"
    "unat ?D + 16 \<le> unat t" "unat t \<le> unat p" "unat p + file_len s i \<le> unat f"
    "unat p mod unat (min_align align) = 0" "unat ?D + 16 \<le> unat p"
    "if zone = ALLOC_FSEG then unat (fseg_base s) \<le> unat p else unat p + file_len s i \<le> unat (malloc_top s)"
    "used zone (file_len s i + unat (min_align align)) s (s\<lparr>fseg_base := f, malloc_top := t\<rparr>)"
    using zone_alloc_fresh [OF room ok] unfolding len by blast
  have p0: "p \<noteq> 0" using a(9) by auto
  define s2 where "s2 = s\<lparr>fseg_base := f, malloc_top := t, file_address := (file_address s)[i := p]\<rparr>"
  have table2: "file_table s2 = file_table s" by (simp add: file_table_def s2_def)
  have dma: "apart p (file_len s i) ?D 16"
    using a(7,9) unat_bound [of f] by (intro between_apart_dma) simp_all
  obtain s3 where s3: "fw_cfg_read_file env (of_nat i) p ?n s2 = Ret () s3" "delivered env p ?bs s2 s3"
    using fw_cfg_read_file_delivers [of i s2 p ?n, unfolded table2 len, OF i(2) dma] by blast
  obtain m d where m: "s3 = s2\<lparr>mem := m, dev := d\<rparr>"
    "\<And>a. \<not> inside a ?D 16 \<Longrightarrow> m a = store_bytes (mem s) p ?bs a"
    using s3(2) by (rule deliveredE) (simp add: s2_def)
  text \<open>What lies between the heaps, or in another file, is as before.\<close>
  have kept: "m a = mem s a" if b: "between s q k" and q: "inside a q k" for q k a
  proof -
    have "unat ?D + 16 \<le> unat q" "unat q + k < 2 ^ 32"
      using b a(3,5) between_bound [OF b] by (simp_all add: between_def)
    then have "apart ?D 16 q k" by (intro apart_interval) simp_all
    then have "\<not> inside a ?D 16" using q apart_not_inside by (metis insideE)
    moreover have "store_bytes (mem s) p ?bs a = mem s a"
      using fresh_apart [OF a(2) b] q by (intro store_bytes_apart) simp_all
    ultimately show ?thesis by (simp add: m(2))
  qed
  have base: "between s (files s) (64 * length (file_table s))" "between s ?si 56"
    "apart ?si 56 (files s) (64 * length (file_table s))" "length (file_address s) = 20"
    using ok by (simp_all add: blobs_ok_def)
  define m' where "m' = (if zone = ALLOC_FSEG \<and> load_bytes m p 8 = chars ''RSD PTR ''
    then stq_p (?si + 32) (ucast p) m else m)"
  define s' where "s' = s\<lparr>fseg_base := f, malloc_top := t, file_address := (file_address s)[i := p], mem := m', dev := d\<rparr>"
  have m'_out: "m' a = m a" if "apart ?si 56 q k" "inside a q k" for q k a
    using apart_sub [OF that(1), of 32 8] that(2) by (simp add: m'_def stq_p_def store_bytes_apart)
  have table: "file_table s' = file_table s"
  proof (rule table_unchanged)
    fix a assume "inside a (files s) (64 * length (file_table s))"
    then show "mem s' a = mem s a" using kept [OF base(1)] m'_out [OF base(3)] by (simp add: s'_def)
  qed (use between_bound [OF base(1)] in \<open>simp_all add: s'_def\<close>)
  have run: "do_alloc env name align zone s = Ret () s'"
  proof -
    have set: "set_file_addr (of_nat i) p (s\<lparr>fseg_base := f, malloc_top := t\<rparr>) = Ret () s2"
      using i(1) by (simp add: set_file_addr_def i20 s2_def)
    have get: "id_to_addr (of_nat i) s3 = Ret p s3"
      using i(1) base(4) by (simp add: id_to_addr_def i20 m(1) s2_def)
    have mem3: "mem s3 = m" by (simp add: m(1))
    have s3': "s' = s3\<lparr>mem := m'\<rparr>" by (simp add: s'_def m(1) s2_def)
    have "when_do (zone = ALLOC_FSEG) (bind get_state (\<lambda>s. when_do (load_bytes (mem s) p 8 = chars ''RSD PTR '')
        (bind (id_to_addr (of_nat i)) (\<lambda>p. on_mem (stq_p (?si + 32) (ucast p)))))) s3 = Ret () s'"
      unfolding s3' m'_def using mem3 by (cases "zone = ALLOC_FSEG"; cases "load_bytes m p 8 = chars ''RSD PTR ''")
        (simp_all add: prog_simps get)
    then show ?thesis
      unfolding do_alloc_def Let_def bind_apply get_state_apply outcome.case id size
        if_not_P [OF file_id_not_minus_one [OF i(2)]]
      using a(1) by (simp add: prog_simps zone_alloc_def min_align_def set s3(1) split: if_splits)
  qed
  note ok' = blobs_ok_loaded [OF ok i a(2-7) p0 s'_def table]
  have at_p: "load_bytes m p (file_len s i) = ?bs"
  proof -
    have "load_bytes m p (file_len s i) = load_bytes (store_bytes (mem s) p ?bs) p (file_len s i)"
      using dma by (intro load_bytes_cong m(2)) (simp add: apart_not_inside apart_commute)
    also have "\<dots> = ?bs" using unat_bound [of ?n] len by (intro load_store_same) simp_all
    finally show ?thesis .
  qed
  have n32: "file_len s i \<le> 2 ^ 32" using unat_bound [of ?n] len by simp
  have si_p: "apart ?si 56 p (file_len s i)" using fresh_apart [OF a(2) base(2)] by (simp add: apart_commute)
  have blob_i: "blob s' i = ?bs"
  proof -
    have "load_bytes m' p (file_len s i) = load_bytes m p (file_len s i)"
      using n32 by (intro load_bytes_cong m'_out [OF si_p] inside_offset) simp_all
    then show ?thesis unfolding blob_def ok'(4,6) by (simp add: s'_def at_p)
  qed
  have blob_j: "blob s' j = blob s j" if "j \<noteq> i" "loaded s j" for j
  proof -
    let ?q = "file_address s ! j" and ?k = "file_len s j"
    have q: "between s ?q ?k" "apart ?si 56 ?q ?k" using ok that(2) by (simp_all add: blobs_ok_def apart_commute)
    have "load_bytes m' ?q ?k = load_bytes (mem s) ?q ?k"
    proof (rule load_bytes_cong)
      fix x assume "x < ?k"
      then have "inside (?q + of_nat x) ?q ?k" using between_bound [OF q(1)] by (intro inside_offset) simp_all
      then show "m' (?q + of_nat x) = mem s (?q + of_nat x)" using m'_out [OF q(2)] kept [OF q(1)] by simp
    qed
    then show ?thesis unfolding blob_def ok'(4) ok'(5) [OF that(1)] by (simp add: s'_def)
  qed
  have "load_bytes m (?si + 32) 8 = load_bytes (mem s) (?si + 32) 8"
  proof (intro load_bytes_cong kept [OF base(2)])
    fix x :: nat assume "x < 8"
    then show "inside (?si + 32 + of_nat x) ?si 56"
      using inside_offset [of "32 + x" 56 ?si] by (simp add: add.assoc)
  qed
  then have ldq: "ldq_p m (?si + 32) = ldq_p (mem s) (?si + 32)" by (simp add: ldq_p_def)
  have rsdp: "8 \<le> file_len s i \<Longrightarrow> ldq_p (mem s') (?si + 32) =
      (if zone = ALLOC_FSEG \<and> take 8 (blob s' i) = chars ''RSD PTR '' then ucast p else ldq_p (mem s) (?si + 32))"
    using load_bytes_sub [of 0 8 "file_len s i" m p] ldq unfolding blob_i at_p [symmetric]
    by (simp add: s'_def m'_def ldq_stq_same)
  have low: "mem s' x = mem s x" if x: "unat x < unat (malloc_top s')" "\<not> inside x ?D 16" for x
  proof -
    have xt: "unat x < unat t" using x(1) by (simp add: s'_def)
    have "\<not> inside x p (file_len s i)" using xt a(6) a(7) unat_bound [of f] inside_interval [of p "file_len s i" x] by simp
    moreover have "\<not> inside x (?si + 32) 8"
    proof -
      have "\<not> inside x ?si 56"
        using xt a(3) base(2) between_bound [OF base(2)] inside_interval [of ?si 56 x] by (simp add: between_def)
      then show ?thesis using inside_sub [of x ?si 32 8 56] by auto
    qed
    ultimately show ?thesis using m(2) [OF x(2)] n32
      by (simp add: s'_def m'_def stq_p_def store_bytes_outside [where n = 8] store_bytes_outside [where n = "file_len s i"])
  qed
  have use: "used zone (file_len s i + unat (min_align align)) s s'" using a(11) by (simp add: used_def s'_def split: if_splits)
  show ?thesis
    using run ok' a(8,10) blob_i blob_j rsdp table low use by (intro exI [of _ s'] exI [of _ p]) auto
qed

end

section \<open>Properties\<close>

lemma patch_checksum_sum:
  assumes "start \<le> i" "i < start + n" "start + n \<le> length bs"
  shows "sum_list (take n (drop start (patch_checksum i start n bs))) = 0"
proof -
  let ?r = "take n (drop start bs)"
  have "take n (drop start (patch_checksum i start n bs)) = ?r[i - start := ?r ! (i - start) - sum_list ?r]"
    using assms by (intro nth_equalityI) (auto simp: patch_checksum_def nth_list_update)
  moreover have "i - start < length ?r" using assms by simp
  ultimately show ?thesis by (simp add: sum_list_update_word)
qed

text \<open>Two small tables, for the evaluations.\<close>

definition demo_acpi :: "(string \<times> u8 list) list" where
  "demo_acpi = [(''etc/acpi/rsdp'', chars ''RSD PTR '' @ replicate 12 0), (''etc/acpi/tables'', [1, 2, 3, 4])]"

definition demo_loaded :: "platform machine" where
  "demo_loaded = loaded_machine demo_acpi
     \<lparr>file_address := [0x90100, 0x90200] @ replicate 18 0, malloc_top := 0x90000\<rparr>"

lemma demo_acpi_good: "good_files demo_acpi"
  by (simp add: good_files_def demo_acpi_def chars_def)

lemma demo_table: "file_table demo_loaded = make_dir demo_acpi"
  using loaded_file_table [OF demo_acpi_good] by (simp add: demo_loaded_def file_table_def)

lemma demo_fields:
  "files demo_loaded = 0xf8000" "malloc_top demo_loaded = 0x90000" "fseg_base demo_loaded = 0xf8080"
  "file_address demo_loaded = [0x90100, 0x90200] @ replicate 18 0"
  by (simp_all add: demo_loaded_def loaded_machine_def boot_machine_def demo_acpi_def)

lemma demo_len: "file_len demo_loaded 0 = 20" "file_len demo_loaded (Suc 0) = 4"
  by (simp_all add: file_len_def demo_table make_dir_def make_file_def demo_acpi_def chars_def)

lemma demo_is_loaded: "loaded demo_loaded i \<longleftrightarrow> i = 0 \<or> i = 1"
  by (auto simp: loaded_def demo_table demo_fields demo_acpi_def less_2_cases_iff)

lemma demo_blobs_ok: "blobs_ok (ref_env E) demo_loaded"
  by (auto simp: blobs_ok_def demo_is_loaded demo_fields demo_table demo_len between_def apart_def)
     (simp_all add: demo_acpi_def demo_len apart_def)

lemma demo_ids:
  "fw_cfg_file_id (literal ''etc/acpi/rsdp'') demo_loaded = of_nat 0"
  "fw_cfg_file_id (literal ''etc/acpi/tables'') demo_loaded = of_nat 1"
proof -
  have same: "fw_cfg_file_id name demo_loaded = fw_cfg_file_id name (loaded_machine demo_acpi)" for name
  proof -
    have "fw_cfg_file_id_loop name demo_loaded i k = fw_cfg_file_id_loop name (loaded_machine demo_acpi) i k" for i k
      by (induction k arbitrary: i) (simp_all add: demo_loaded_def fw_cfg_file_at_def)
    then show ?thesis by (simp add: fw_cfg_file_id_def) (simp add: demo_loaded_def)
  qed
  show "fw_cfg_file_id (literal ''etc/acpi/rsdp'') demo_loaded = of_nat 0"
    unfolding same by (rule loaded_file_id [OF demo_acpi_good]) (simp_all add: demo_acpi_def)
  show "fw_cfg_file_id (literal ''etc/acpi/tables'') demo_loaded = of_nat 1"
    unfolding same by (rule loaded_file_id [OF demo_acpi_good]) (simp_all add: demo_acpi_def)
qed

text \<open>
  C8: The PTR command. When both files are loaded and the pointer lies inside the destination, \<open>do_ptr\<close> adds the
  address of the source file to the little-endian number of \<open>width\<close> bytes at \<open>offset\<close>, modulo the size of the
  pointer, and changes nothing else in any loaded file.
\<close>

theorem acpi_pointer_patched:
  assumes "blobs_ok env s" and "found s src e" "found s dest d"
    and "unat offset + unat width \<le> file_len s d" "unat width \<le> 8"
  shows "\<exists>s'. do_ptr dest src offset width s = Ret () s' \<and> s' = s\<lparr>mem := mem s'\<rparr> \<and>
    blob s' d = patch_pointer (unat offset) (unat width) (file_address s ! e) (blob s d) \<and>
    (\<forall>j. loaded s j \<longrightarrow> j \<noteq> d \<longrightarrow> blob s' j = blob s j) \<and> blobs_ok env s'"
  using do_ptr_patches [OF assms] by blast

theorem acpi_pointer_patched_witness:
  "\<exists>s'. do_ptr (literal ''etc/acpi/rsdp'') (literal ''etc/acpi/tables'') 16 4 demo_loaded = Ret () s' \<and>
     blob s' 0 = patch_pointer 16 4 0x90200 (blob demo_loaded 0) \<and> blob s' 1 = blob demo_loaded 1"
proof -
  have "found demo_loaded (literal ''etc/acpi/tables'') 1" "found demo_loaded (literal ''etc/acpi/rsdp'') 0"
    by (simp_all add: found_def demo_ids demo_is_loaded)
  from acpi_pointer_patched [OF demo_blobs_ok [of "contents demo_acpi"] this, of 16 4] show ?thesis
    by (auto simp: demo_len demo_fields demo_is_loaded)
qed

text \<open>
  C9: The CHECKSUM command. For a loaded file and a range inside it, \<open>do_checksum\<close> changes one byte and nothing
  else, and when that byte lies in the range, the bytes of the range then add up to 0.
\<close>

theorem acpi_checksum_zero:
  assumes "blobs_ok env s" and "found s name d"
    and "unat offset < file_len s d" "unat start + unat n \<le> file_len s d"
  shows "\<exists>s'. do_checksum name offset start n s = Ret () s' \<and> s' = s\<lparr>mem := mem s'\<rparr> \<and> blobs_ok env s' \<and>
    (\<forall>k < file_len s d. k \<noteq> unat offset \<longrightarrow> blob s' d ! k = blob s d ! k) \<and>
    (\<forall>j. loaded s j \<longrightarrow> j \<noteq> d \<longrightarrow> blob s' j = blob s j) \<and>
    (unat start \<le> unat offset \<and> unat offset < unat start + unat n \<longrightarrow>
      sum_list (take (unat n) (drop (unat start) (blob s' d))) = 0)"
proof -
  obtain s' where s': "do_checksum name offset start n s = Ret () s'" "s' = s\<lparr>mem := mem s'\<rparr>" "blobs_ok env s'"
    "blob s' d = patch_checksum (unat offset) (unat start) (unat n) (blob s d)"
    "\<forall>j. loaded s j \<longrightarrow> j \<noteq> d \<longrightarrow> blob s' j = blob s j"
    using do_checksum_patches [OF assms] by blast
  have "length (blob s d) = file_len s d" by (simp add: blob_def)
  with assms(4) have "unat start \<le> unat offset \<and> unat offset < unat start + unat n \<longrightarrow>
      sum_list (take (unat n) (drop (unat start) (blob s' d))) = 0"
    unfolding s'(4) by (intro impI patch_checksum_sum) simp_all
  moreover have "\<forall>k < file_len s d. k \<noteq> unat offset \<longrightarrow> blob s' d ! k = blob s d ! k"
    by (simp add: s'(4) patch_checksum_def)
  ultimately show ?thesis using s' by blast
qed

theorem acpi_checksum_zero_witness:
  "\<exists>s'. do_checksum (literal ''etc/acpi/rsdp'') 8 0 20 demo_loaded = Ret () s' \<and> sum_list (take 20 (blob s' 0)) = 0"
proof -
  have "found demo_loaded (literal ''etc/acpi/rsdp'') 0" by (simp add: found_def demo_ids demo_is_loaded)
  from acpi_checksum_zero [OF demo_blobs_ok [of "contents demo_acpi"] this, of 8 0 20] show ?thesis
    by (auto simp: demo_len)
qed

text \<open>A range of a loaded file that does not lie inside it, or a checksum byte past its end: CHECKSUM stops.\<close>

lemma do_checksum_refuses:
  assumes nm: "found s name d" and out: "file_len s d \<le> unat offset \<or> file_len s d < unat start + unat n"
  shows "do_checksum name offset start n s = Panic s"
proof -
  have d: "loaded s d" "file_address s ! d \<noteq> 0" "d < length (file_table s)" using nm by (simp_all add: found_def loaded_def)
  let ?size = "file_size (file_table s ! d)"
  have sz: "fw_cfg_file_size (of_nat d) s = ?size" by (rule fw_cfg_file_size_entry [OF d(3)])
  have "unat (?size - start) = unat ?size - unat start \<or> ?size < start"
    using unat_sub_le [of start ?size] by (auto simp: word_less_nat_alt word_le_nat_alt)
  then have "?size \<le> offset \<or> ?size < start \<or> ?size - start < n"
    using out by (auto simp: word_le_nat_alt word_less_nat_alt file_len_def)
  then show ?thesis
    using nm d by (auto simp: do_checksum_def prog_simps found_def id_to_addr_loaded sz Let_def)
qed

text \<open>
  C10: What the loader does with a script it cannot follow. A file that is not in the directory stops an ALLOC
  command in \<open>panic\<close>, but a PTR command, for its source as for its destination, and a CHECKSUM command then read
  \<open>file_address\<close> at index -1, out of its bounds; a file that has not been loaded stops both in \<open>panic\<close>. A CHECKSUM
  whose byte or whose range is not inside the loaded file stops in \<open>panic\<close>; a PTR to a pointer of more than 8 bytes
  overruns the union of \<open>do_ptr\<close>. A command of an unknown kind ends in \<open>panic\<close>, and the command 0 ends the script.
  None of these changes the state.
\<close>

theorem acpi_errors:
  assumes missing: "fw_cfg_file_id name s = -1" and unloaded: "fw_cfg_file_id other s = of_nat i"
    and i: "i < 20" "file_address s ! i = 0" and good: "found s good g"
    and cmd: "cmd = ldl_p (mem s) (loader_script env + 128 * of_nat j)"
  shows "do_alloc env name align zone s = Panic s \<and>
    do_ptr dest name offset width s = Fault Array_bounds \<and> do_ptr name good offset width s = Fault Array_bounds \<and>
    do_ptr dest other offset width s = Panic s \<and> do_ptr other good offset width s = Panic s \<and>
    (8 < unat width \<longrightarrow> do_ptr good good offset width s = Fault Array_bounds) \<and>
    do_checksum name offset start n s = Fault Array_bounds \<and> do_checksum other offset start n s = Panic s \<and>
    (file_len s g \<le> unat offset \<or> file_len s g < unat start + unat n \<longrightarrow>
      do_checksum good offset start n s = Panic s) \<and>
    (cmd > 3 \<longrightarrow> loader_loop env j (Suc k) s = Panic s) \<and> (cmd = 0 \<longrightarrow> loader_loop env j (Suc k) s = Ret () s)"
proof -
  have "\<not> unat (- 1 :: u32) < 20" by (simp add: unsigned_minus_1_eq_mask mask_eq_exp_minus_1)
  moreover have "unat (of_nat i :: u32) = i" using i(1) by (intro unat_of_nat_u32) simp
  moreover have "fw_cfg_file_id good s = of_nat g" "id_to_addr (of_nat g) s = Ret (file_address s ! g) s"
    "file_address s ! g \<noteq> 0"
    using good id_to_addr_loaded [of s g] by (simp_all add: found_def loaded_def)
  moreover have "id_to_addr (-1) s = Fault Array_bounds" "id_to_addr (of_nat i) s = Ret 0 s"
    using calculation(1,2) i by (simp_all add: id_to_addr_def)
  ultimately show ?thesis
    using do_checksum_refuses [OF good]
    by (auto simp: do_alloc_def do_ptr_def do_checksum_def prog_simps missing unloaded Let_def cmd)
qed

theorem acpi_errors_witness:
  "\<exists>s :: platform machine. do_ptr (literal ''etc/acpi/rsdp'') (literal ''etc/x'') 16 4 s = Fault Array_bounds \<and>
     do_ptr (literal ''etc/acpi/tables'') (literal ''etc/acpi/rsdp'') 0 4 s = Panic s \<and>
     do_checksum (literal ''etc/acpi/tables'') 0 0 4 s = Panic s \<and>
     do_checksum (literal ''etc/acpi/rsdp'') 8 0 21 s = Panic s"
proof -
  let ?s = "demo_loaded\<lparr>file_address := 0x90100 # replicate 19 0\<rparr>"
  have same: "fw_cfg_file_id name ?s = fw_cfg_file_id name demo_loaded" for name
  proof -
    have "fw_cfg_file_id_loop name ?s i k = fw_cfg_file_id_loop name demo_loaded i k" for i k
      by (induction k arbitrary: i) (simp_all add: fw_cfg_file_at_def)
    then show ?thesis by (simp add: fw_cfg_file_id_def)
  qed
  have str: "is_string (literal ''etc/x'') (chars ''etc/x'')"
    unfolding chars_def by (rule is_string_literal) simp
  have "\<not> file_named (chars ''etc/x'') (make_file 0 (''etc/acpi/rsdp'', chars ''RSD PTR '' @ replicate 12 0))"
    "\<not> file_named (chars ''etc/x'') (make_file 1 (''etc/acpi/tables'', [1, 2, 3, 4]))"
    by (subst file_named_make; simp add: chars_def)+
  then have "index_of (file_named (chars ''etc/x'')) (make_dir demo_acpi) = None"
    by (simp add: demo_acpi_def make_dir_def)
  then have x: "fw_cfg_file_id (literal ''etc/x'') ?s = -1"
    by (simp add: same fw_cfg_file_id_index [OF str] demo_table)
  have table: "file_table ?s = file_table demo_loaded" by (simp add: file_table_def)
  have good: "found ?s (literal ''etc/acpi/rsdp'') 0"
    by (simp add: found_def loaded_def table demo_table same demo_ids demo_acpi_def)
  have tables: "fw_cfg_file_id (literal ''etc/acpi/tables'') ?s = of_nat 1" by (simp only: same demo_ids)
  have len: "file_len ?s 0 = 20" using demo_len(1) by (simp add: file_len_def table)
  have "1 < (20::nat)" "file_address ?s ! 1 = 0" by simp_all
  note e = acpi_errors [OF x tables this good refl, unfolded len]
  have "8 < unat (4::u8) \<longleftrightarrow> False" "20 \<le> unat (8::u32) \<or> 20 < unat (0::u32) + unat (21::u32)" by simp_all
  with e [where dest = "literal ''etc/acpi/rsdp''" and offset = 16 and width = 4 and start = 0 and n = 4]
    e [where offset = 0 and width = 4 and start = 0 and n = 4]
    e [where offset = 8 and width = 4 and start = 0 and n = 21]
  show ?thesis by blast
qed

end
