(* ===== verification/E820.thy ===== *)
theory E820
  imports Reference
begin

text \<open>
  The memory map and the real-mode services: the E820 map and the interrupt vectors that main.c builds,
  and the int 10h and int 15h handlers of code16.c that the operating system calls later.
\<close>

section \<open>The map in memory (include/e820.h)\<close>

abbreviation (input) SMAP where "SMAP \<equiv> 0x534d4150"
abbreviation (input) E820_RAM where "E820_RAM \<equiv> 1"
abbreviation (input) E820_RESERVED where "E820_RESERVED \<equiv> 2"
abbreviation (input) E820_NVS where "E820_NVS \<equiv> 4"
abbreviation (input) PCIE_MMCONFIG_BASE where "PCIE_MMCONFIG_BASE \<equiv> 0xb0000000"
abbreviation (input) PCIE_MMCONFIG_SIZE where "PCIE_MMCONFIG_SIZE \<equiv> 0x10000000"

record e820entry =
  entry_addr :: u64
  entry_size :: u64
  entry_type :: u32

text \<open>Packed: 20 bytes. \<open>struct e820map\<close> is the number of entries and then the entries.\<close>

definition enc_entry :: "e820entry \<Rightarrow> u8 list" where
  "enc_entry e = le_bytes 8 (entry_addr e) @ le_bytes 8 (entry_size e) @ le_bytes 4 (entry_type e)"

definition dec_entry :: "u8 list \<Rightarrow> e820entry" where
  "dec_entry bs = \<lparr>entry_addr = le_word (take 8 bs), entry_size = le_word (take 8 (drop 8 bs)),
     entry_type = le_word (take 4 (drop 16 bs))\<rparr>"

interpretation e820entry: codec 20 "\<lambda>_. True" enc_entry dec_entry
  by unfold_locales (auto simp: enc_entry_def dec_entry_def le_word_le_bytes)

definition e820_nr_map :: "'d machine \<Rightarrow> u32" where
  "e820_nr_map s = ldl_p (mem s) (e820 s)"

definition e820_entry_at :: "'d machine \<Rightarrow> u32 \<Rightarrow> addr" where
  "e820_entry_at s i = e820 s + 4 + 20 * i"

definition e820_map :: "'d machine \<Rightarrow> e820entry list" where
  "e820_map s = load_array 20 dec_entry (mem s) (e820 s + 4) (unat (e820_nr_map s))"

section \<open>Building the map (main.c)\<close>

definition store_entry :: "u32 \<Rightarrow> u64 \<Rightarrow> u64 \<Rightarrow> u32 \<Rightarrow> ('d, unit) fw" where
  "store_entry i a n t =
     bind get_state (\<lambda>s. on_mem (\<lambda>m. store_bytes m (e820_entry_at s i)
       (enc_entry \<lparr>entry_addr = a, entry_size = n, entry_type = t\<rparr>)))"

text \<open>The search for the RAM that starts at 0: \<open>k\<close> entries are left, from number \<open>i\<close>.\<close>

primrec find_lowmem :: "nat \<Rightarrow> nat \<Rightarrow> ('d, unit) fw" where
  "find_lowmem i 0 = ret ()"
| "find_lowmem i (Suc k) = bind get_state (\<lambda>s. let p = e820_entry_at s (of_nat i) in
     if ldq_p (mem s) p = 0
     then andthen (update (\<lambda>s. s\<lparr>lowmem := ucast (ldq_p (mem s) (p + 8))\<rparr>))
          (andthen (on_mem (stq_p p (1024 * 1024)))
          (on_mem (\<lambda>m. stq_p (p + 8) (ldq_p m (p + 8) - 1024 * 1024) m)))
     else find_lowmem (Suc i) k)"

definition extract_e820 :: "'d env \<Rightarrow> ('d, unit) fw" where
  "extract_e820 env =
     bind get_state (\<lambda>s. let fid = fw_cfg_file_id (literal ''etc/e820'') s in
     if fid = -1 then panic
     else let size = fw_cfg_file_size fid s;
              nr_map = size div 20 + 5
     in bind (malloc (4 + 20 * nr_map)) (\<lambda>p.
        andthen (update (\<lambda>s. s\<lparr>e820 := p\<rparr>))
        (andthen (on_mem (stl_p p nr_map))
        (andthen (store_entry 0 0 (639 * 1024) E820_RAM)
        (andthen (store_entry 1 (639 * 1024) 1024 E820_RESERVED)
        (andthen (store_entry 2 0xd0000 (128 * 1024) E820_NVS)
        (andthen (store_entry 3 0xf0000 (64 * 1024) E820_RESERVED)
        (andthen (when_do (have_mmconfig s) (store_entry 4 PCIE_MMCONFIG_BASE PCIE_MMCONFIG_SIZE E820_RESERVED))
        (let i = (if have_mmconfig s then 5 else 4) in
        andthen (bind get_state (\<lambda>s. fw_cfg_read_file env fid (e820_entry_at s (of_nat i)) size))
        (andthen (bind get_state (\<lambda>s. find_lowmem i (unat (e820_nr_map s) - i)))
        (update (\<lambda>s. s\<lparr>e820_seg := ucast (drop_bit 4 (e820 s))\<rparr>))))))))))))"

section \<open>Interrupt vectors (main.c)\<close>

definition set_realmode_int :: "u32 \<Rightarrow> addr \<Rightarrow> mem \<Rightarrow> mem" where
  "set_realmode_int vec p m =
     stw_p (4 * vec + 2) (flat_to_seg16 p) (stw_p (4 * vec) (flat_to_off16 p) m)"

definition setup_idt :: "'d env \<Rightarrow> ('d, unit) fw" where
  "setup_idt env =
     andthen (for_each [0..<0x100] (\<lambda>i. on_mem (set_realmode_int (of_nat i) (bios_intfake env))))
     (andthen (for_each [8..<16] (\<lambda>i. on_mem (set_realmode_int (of_nat i) (bios_irq env))))
     (andthen (for_each [0x70..<0x78] (\<lambda>i. on_mem (set_realmode_int (of_nat i) (bios_irq env))))
     (andthen (on_mem (set_realmode_int 0x10 (bios_int10 env)))
     (on_mem (set_realmode_int 0x15 (bios_int15 env))))))"

section \<open>Real-mode services (code16.c)\<close>

record biosregs =
  eax :: u32
  ebx :: u32
  ecx :: u32
  edx :: u32
  esp :: u32
  ebp :: u32
  esi :: u32
  edi :: u32
  r_ds :: u32
  r_es :: u32
  r_fs :: u32
  r_ip :: u16
  r_cs :: u16
  eflags :: u16

abbreviation (input) X86_EFLAGS_CF where "X86_EFLAGS_CF \<equiv> 1"
abbreviation (input) VBE_STATUS_FAIL where "VBE_STATUS_FAIL \<equiv> 0x014F"

text \<open>
  The handlers run in real mode: an access through %fs adds 16 times the selector. The selector comes
  from \<open>e820_seg\<close>, which is read through %cs. A plain access goes through the caller's %ds.
\<close>

definition rdfs8 :: "u16 \<Rightarrow> u32 \<Rightarrow> mem \<Rightarrow> u8" where
  "rdfs8 seg a m = m (push_bit 4 (ucast seg) + a)"

definition rdfs32 :: "u16 \<Rightarrow> u32 \<Rightarrow> mem \<Rightarrow> u32" where
  "rdfs32 seg a m = le_word (load_bytes m (push_bit 4 (ucast seg) + a) 4)"

primrec copy_entry :: "u16 \<Rightarrow> u32 \<Rightarrow> addr \<Rightarrow> nat \<Rightarrow> nat \<Rightarrow> mem \<Rightarrow> mem" where
  "copy_entry seg start p i 0 m = m"
| "copy_entry seg start p i (Suc k) m =
     copy_entry seg start (p + 1) (Suc i) k (m(p := rdfs8 seg (start + of_nat i) m))"

definition e820_query_map :: "biosregs \<Rightarrow> ('d, biosregs) fw" where
  "e820_query_map regs =
     bind get_state (\<lambda>s.
     let ndx = ebx regs;
         map_size = rdfs32 (e820_seg s) 0 (mem s);
         start = 4 + 20 * ndx;
         p = push_bit 4 (r_ds regs AND 0xffff) + edi regs
     in andthen (when_do (ndx < map_size) (on_mem (copy_entry (e820_seg s) start p 0 20)))
        (let regs = regs\<lparr>eax := SMAP, ecx := 20\<rparr>; ndx = ndx + 1; regs = regs\<lparr>ebx := ndx\<rparr>
         in ret (if ndx \<ge> map_size then regs\<lparr>ebx := 0\<rparr> else regs)))"

definition int15_handler :: "biosregs \<Rightarrow> ('d, biosregs) fw" where
  "int15_handler regs =
     (if eax regs = 0xe820 then e820_query_map regs
      else ret (regs\<lparr>eflags := eflags regs OR X86_EFLAGS_CF\<rparr>))"

definition int10_putchar :: "'d env \<Rightarrow> biosregs \<Rightarrow> ('d, unit) fw" where
  "int10_putchar env args = (let al = ucast (eax args AND 0xff) in outb env 0x3f8 al)"

definition int10_vesa :: "biosregs \<Rightarrow> biosregs" where
  "int10_vesa args = args\<lparr>eax := VBE_STATUS_FAIL\<rparr>"

definition int10_handler :: "'d env \<Rightarrow> biosregs \<Rightarrow> ('d, biosregs) fw" where
  "int10_handler env args =
     (let ah = ucast (drop_bit 8 (eax args AND 0xff00)) :: u8 in
      if ah = 0x0e then andthen (int10_putchar env args) (ret args)
      else if ah = 0x4f then ret (int10_vesa args)
      else ret args)"

section \<open>What the map holds\<close>

text \<open>The entries of the firmware itself; the entries of the file follow, and the first of those that starts at 0
  is moved above the first MiB.\<close>

definition fixed_entries :: "bool \<Rightarrow> e820entry list" where
  "fixed_entries mmconfig =
     [\<lparr>entry_addr = 0, entry_size = 639 * 1024, entry_type = E820_RAM\<rparr>,
      \<lparr>entry_addr = 639 * 1024, entry_size = 1024, entry_type = E820_RESERVED\<rparr>,
      \<lparr>entry_addr = 0xd0000, entry_size = 128 * 1024, entry_type = E820_NVS\<rparr>,
      \<lparr>entry_addr = 0xf0000, entry_size = 64 * 1024, entry_type = E820_RESERVED\<rparr>] @
     (if mmconfig then [\<lparr>entry_addr = PCIE_MMCONFIG_BASE, entry_size = PCIE_MMCONFIG_SIZE, entry_type = E820_RESERVED\<rparr>]
      else [])"

definition starts_at_0 :: "e820entry \<Rightarrow> bool" where
  "starts_at_0 e \<longleftrightarrow> entry_addr e = 0"

definition above_1M :: "e820entry \<Rightarrow> e820entry" where
  "above_1M e = e\<lparr>entry_addr := 1024 * 1024, entry_size := entry_size e - 1024 * 1024\<rparr>"

definition relocate :: "e820entry list \<Rightarrow> e820entry list" where
  "relocate xs = (case index_of starts_at_0 xs of None \<Rightarrow> xs | Some j \<Rightarrow> xs[j := above_1M (xs ! j)])"

lemma length_fixed_entries: "length (fixed_entries mmc) = (if mmc then 5 else 4)"
  by (simp add: fixed_entries_def)

lemma store_fixed_entries:
  "andthen (store_entry 0 0 (639 * 1024) E820_RAM)
     (andthen (store_entry 1 (639 * 1024) 1024 E820_RESERVED)
     (andthen (store_entry 2 0xd0000 (128 * 1024) E820_NVS)
     (andthen (store_entry 3 0xf0000 (64 * 1024) E820_RESERVED)
     (andthen (when_do mmc (store_entry 4 PCIE_MMCONFIG_BASE PCIE_MMCONFIG_SIZE E820_RESERVED)) f)))) s
   = f (s\<lparr>mem := store_bytes (mem s) (e820 s + 4) (concat (map enc_entry (fixed_entries mmc)))\<rparr>)"
  by (cases mmc) (simp_all add: prog_simps store_entry_def e820_entry_at_def fixed_entries_def store_bytes_append add.assoc)

lemma find_lowmem_result:
  fixes s :: "'d machine"
  assumes "20 * (i + k) \<le> 2 ^ 32"
    and "xs = load_array 20 dec_entry (mem s) (e820_entry_at s (of_nat i)) k"
  shows "\<exists>m. find_lowmem i k s = Ret () (s\<lparr>mem := m, lowmem := (case index_of starts_at_0 xs of
        None \<Rightarrow> lowmem s | Some j \<Rightarrow> ucast (entry_size (xs ! j)))\<rparr>) \<and>
    load_array 20 dec_entry m (e820_entry_at s (of_nat i)) k = relocate xs \<and>
    (\<forall>a. \<not> inside a (e820_entry_at s (of_nat i)) (20 * k) \<longrightarrow> m a = mem s a)"
  using assms
proof (induction k arbitrary: i xs)
  case 0
  then show ?case by (intro exI [of _ "mem s"]) (simp add: relocate_def)
next
  case (Suc k)
  let ?p = "e820_entry_at s (of_nat i)"
  let ?e = "dec_entry (load_bytes (mem s) ?p 20)"
  let ?xs = "load_array 20 dec_entry (mem s) (e820_entry_at s (of_nat (Suc i))) k"
  have p: "e820_entry_at s (of_nat (Suc i)) = ?p + 20"
    by (simp add: e820_entry_at_def algebra_simps)
  have xs: "xs = ?e # ?xs" unfolding Suc.prems(2) p by simp
  have bytes: "load_bytes (mem s) ?p (8 + (8 + 4)) = load_bytes (mem s) ?p 8 @ load_bytes (mem s) (?p + 8) 8 @
      load_bytes (mem s) (?p + 16) 4"
    unfolding load_bytes_append by (simp add: add.assoc)
  then have e: "ldq_p (mem s) ?p = entry_addr ?e" "ldq_p (mem s) (?p + 8) = entry_size ?e"
    "load_bytes (mem s) (?p + 16) 4 = le_bytes 4 (entry_type ?e)"
    by (simp_all add: dec_entry_def ldq_p_def le_bytes_le_word_4)
  show ?case
  proof (cases "entry_addr ?e = 0")
    case True
    let ?bs = "enc_entry (above_1M ?e)"
    let ?m = "store_bytes (mem s) ?p ?bs"
    let ?m1 = "stq_p ?p (1048576) (mem s)"
    let ?m2 = "stq_p (?p + 8) (ldq_p ?m1 (?p + 8) - 1048576) ?m1"
    have "ldq_p ?m1 (?p + 8) = entry_size ?e"
      by (simp add: ldq_p_def stq_p_def load_store_apart apart_def e(2) [symmetric])
    then have m2: "?m2 = store_bytes (mem s) ?p (le_bytes 8 (1048576 :: u64) @ le_bytes 8 (entry_size ?e - 1048576))"
      by (simp add: stq_p_def store_bytes_append)
    have "load_bytes ?m2 (?p + 16) 4 = le_bytes 4 (entry_type ?e)"
      unfolding m2 by (subst load_store_apart) (simp_all add: apart_def e(3))
    then have "?m2 = store_bytes ?m2 (?p + 16) (le_bytes 4 (entry_type ?e))"
      by (simp add: store_bytes_idem)
    also have "\<dots> = ?m"
      unfolding m2 by (simp add: enc_entry_def above_1M_def store_bytes_append add.assoc)
    finally have m: "?m2 = ?m" .
    have run: "find_lowmem i (Suc k) s = Ret () (s\<lparr>lowmem := ucast (entry_size ?e), mem := ?m\<rparr>)"
      using True by (simp add: prog_simps Let_def e(1,2) m)
    have "load_array 20 dec_entry (store_bytes (mem s) (?p + of_nat (20 * 0)) ?bs) ?p (Suc k)
        = (load_array 20 dec_entry (mem s) ?p (Suc k))[0 := dec_entry ?bs]"
      using Suc.prems(1) by (intro load_array_update) simp_all
    then have "load_array 20 dec_entry ?m ?p (Suc k) = xs[0 := above_1M ?e]"
      using Suc.prems(2) by simp
    also have "\<dots> = relocate xs"
      using True by (simp add: relocate_def xs starts_at_0_def)
    finally have loaded: "load_array 20 dec_entry ?m ?p (Suc k) = relocate xs" .
    have "?m a = mem s a" if "\<not> inside a ?p (20 * Suc k)" for a
      using that Suc.prems(1) by (intro store_bytes_outside [where n = "20 * Suc k"]) simp_all
    with run loaded True show ?thesis
      by (intro exI [of _ ?m]) (simp add: xs starts_at_0_def)
  next
    case False
    then have no: "\<not> starts_at_0 ?e" by (simp add: starts_at_0_def)
    have "20 * (Suc i + k) \<le> 2 ^ 32" using Suc.prems(1) by simp
    from Suc.IH [OF this refl] obtain m where m:
      "find_lowmem (Suc i) k s = Ret () (s\<lparr>mem := m, lowmem := (case index_of starts_at_0 ?xs of
        None \<Rightarrow> lowmem s | Some j \<Rightarrow> ucast (entry_size (?xs ! j)))\<rparr>)"
      "load_array 20 dec_entry m (?p + 20) k = relocate ?xs"
      "\<forall>a. \<not> inside a (?p + 20) (20 * k) \<longrightarrow> m a = mem s a"
      unfolding p by blast
    have run: "find_lowmem i (Suc k) s = find_lowmem (Suc i) k s"
      using False by (simp add: prog_simps Let_def e(1))
    have "apart ?p 20 (?p + 20) (20 * k)" using Suc.prems(1) by (simp add: apart_def)
    then have "m (?p + of_nat j) = mem s (?p + of_nat j)" if "j < 20" for j
      using that m(3) apart_not_inside apart_commute by blast
    then have head: "load_bytes m ?p 20 = load_bytes (mem s) ?p 20"
      by (rule load_bytes_cong)
    have out: "m a = mem s a" if "\<not> inside a ?p (20 * Suc k)" for a
    proof -
      have "\<not> inside a (?p + 20) (20 * k)"
      proof
        assume "inside a (?p + 20) (20 * k)"
        then obtain j where j: "j < 20 * k" "a = ?p + 20 + of_nat j" by (rule insideE)
        then have "inside (?p + of_nat (20 + j)) ?p (20 * Suc k)"
          using Suc.prems(1) by (intro inside_offset) simp_all
        with j(2) that show False by (simp add: add.assoc)
      qed
      with m(3) show ?thesis by blast
    qed
    have "load_array 20 dec_entry m ?p (Suc k) = ?e # relocate ?xs"
      using m(2) head by simp
    also have "\<dots> = relocate xs"
      using no by (simp add: relocate_def xs split: option.split)
    finally show ?thesis
      using m(1) out no run by (intro exI [of _ m]) (simp add: xs split: option.split)
  qed
qed


text \<open>Room for a map with \<open>n\<close> entries of the file: above the stack and the DMA descriptor, below 1 MiB, and
  below the file directory.\<close>

definition e820_room :: "'d env \<Rightarrow> 'd machine \<Rightarrow> nat \<Rightarrow> bool" where
  "e820_room env s n \<longleftrightarrow> unat (dma_desc env) + 16 + (4 + 20 * (n + 5)) + 16 \<le> unat (malloc_top s) \<and>
     unat (malloc_top s) \<le> 2 ^ 20 \<and> unat (malloc_top s) \<le> unat (files s) \<and>
     unat (files s) + 64 * length (file_table s) \<le> 2 ^ 32"

lemma segment_of_aligned:
  assumes "unat p < 2 ^ 20" "unat p mod 16 = 0"
  shows "push_bit 4 (ucast (ucast (drop_bit 4 p) :: u16)) = (p :: u32)"
proof (rule bit_word_eqI)
  fix n assume n: "n < LENGTH(32)"
  have "4 \<le> n \<and> n < 20" if "bit p n"
  proof
    have "bit (unat p) n" using that by (simp add: bit_unsigned_iff)
    moreover have "unat p = take_bit 20 (unat p)" using assms(1) by (simp add: take_bit_eq_mod)
    ultimately show "n < 20" by (metis bit_take_bit_iff)
    have "take_bit 4 (unat p) = 0" using assms(2) by (simp add: take_bit_eq_mod)
    then show "4 \<le> n" using \<open>bit (unat p) n\<close> by (metis bit_0_eq bit_take_bit_iff bot_apply not_le_imp_less bot_bool_def)
  qed
  with n show "bit (push_bit 4 (ucast (ucast (drop_bit 4 p) :: u16)) :: u32) n = bit p n"
    by (auto simp: bit_simps)
qed

definition e820_block :: "nat \<Rightarrow> nat" where
  "e820_block n = 4 + 20 * (n + 5)"

lemma e820_block_bounds:
  assumes room: "e820_room env s n" and p: "malloc (of_nat (e820_block n)) s = Ret p s1"
  shows "unat p + e820_block n \<le> unat (malloc_top s)" "s1 = s\<lparr>malloc_top := p\<rparr>" "unat p mod 16 = 0"
    "unat (dma_desc env) + 16 \<le> unat p" "unat (malloc_top s) < unat p + e820_block n + 16"
proof -
  have n: "unat (of_nat (e820_block n) :: u32) = e820_block n"
    using room by (intro unat_of_nat_u32) (simp add: e820_room_def e820_block_def)
  have fits: "heap_fits (of_nat (e820_block n)) 16 s"
    using room unfolding heap_fits_def n by (simp add: e820_room_def e820_block_def)
  note b = malloc_align_bounds [OF fits p [unfolded malloc_def], unfolded n]
  show "unat p + e820_block n \<le> unat (malloc_top s)" "s1 = s\<lparr>malloc_top := p\<rparr>" "unat p mod 16 = 0"
    using b by simp_all
  show "unat (dma_desc env) + 16 \<le> unat p"
    using b(5) room by (simp add: e820_room_def e820_block_def)
  show "unat (malloc_top s) < unat p + e820_block n + 16" using b(5) by simp
qed


text \<open>The map before the file is read into it, and the bytes the block holds afterwards.\<close>

definition e820_head :: "bool \<Rightarrow> nat \<Rightarrow> u8 list" where
  "e820_head mmconfig n = le_bytes 4 (of_nat (n + 5) :: u32) @ concat (map enc_entry (fixed_entries mmconfig))"

definition e820_started :: "addr \<Rightarrow> nat \<Rightarrow> 'd machine \<Rightarrow> 'd machine" where
  "e820_started p n s = s\<lparr>mem := store_bytes (mem s) p (e820_head (have_mmconfig s) n), malloc_top := p, e820 := p\<rparr>"

definition e820_slot :: "bool \<Rightarrow> addr \<Rightarrow> addr" where
  "e820_slot mmconfig p = p + of_nat (4 + 20 * length (fixed_entries mmconfig))"

lemma length_e820_head: "length (e820_head mmconfig n) = 4 + 20 * length (fixed_entries mmconfig)"
  by (simp add: e820_head_def e820entry.length_concat_enc)

text \<open>The entries of the file, and what else the search for low memory looks at: without MMCONFIG the last
  entry of the map is not written.\<close>

definition e820_searched :: "bool \<Rightarrow> e820entry list \<Rightarrow> e820entry \<Rightarrow> e820entry list" where
  "e820_searched mmconfig es g = (if mmconfig then es else es @ [g])"

definition lowest_ram :: "u32 \<Rightarrow> e820entry list \<Rightarrow> u32" where
  "lowest_ram low xs = (case index_of starts_at_0 xs of None \<Rightarrow> low | Some j \<Rightarrow> ucast (entry_size (xs ! j)))"

lemma extract_e820_start:
  assumes fid: "fw_cfg_file_id (literal ''etc/e820'') s = of_nat i" and i: "i < length (file_table s)"
    and size: "file_size (file_table s ! i) = of_nat (20 * n)"
    and bound: "e820_block n < 2 ^ 32"
    and p: "malloc (of_nat (e820_block n)) s = Ret p (s\<lparr>malloc_top := p\<rparr>)"
  shows "extract_e820 env s =
    andthen (fw_cfg_read_file env (of_nat i) (e820_slot (have_mmconfig s) p) (of_nat (20 * n)))
    (andthen (bind get_state (\<lambda>s'. find_lowmem (length (fixed_entries (have_mmconfig s)))
       (unat (e820_nr_map s') - length (fixed_entries (have_mmconfig s)))))
    (update (\<lambda>s. s\<lparr>e820_seg := ucast (drop_bit 4 (e820 s))\<rparr>))) (e820_started p n s)"
proof -
  let ?mm = "have_mmconfig s" and ?size = "of_nat (20 * n) :: u32"
  let ?L = "length (fixed_entries ?mm)"
  have B: "e820_block n = 4 + 20 * (n + 5)" by (simp add: e820_block_def)
  then have "unat ?size = 20 * n" using bound by (intro unat_of_nat_u32) simp
  then have "unat (?size div 20) = n" by (simp only: unat_div) simp
  then have "?size div 20 = of_nat n"
    by (simp only: word_unat_eq_iff) (use bound B in \<open>simp add: unat_of_nat_u32\<close>)
  then have nr: "?size div 20 + 5 = of_nat (n + 5)" by simp
  have bytes: "4 + 20 * (of_nat (n + 5) :: u32) = of_nat (e820_block n)" by (simp add: B)
  have base: "fw_cfg_file_size (of_nat i) s = ?size" by (simp only: fw_cfg_file_size_entry [OF i] size)
  define s1 where "s1 = s\<lparr>malloc_top := p, e820 := p, mem := stl_p p (of_nat (n + 5)) (mem s)\<rparr>"
  have L: "?L = (if ?mm then 5 else 4)" by (simp add: length_fixed_entries)
  have "extract_e820 env s =
    (andthen (store_entry 0 0 (639 * 1024) E820_RAM)
    (andthen (store_entry 1 (639 * 1024) 1024 E820_RESERVED)
    (andthen (store_entry 2 0xd0000 (128 * 1024) E820_NVS)
    (andthen (store_entry 3 0xf0000 (64 * 1024) E820_RESERVED)
    (andthen (when_do ?mm (store_entry 4 PCIE_MMCONFIG_BASE PCIE_MMCONFIG_SIZE E820_RESERVED))
    (andthen (bind get_state (\<lambda>s. fw_cfg_read_file env (of_nat i) (e820_entry_at s (of_nat ?L)) ?size))
    (andthen (bind get_state (\<lambda>s. find_lowmem ?L (unat (e820_nr_map s) - ?L)))
    (update (\<lambda>s. s\<lparr>e820_seg := ucast (drop_bit 4 (e820 s))\<rparr>))))))))) s1"
    unfolding extract_e820_def Let_def bind_apply get_state_apply outcome.case fid
      if_not_P [OF file_id_not_minus_one [OF i]] base nr bytes p andthen_apply update_apply on_mem_apply L
    by (simp add: s1_def)
  also have "\<dots> = (andthen (bind get_state (\<lambda>s. fw_cfg_read_file env (of_nat i) (e820_entry_at s (of_nat ?L)) ?size))
      (andthen (bind get_state (\<lambda>s. find_lowmem ?L (unat (e820_nr_map s) - ?L)))
      (update (\<lambda>s. s\<lparr>e820_seg := ucast (drop_bit 4 (e820 s))\<rparr>)))) (e820_started p n s)"
    unfolding store_fixed_entries
    by (rule arg_cong) (simp add: s1_def e820_started_def e820_head_def store_bytes_append stl_p_def)
  finally show ?thesis by (simp add: prog_simps e820_entry_at_def e820_started_def e820_slot_def add.assoc)
qed

text \<open>What the finished block holds, whatever the transport did to the descriptor.\<close>

definition e820_image :: "bool \<Rightarrow> e820entry list \<Rightarrow> addr \<Rightarrow> mem \<Rightarrow> mem" where
  "e820_image mmconfig es p m = store_bytes (store_bytes m p (le_bytes 4 (of_nat (length es + 5) :: u32)))
     (p + 4) (concat (map enc_entry (fixed_entries mmconfig @ es)))"

lemma e820_image_parts:
  "store_bytes (store_bytes m p (e820_head mmconfig (length es))) (e820_slot mmconfig p) (concat (map enc_entry es))
     = e820_image mmconfig es p m"
  by (simp add: e820_image_def e820_slot_def e820_head_def store_bytes_append e820entry.length_concat_enc add.assoc)

lemma e820_image_outside:
  assumes "\<not> inside a p (e820_block (length es))" "e820_block (length es) < 2 ^ 20"
  shows "e820_image mmconfig es p m a = m a"
proof -
  let ?n = "20 * length (fixed_entries mmconfig @ es)"
  have B: "4 + ?n \<le> e820_block (length es)" "e820_block (length es) \<le> 2 ^ 32"
    using assms(2) by (simp_all add: length_fixed_entries e820_block_def)
  have "\<not> inside a (p + of_nat 4) ?n" "\<not> inside a (p + of_nat 0) 4"
    using inside_sub [OF _ B] inside_sub [of a p 0 4 "e820_block (length es)"] assms(1) B by auto
  then show ?thesis using B
    by (simp add: e820_image_def store_bytes_at e820entry.length_concat_enc)
qed

lemma e820_image_nr:
  assumes "e820_block (length es) < 2 ^ 20"
  shows "load_bytes (e820_image mmconfig es p m) p 4 = le_bytes 4 (of_nat (length es + 5) :: u32)"
  using assms unfolding e820_image_def
  by (subst load_store_apart)
     (simp_all add: e820_block_def apart_def e820entry.length_concat_enc load_store_same length_fixed_entries)

lemma e820_image_entries:
  assumes "e820_block (length es) < 2 ^ 20"
  shows "load_array 20 dec_entry (e820_image mmconfig es p m) (p + 4) (length es + 5) = fixed_entries mmconfig @
    e820_searched mmconfig es (dec_entry (load_bytes m (p + 4 + 20 * of_nat (length es + 4)) 20))"
proof -
  let ?m = "e820_image mmconfig es p m" and ?n = "length (fixed_entries mmconfig @ es)"
  have all: "load_array 20 dec_entry ?m (p + 4) ?n = fixed_entries mmconfig @ es"
    using assms unfolding e820_image_def
    by (intro e820entry.load_array_stored) (simp_all add: e820_block_def length_fixed_entries)
  show ?thesis
  proof (cases mmconfig)
    case True
    then have "length es + 5 = ?n" by (simp add: length_fixed_entries)
    with all True show ?thesis by (simp only:) (simp add: e820_searched_def)
  next
    case False
    then have n: "length es + 5 = ?n + 1" "?n = length es + 4" by (simp_all add: length_fixed_entries)
    have "load_bytes ?m (p + 4 + of_nat (20 * ?n)) 20 = load_bytes m (p + 4 + of_nat (20 * ?n)) 20"
    proof (rule load_bytes_cong)
      fix j :: nat assume j: "j < 20"
      let ?a = "p + 4 + of_nat (20 * ?n) + of_nat j"
      have a: "?a = p + 4 + of_nat (20 * ?n + j)" "?a = p + of_nat (4 + (20 * ?n + j))"
        by (simp_all add: add.assoc)
      have "20 * ?n + j < 2 ^ 32" "4 + (20 * ?n + j) < 2 ^ 32"
        using j assms n(2) by (simp_all add: e820_block_def)
      then have "\<not> inside (p + 4 + of_nat (20 * ?n + j)) (p + 4) (20 * ?n)"
        "\<not> inside (p + of_nat (4 + (20 * ?n + j))) p 4"
        by (simp_all only: inside_offset_iff)
      then have "\<not> inside ?a (p + 4) (20 * ?n)" "\<not> inside ?a p 4"
        by (simp_all only: a(1) [symmetric] a(2) [symmetric] not_False_eq_True)
      then show "?m ?a = m ?a"
        using assms by (simp add: e820_image_def e820_block_def store_bytes_at e820entry.length_concat_enc length_fixed_entries)
    qed
    with all False show ?thesis
      unfolding n load_array_append by (simp add: e820_searched_def algebra_simps)
  qed
qed

context fw_cfg_port
begin

lemma e820_read:
  fixes s :: "'d machine"
  assumes i: "i < length (file_table s)"
    and content: "entry_bytes E (file_select (file_table s ! i)) 0 (20 * length es) = concat (map enc_entry es)"
    and room: "e820_room env s (length es)"
    and p: "malloc (of_nat (e820_block (length es))) s = Ret p s1"
  shows "\<exists>m d. fw_cfg_read_file env (of_nat i) (e820_slot (have_mmconfig s) p) (of_nat (20 * length es))
      (e820_started p (length es) s) = Ret () (e820_started p (length es) s\<lparr>mem := m, dev := d\<rparr>) \<and>
    (\<forall>a. \<not> inside a (dma_desc env) 16 \<longrightarrow> m a = e820_image (have_mmconfig s) es p (mem s) a)"
proof -
  let ?B = "e820_block (length es)" and ?mm = "have_mmconfig s" and ?D = "dma_desc env"
  let ?s = "e820_started p (length es) s" and ?buf = "e820_slot ?mm p" and ?L = "length (fixed_entries ?mm)"
  have B: "?B = 4 + 20 * (length es + 5)" by (simp add: e820_block_def)
  have L: "4 \<le> ?L" "?L \<le> 5" by (simp_all add: length_fixed_entries)
  have top: "unat (malloc_top s) \<le> 2 ^ 20" "unat (malloc_top s) \<le> unat (files s)"
    "unat (files s) + 64 * length (file_table s) \<le> 2 ^ 32"
    using room by (simp_all add: e820_room_def)
  note b = e820_block_bounds [OF room p]
  have size: "unat (of_nat (20 * length es) :: u32) = 20 * length es"
    using B b(1) top(1) by (intro unat_of_nat_u32) simp
  have buf: "unat ?buf = unat p + (4 + 20 * ?L)"
    using b(1) top(1) B L unat_add_less [of p "of_nat (4 + 20 * ?L)"] unat_of_nat_u32 [of "4 + 20 * ?L"]
    by (simp add: e820_slot_def)
  have table: "file_table ?s = file_table s"
  proof (rule file_table_cong)
    fix a assume "inside a (files s) (64 * nat (sint (filecnt s)))"
    moreover have "apart p (length (e820_head ?mm (length es))) (files s) (64 * nat (sint (filecnt s)))"
      using top b(1) B L by (intro apart_interval) (simp_all add: length_e820_head file_table_def)
    ultimately show "mem ?s a = mem s a" by (simp add: e820_started_def store_bytes_apart)
  qed (use top(3) in \<open>simp_all add: e820_started_def file_table_def\<close>)
  have "apart ?D 16 ?buf (20 * length es)"
    using b(1,4) top(1) B L by (intro apart_interval; unfold buf) simp_all
  then have "apart ?buf (unat (of_nat (20 * length es) :: u32)) ?D 16" unfolding size by (simp add: apart_commute)
  from fw_cfg_read_file_delivers [of i ?s, unfolded table, OF i this, unfolded size content]
  obtain s3 where s3: "fw_cfg_read_file env (of_nat i) ?buf (of_nat (20 * length es)) ?s = Ret () s3"
    "delivered env ?buf (concat (map enc_entry es)) ?s s3" by blast
  obtain m d where "s3 = ?s\<lparr>mem := m, dev := d\<rparr>"
    "\<And>a. \<not> inside a ?D 16 \<Longrightarrow> m a = e820_image ?mm es p (mem s) a"
    using s3(2) by (rule deliveredE) (simp add: e820_started_def e820_image_parts)
  with s3(1) show ?thesis by auto
qed

lemma extract_e820_map:
  fixes s :: "'d machine"
  assumes fid: "fw_cfg_file_id (literal ''etc/e820'') s = of_nat i" and i: "i < length (file_table s)"
    and size: "file_size (file_table s ! i) = of_nat (20 * length es)"
    and content: "entry_bytes E (file_select (file_table s ! i)) 0 (20 * length es) = concat (map enc_entry es)"
    and room: "e820_room env s (length es)"
  shows "\<exists>p m d xs. extract_e820 env s = Ret () (s\<lparr>mem := m, dev := d, malloc_top := p,
      lowmem := lowest_ram (lowmem s) xs, e820 := p, e820_seg := ucast (drop_bit 4 p)\<rparr>) \<and>
    unat p + e820_block (length es) \<le> unat (malloc_top s) \<and> unat p mod 16 = 0 \<and>
    unat (dma_desc env) + 16 \<le> unat p \<and> ldl_p m p = of_nat (length es + 5) \<and>
    load_array 20 dec_entry m (p + 4) (length es + 5) = fixed_entries (have_mmconfig s) @ relocate xs \<and>
    xs = e820_searched (have_mmconfig s) es (dec_entry (load_bytes (mem s) (p + 4 + 20 * of_nat (length es + 4)) 20)) \<and>
    (\<forall>a. \<not> inside a (dma_desc env) 16 \<and> \<not> inside a p (e820_block (length es)) \<longrightarrow> m a = mem s a) \<and>
    unat (malloc_top s) < unat p + e820_block (length es) + 16"
proof -
  let ?n = "length es" and ?B = "e820_block (length es)" and ?mm = "have_mmconfig s" and ?D = "dma_desc env"
  let ?fixed = "fixed_entries ?mm" and ?im = "e820_image (have_mmconfig s) es"
  let ?L = "length ?fixed"
  have B: "?B = 4 + 20 * (?n + 5)" "?B < 2 ^ 20" "?B < 2 ^ 32"
    using room by (simp_all add: e820_block_def e820_room_def)
  obtain p s1 where p: "malloc (of_nat ?B) s = Ret p s1" by (simp add: malloc_def malloc_align_apply)
  note b = e820_block_bounds [OF room p]
  note start = extract_e820_start [OF fid i size B(3) p [unfolded b(2)]]
  from e820_read [OF i content room p] obtain m3 d3 where m3:
    "fw_cfg_read_file env (of_nat i) (e820_slot ?mm p) (of_nat (20 * ?n)) (e820_started p ?n s)
       = Ret () (e820_started p ?n s\<lparr>mem := m3, dev := d3\<rparr>)"
    "\<And>a. \<not> inside a ?D 16 \<Longrightarrow> m3 a = ?im p (mem s) a" by blast
  define xs where "xs = e820_searched ?mm es (dec_entry (load_bytes (mem s) (p + 4 + 20 * of_nat (?n + 4)) 20))"
  define k where "k = length xs"
  have k: "?L + k = ?n + 5" by (simp add: k_def xs_def e820_searched_def length_fixed_entries)
  have "apart ?D 16 p ?B"
    using b(1,4) room unat_bound [of "malloc_top s"] by (intro apart_interval) simp_all
  then have in_block: "m3 (p + of_nat j) = ?im p (mem s) (p + of_nat j)" if "j < ?B" for j
    using that by (intro m3(2)) (rule apart_not_inside)
  have "load_bytes m3 p 4 = load_bytes (?im p (mem s)) p 4"
    using B by (intro load_bytes_cong in_block) simp
  then have nr: "ldl_p m3 p = of_nat (?n + 5)"
    by (simp add: ldl_p_def e820_image_nr [OF B(2)] le_word_le_bytes)
  then have nr': "unat (ldl_p m3 p) = ?n + 5" using B by (simp only:) (intro unat_of_nat_u32, simp)
  have "load_array 20 dec_entry m3 (p + 4) (?n + 5) = load_array 20 dec_entry (?im p (mem s)) (p + 4) (?n + 5)"
  proof (rule load_array_cong)
    fix j assume "j < 20 * (?n + 5)"
    then have "4 + j < ?B" using B by simp
    from in_block [OF this] show "m3 (p + 4 + of_nat j) = ?im p (mem s) (p + 4 + of_nat j)" by (simp add: add.assoc)
  qed
  then have "load_array 20 dec_entry m3 (p + 4) (?L + k) = ?fixed @ xs"
    unfolding k xs_def by (simp only: e820_image_entries [OF B(2)])
  then have parts: "load_array 20 dec_entry m3 (p + 4) ?L = ?fixed"
    "load_array 20 dec_entry m3 (p + 4 + of_nat (20 * ?L)) k = xs"
    unfolding load_array_append by simp_all
  define s3 where "s3 = e820_started p ?n s\<lparr>mem := m3, dev := d3\<rparr>"
  have s3: "mem s3 = m3" "lowmem s3 = lowmem s" "e820_entry_at s3 (of_nat ?L) = p + 4 + of_nat (20 * ?L)"
    "unat (e820_nr_map s3) - ?L = k"
    using nr' k by (simp_all add: s3_def e820_started_def e820_entry_at_def e820_nr_map_def)
  have Lk: "20 * (?L + k) \<le> 2 ^ 32" using k B by simp
  from find_lowmem_result [OF Lk, of xs s3] obtain m where m:
    "find_lowmem ?L k s3 = Ret () (s3\<lparr>mem := m, lowmem := lowest_ram (lowmem s) xs\<rparr>)"
    "load_array 20 dec_entry m (p + 4 + of_nat (20 * ?L)) k = relocate xs"
    "\<And>a. \<not> inside a (p + 4 + of_nat (20 * ?L)) (20 * k) \<Longrightarrow> m a = m3 a"
    unfolding s3 lowest_ram_def using parts(2) by auto
  have tail: "p + 4 + of_nat (20 * ?L) = p + of_nat (4 + 20 * ?L)" by (simp add: add.assoc)
  have run: "extract_e820 env s = Ret () (s\<lparr>mem := m, dev := d3, malloc_top := p,
      lowmem := lowest_ram (lowmem s) xs, e820 := p, e820_seg := ucast (drop_bit 4 p)\<rparr>)"
    unfolding start andthen_apply m3(1) outcome.case bind_apply get_state_apply update_apply
    by (simp only: s3_def [symmetric] s3(4) m(1) outcome.case) (simp add: s3_def e820_started_def)
  have head: "m (p + of_nat j) = m3 (p + of_nat j)" if "j < 4 + 20 * ?L" for j
    using that k B apart_next [of "4 + 20 * ?L" "20 * k" p]
    by (intro m(3)) (unfold tail, rule apart_not_inside, simp_all)
  have "load_bytes m p 4 = load_bytes m3 p 4" by (intro load_bytes_cong head) simp
  then have nr_m: "ldl_p m p = of_nat (?n + 5)" using nr by (simp add: ldl_p_def)
  have "load_array 20 dec_entry m (p + 4) ?L = load_array 20 dec_entry m3 (p + 4) ?L"
    using head [of "4 + j" for j] by (intro load_array_cong) (simp add: add.assoc)
  then have final: "load_array 20 dec_entry m (p + 4) (?n + 5) = ?fixed @ relocate xs"
    unfolding k [symmetric] load_array_append m(2) parts(1) by simp
  have out: "m a = mem s a" if "\<not> inside a ?D 16" "\<not> inside a p ?B" for a
  proof -
    have sub: "4 + 20 * ?L + 20 * k \<le> ?B" using k B by simp
    have "\<not> inside a (p + of_nat (4 + 20 * ?L)) (20 * k)"
      using that(2) inside_sub [OF _ sub, of a p] B by auto
    then show ?thesis
      using m(3) [of a] m3(2) [OF that(1)] e820_image_outside [OF that(2) B(2)] by (simp add: add.assoc)
  qed
  show ?thesis
    using run b(1,3,4,5) nr_m final out xs_def
    by (intro exI [of _ p] exI [of _ m] exI [of _ d3] exI [of _ xs] conjI) simp_all
qed

end

section \<open>The interrupt vector table\<close>

text \<open>Where vector \<open>v\<close> points.\<close>

definition ivt :: "mem \<Rightarrow> nat \<Rightarrow> addr" where
  "ivt m v = segment_to_flat (lduw_p m (of_nat (4 * v) + 2)) (lduw_p m (of_nat (4 * v)))"

lemma set_realmode_int_store:
  "set_realmode_int (of_nat v) p m =
     store_bytes m (0 + of_nat (4 * v)) (le_bytes 2 (flat_to_off16 p) @ le_bytes 2 (flat_to_seg16 p))"
  by (simp add: set_realmode_int_def stw_p_def store_bytes_append)

lemma ivt_load: "load_bytes m (0 + of_nat (4 * v)) 4 = load_bytes m' (0 + of_nat (4 * v)) 4 \<Longrightarrow> ivt m v = ivt m' v"
  using load_bytes_append [of m "of_nat (4 * v)" 2 2] load_bytes_append [of m' "of_nat (4 * v)" 2 2]
  by (simp add: ivt_def lduw_p_def)

lemma ivt_set:
  assumes "v < 256" "w < 256" "unat p < 2 ^ 20"
  shows "ivt (set_realmode_int (of_nat v) p m) w = (if v = w then p else ivt m w)"
proof (cases "v = w")
  case True
  have "lduw_p (set_realmode_int (of_nat v) p m) (of_nat (4 * v)) = flat_to_off16 p"
    "lduw_p (set_realmode_int (of_nat v) p m) (of_nat (4 * v) + 2) = flat_to_seg16 p"
    by (simp_all add: set_realmode_int_def mem_simps apart_def)
  with True assms(3) show ?thesis by (simp add: ivt_def segment_round_trip)
next
  case False
  then have "apart (0 + of_nat (4 * v)) 4 (0 + of_nat (4 * w)) 4"
    using assms by (intro apart_elements [of v w 256]) simp_all
  then have "ivt (set_realmode_int (of_nat v) p m) w = ivt m w"
    unfolding set_realmode_int_store by (intro ivt_load load_store_apart) simp
  with False show ?thesis by simp
qed

lemma set_realmode_int_outside:
  assumes "v < 256" "1024 \<le> unat a"
  shows "set_realmode_int (of_nat v) p m a = m a"
proof -
  have "\<not> inside a (0 + of_nat (4 * v)) 4"
    using inside_sub [of a 0 "4 * v" 4 1024] assms by (auto simp: inside_def)
  then show ?thesis
    unfolding set_realmode_int_store by (intro store_bytes_outside [where n = 4]) simp_all
qed

lemma set_vectors:
  "for_each vs (\<lambda>i. on_mem (set_realmode_int (of_nat i) h)) s
     = Ret () (s\<lparr>mem := fold (\<lambda>i. set_realmode_int (of_nat i) h) vs (mem s)\<rparr>)"
  by (induction vs arbitrary: s) (simp_all add: prog_simps)

lemma ivt_set_vectors:
  assumes "\<forall>v \<in> set vs. v < 256" "unat h < 2 ^ 20" "w < 256"
  shows "ivt (fold (\<lambda>i. set_realmode_int (of_nat i) h) vs m) w = (if w \<in> set vs then h else ivt m w)"
  using assms by (induction vs arbitrary: m) (auto simp: ivt_set)

lemma set_vectors_outside:
  assumes "\<forall>v \<in> set vs. v < 256" "1024 \<le> unat a"
  shows "fold (\<lambda>i. set_realmode_int (of_nat i) h) vs m a = m a"
  using assms(1) by (induction vs arbitrary: m) (simp_all add: set_realmode_int_outside assms(2))

definition handler_of :: "'d env \<Rightarrow> nat \<Rightarrow> addr" where
  "handler_of env v = (if v = 0x10 then bios_int10 env else if v = 0x15 then bios_int15 env
     else if 8 \<le> v \<and> v < 16 \<or> 0x70 \<le> v \<and> v < 0x78 then bios_irq env else bios_intfake env)"

definition handlers_low :: "'d env \<Rightarrow> bool" where
  "handlers_low env \<longleftrightarrow> unat (bios_intfake env) < 2 ^ 20 \<and> unat (bios_irq env) < 2 ^ 20 \<and>
     unat (bios_int10 env) < 2 ^ 20 \<and> unat (bios_int15 env) < 2 ^ 20"

lemma setup_idt_table:
  assumes "handlers_low env"
  shows "\<exists>m. setup_idt env s = Ret () (s\<lparr>mem := m\<rparr>) \<and> (\<forall>v < 256. ivt m v = handler_of env v) \<and>
    (\<forall>a. 1024 \<le> unat a \<longrightarrow> m a = mem s a)"
proof -
  define m where "m = set_realmode_int (of_nat 0x15) (bios_int15 env) (set_realmode_int (of_nat 0x10) (bios_int10 env)
    (fold (\<lambda>i. set_realmode_int (of_nat i) (bios_irq env)) [0x70..<0x78]
    (fold (\<lambda>i. set_realmode_int (of_nat i) (bios_irq env)) [8..<16]
    (fold (\<lambda>i. set_realmode_int (of_nat i) (bios_intfake env)) [0..<0x100] (mem s)))))"
  have run: "setup_idt env s = Ret () (s\<lparr>mem := m\<rparr>)"
    unfolding setup_idt_def andthen_apply set_vectors outcome.case by (simp add: prog_simps m_def)
  have vec: "ivt m v = handler_of env v" if "v < 256" for v
    using assms that unfolding m_def handlers_low_def
    by (subst ivt_set, simp, simp, simp)+
       (auto simp: handler_of_def ivt_set_vectors simp del: upt_rec_numeral)
  have "m a = mem s a" if "1024 \<le> unat a" for a
    using that unfolding m_def
    by (subst set_realmode_int_outside, simp, simp)+ (simp add: set_vectors_outside del: upt_rec_numeral)
  with run vec show ?thesis by blast
qed

section \<open>The int 15h service and its caller\<close>

text \<open>Where the caller's buffer is, and what it takes for the service to find the map.\<close>

definition e820_buffer :: "biosregs \<Rightarrow> addr" where
  "e820_buffer regs = push_bit 4 (r_ds regs AND 0xffff) + edi regs"

definition e820_reachable :: "'d machine \<Rightarrow> bool" where
  "e820_reachable s \<longleftrightarrow> push_bit 4 (ucast (e820_seg s)) = e820 s \<and>
     4 + 20 * unat (e820_nr_map s) < 2 ^ 32"

lemma copy_entry_store:
  assumes "\<And>j. j < k \<Longrightarrow> \<not> inside (push_bit 4 (ucast seg) + start + of_nat (i + j)) p k" "k \<le> 2 ^ 32"
  shows "copy_entry seg start p i k m
    = store_bytes m p (load_bytes m (push_bit 4 (ucast seg) + start + of_nat i) k)"
  using assms
proof (induction k arbitrary: p i m)
  case (Suc k)
  let ?q = "push_bit 4 (ucast seg) + start"
  let ?m = "m(p := m (?q + of_nat i))"
  have out: "\<not> inside (?q + of_nat (Suc i + j)) (p + 1) k" "?q + of_nat (Suc i + j) \<noteq> p" if "j < k" for j
  proof -
    have "\<not> inside (?q + of_nat (i + Suc j)) p (Suc k)" using Suc.prems(1) [of "Suc j"] that by simp
    then show "\<not> inside (?q + of_nat (Suc i + j)) (p + 1) k" "?q + of_nat (Suc i + j) \<noteq> p"
      using inside_sub [of "?q + of_nat (Suc i + j)" p 1 k "Suc k"] Suc.prems(2) by (auto simp: inside_def)
  qed
  have "load_bytes ?m (?q + of_nat (Suc i)) k = load_bytes m (?q + of_nat (Suc i)) k"
    using out(2) by (intro load_bytes_cong) (simp add: algebra_simps)
  with Suc.IH [of "Suc i" "p + 1" ?m] out(1) Suc.prems(2) show ?case
    by (simp add: rdfs8_def algebra_simps del: fun_upd_apply)
qed simp

lemma e820_query_entry:
  assumes reach: "e820_reachable s" and i: "i < unat (e820_nr_map s)" "ebx regs = of_nat i"
    and apart: "apart (e820_buffer regs) 20 (e820 s) (4 + 20 * unat (e820_nr_map s))"
  shows "e820_query_map regs s = Ret (regs\<lparr>eax := SMAP, ecx := 20,
      ebx := if Suc i < unat (e820_nr_map s) then of_nat (Suc i) else 0\<rparr>)
    (s\<lparr>mem := store_bytes (mem s) (e820_buffer regs)
       (load_bytes (mem s) (e820 s + 4 + of_nat (20 * i)) 20)\<rparr>)"
proof -
  let ?n = "unat (e820_nr_map s)" and ?q = "e820 s + (4 + 20 * of_nat i)"
  have base: "push_bit 4 (ucast (e820_seg s)) = e820 s" and n: "4 + 20 * ?n < 2 ^ 32"
    using reach by (simp_all add: e820_reachable_def)
  have size: "rdfs32 (e820_seg s) 0 (mem s) = e820_nr_map s"
    by (simp add: rdfs32_def base e820_nr_map_def ldl_p_def)
  have idx: "unat (of_nat i :: u32) = i" "unat (of_nat (Suc i) :: u32) = Suc i"
    using i(1) unat_bound [of "e820_nr_map s"] by (simp_all add: unat_of_nat_u32 del: of_nat_Suc)
  have less: "of_nat i < e820_nr_map s" "e820_nr_map s \<le> 1 + of_nat i \<longleftrightarrow> \<not> Suc i < ?n"
    using i(1) idx by (simp_all add: word_less_nat_alt word_le_nat_alt not_less)
  have "copy_entry (e820_seg s) (4 + 20 * of_nat i) (e820_buffer regs) 0 20 (mem s)
      = store_bytes (mem s) (e820_buffer regs) (load_bytes (mem s) (?q + of_nat 0) 20)"
    unfolding base [symmetric]
  proof (rule copy_entry_store)
    fix j :: nat assume "j < 20"
    then have "4 + 20 * i + j < 4 + 20 * ?n" using i(1) by simp
    from apart_not_inside [OF apart this]
    show "\<not> inside (push_bit 4 (ucast (e820_seg s)) + (4 + 20 * of_nat i) + of_nat (0 + j)) (e820_buffer regs) 20"
      by (simp add: base algebra_simps)
  qed simp
  then show ?thesis
    using less by (simp add: e820_query_map_def prog_simps Let_def size i(2) e820_buffer_def algebra_simps)
qed

text \<open>
  How a boot loader reads the map: it calls the service with the continuation value of the last call,
  starting from 0, and takes an entry out of its buffer each time, until the continuation is 0 again.
  \<open>None\<close>: it gave up after \<open>k\<close> calls.
\<close>

primrec e820_walk :: "nat \<Rightarrow> biosregs \<Rightarrow> ('d, e820entry list option) fw" where
  "e820_walk 0 regs = ret None"
| "e820_walk (Suc k) regs =
     bind (int15_handler (regs\<lparr>eax := 0xe820\<rparr>)) (\<lambda>regs'.
     bind get_state (\<lambda>s. let e = dec_entry (load_bytes (mem s) (e820_buffer regs) 20) in
     if ebx regs' = 0 then ret (Some [e])
     else bind (e820_walk k regs') (\<lambda>es. ret (map_option ((#) e) es))))"

lemma e820_map_cong:
  assumes "e820 s' = e820 s" "e820_seg s' = e820_seg s" "4 + 20 * unat (e820_nr_map s) < 2 ^ 32"
    and "\<And>a. inside a (e820 s) (4 + 20 * unat (e820_nr_map s)) \<Longrightarrow> mem s' a = mem s a"
  shows "e820_nr_map s' = e820_nr_map s" "e820_map s' = e820_map s" "e820_reachable s' = e820_reachable s"
proof -
  let ?n = "unat (e820_nr_map s)"
  have at: "mem s' (e820 s + of_nat j) = mem s (e820 s + of_nat j)" if "j < 4 + 20 * ?n" for j
    using assms(3,4) that inside_offset by simp
  have "load_bytes (mem s') (e820 s) 4 = load_bytes (mem s) (e820 s) 4"
    by (intro load_bytes_cong at) simp
  then show nr: "e820_nr_map s' = e820_nr_map s" by (simp add: e820_nr_map_def assms(1) ldl_p_def)
  have "load_array 20 dec_entry (mem s') (e820 s + 4) ?n = load_array 20 dec_entry (mem s) (e820 s + 4) ?n"
    using at [of "4 + j" for j] by (intro load_array_cong) (simp add: add.assoc)
  with nr show "e820_map s' = e820_map s" by (simp add: e820_map_def assms(1))
  show "e820_reachable s' = e820_reachable s" by (simp add: e820_reachable_def nr assms(1,2))
qed

lemma e820_walk_from:
  assumes "e820_reachable s" "i < length (e820_map s)" "length (e820_map s) \<le> i + k" "ebx regs = of_nat i"
    and "apart (e820_buffer regs) 20 (e820 s) (4 + 20 * length (e820_map s))"
  shows "\<exists>m. e820_walk k regs s = Ret (Some (drop i (e820_map s))) (s\<lparr>mem := m\<rparr>) \<and>
    (\<forall>a. \<not> inside a (e820_buffer regs) 20 \<longrightarrow> m a = mem s a)"
  using assms
proof (induction k arbitrary: i regs s)
  case (Suc k)
  let ?n = "unat (e820_nr_map s)" and ?b = "e820_buffer regs"
  have n: "length (e820_map s) = ?n" by (simp add: e820_map_def)
  let ?bs = "load_bytes (mem s) (e820 s + 4 + of_nat (20 * i)) 20"
  let ?regs = "regs\<lparr>eax := SMAP, ecx := 20, ebx := if Suc i < ?n then of_nat (Suc i) else 0\<rparr>"
  define s' where "s' = s\<lparr>mem := store_bytes (mem s) ?b ?bs\<rparr>"
  have b: "e820_buffer (regs\<lparr>eax := 0xe820\<rparr>) = ?b" "e820_buffer ?regs = ?b" by (simp_all add: e820_buffer_def)
  have query: "int15_handler (regs\<lparr>eax := 0xe820\<rparr>) s = Ret ?regs s'"
    using e820_query_entry [of s i "regs\<lparr>eax := 0xe820\<rparr>"] Suc.prems unfolding n b
    by (simp add: int15_handler_def s'_def)
  have entry: "dec_entry (load_bytes (mem s') ?b 20) = e820_map s ! i"
    using Suc.prems(2) by (simp add: s'_def load_store_same e820_map_def nth_load_array mult.commute)
  have same: "e820_nr_map s' = e820_nr_map s" "e820_map s' = e820_map s" "e820_reachable s' = e820_reachable s"
  proof -
    have out: "mem s' a = mem s a" if "inside a (e820 s) (4 + 20 * ?n)" for a
      using Suc.prems(5) that unfolding n by (simp add: s'_def store_bytes_apart)
    have "e820 s' = e820 s" "e820_seg s' = e820_seg s" "4 + 20 * ?n < 2 ^ 32"
      using Suc.prems(1) by (simp_all add: s'_def e820_reachable_def)
    note cong = e820_map_cong [OF this out]
    show "e820_nr_map s' = e820_nr_map s" "e820_map s' = e820_map s" "e820_reachable s' = e820_reachable s"
      by (rule cong; assumption)+
  qed
  have first: "drop i (e820_map s) = e820_map s ! i # drop (Suc i) (e820_map s)"
    using Suc.prems(2) by (simp add: Cons_nth_drop_Suc)
  have rest: "mem s' a = mem s a" if "\<not> inside a ?b 20" for a
    using that by (simp add: s'_def store_bytes_outside [where n = 20])
  have walk: "e820_walk (Suc k) regs s = (if ebx ?regs = 0 then Ret (Some [e820_map s ! i]) s'
      else (bind (e820_walk k ?regs) (\<lambda>es. ret (map_option ((#) (e820_map s ! i)) es))) s')"
    by (simp add: prog_simps query entry Let_def)
  show ?case
  proof (cases "Suc i < ?n")
    case True
    have "of_nat (Suc i) \<noteq> (0 :: u32)"
      using True unat_bound [of "e820_nr_map s"] unat_of_nat_u32 [of "Suc i"] by (auto simp del: of_nat_Suc)
    moreover obtain m where "e820_walk k ?regs s' = Ret (Some (drop (Suc i) (e820_map s))) (s'\<lparr>mem := m\<rparr>)"
      "\<forall>a. \<not> inside a ?b 20 \<longrightarrow> m a = mem s' a"
      using Suc.IH [of s' "Suc i" ?regs] Suc.prems True unfolding n same b by (auto simp: s'_def)
    ultimately show ?thesis
      using walk True rest first by (intro exI [of _ m]) (simp add: prog_simps s'_def)
  next
    case False
    then show ?thesis
      using walk rest first n Suc.prems(2) by (intro exI [of _ "mem s'"]) (simp add: s'_def)
  qed
qed simp

section \<open>Properties\<close>

lemma extract_e820_effect:
  fixes s :: "'d machine"
  assumes "fw_cfg_device env sel off E"
    and "fw_cfg_file_id (literal ''etc/e820'') s = of_nat i" "i < length (file_table s)"
    and "file_size (file_table s ! i) = of_nat (20 * length es)"
    and "entry_bytes E (file_select (file_table s ! i)) 0 (20 * length es) = concat (map enc_entry es)"
    and "e820_room env s (length es)"
  shows "\<exists>s' xs. extract_e820 env s = Ret () s' \<and>
    xs = (if have_mmconfig s then es
          else es @ [dec_entry (load_bytes (mem s) (e820 s' + 4 + 20 * of_nat (length es + 4)) 20)]) \<and>
    e820_map s' = fixed_entries (have_mmconfig s) @ relocate xs \<and>
    lowmem s' = (case index_of starts_at_0 xs of None \<Rightarrow> lowmem s | Some j \<Rightarrow> ucast (entry_size (xs ! j))) \<and>
    e820 s' = malloc_top s' \<and> unat (malloc_top s') + e820_block (length es) \<le> unat (malloc_top s) \<and>
    e820_reachable s' \<and>
    (\<forall>a. \<not> inside a (dma_desc env) 16 \<and> \<not> inside a (e820 s') (e820_block (length es)) \<longrightarrow> mem s' a = mem s a) \<and>
    unat (malloc_top s) < unat (malloc_top s') + e820_block (length es) + 16 \<and>
    s' = s\<lparr>mem := mem s', dev := dev s', malloc_top := malloc_top s', lowmem := lowmem s', e820 := e820 s', e820_seg := e820_seg s'\<rparr>"
proof -
  let ?n = "length es" and ?mm = "have_mmconfig s"
  note port = fw_cfg_port.intro [OF assms(1)]
  obtain p m d xs where r: "extract_e820 env s = Ret () (s\<lparr>mem := m, dev := d, malloc_top := p,
      lowmem := lowest_ram (lowmem s) xs, e820 := p, e820_seg := ucast (drop_bit 4 p)\<rparr>)"
    "unat p + e820_block ?n \<le> unat (malloc_top s)" "unat p mod 16 = 0" "ldl_p m p = of_nat (?n + 5)"
    "load_array 20 dec_entry m (p + 4) (?n + 5) = fixed_entries ?mm @ relocate xs"
    "xs = e820_searched ?mm es (dec_entry (load_bytes (mem s) (p + 4 + 20 * of_nat (?n + 4)) 20))"
    "\<forall>a. \<not> inside a (dma_desc env) 16 \<and> \<not> inside a p (e820_block ?n) \<longrightarrow> m a = mem s a"
    "unat (malloc_top s) < unat p + e820_block ?n + 16"
    using fw_cfg_port.extract_e820_map [OF port assms(2-6)]
    by (elim exE conjE) (rule that; assumption)
  have bounds: "unat p < 2 ^ 20" "4 + 20 * (?n + 5) < 2 ^ 20"
    using r(2) assms(6) by (simp_all add: e820_room_def e820_block_def)
  then have nr: "unat (ldl_p m p) = ?n + 5" unfolding r(4) by (intro unat_of_nat_u32) simp
  let ?s = "s\<lparr>mem := m, dev := d, malloc_top := p, lowmem := lowest_ram (lowmem s) xs, e820 := p,
      e820_seg := ucast (drop_bit 4 p)\<rparr>"
  have "e820_map ?s = fixed_entries ?mm @ relocate xs" by (simp add: e820_map_def e820_nr_map_def nr r(5))
  moreover have "e820_reachable ?s"
    using bounds segment_of_aligned [OF bounds(1) r(3)] by (simp add: e820_reachable_def e820_nr_map_def nr)
  moreover have "xs = (if ?mm then es else es @ [dec_entry (load_bytes (mem s) (e820 ?s + 4 + 20 * of_nat (?n + 4)) 20)])"
    unfolding r(6) e820_searched_def by simp
  moreover have "lowmem ?s = (case index_of starts_at_0 xs of None \<Rightarrow> lowmem s | Some j \<Rightarrow> ucast (entry_size (xs ! j)))"
    by (simp add: lowest_ram_def)
  moreover have "e820 ?s = malloc_top ?s" "malloc_top ?s = p" "mem ?s = m" by simp_all
  ultimately show ?thesis
    using r(1,2,7,8) by (intro exI [of _ ?s] exI [of _ xs] conjI) (simp_all only:, simp)
qed

text \<open>
  C5: The E820 map. When the device offers the file etc/e820 with the entries \<open>es\<close>, \<open>extract_e820\<close> returns,
  and the map it leaves in memory consists of the firmware's own entries (low RAM, EBDA, ACPI, firmware and,
  on a machine with MMCONFIG, that window) followed by the entries of the file, in order, with the first one
  that starts at 0 moved up to 1 MiB and shortened by 1 MiB; \<open>lowmem\<close> is the size that entry had. The map
  lies in a fresh block of the heap whose segment \<open>e820_seg\<close> names, and nothing else in memory changes but
  the DMA descriptor on the stack. Without MMCONFIG the map counts one entry more than was written, so the
  entry at its end is whatever the memory held.
\<close>

theorem extract_e820_builds_map:
  fixes s :: "'d machine"
  assumes "fw_cfg_device env sel off E"
    and "fw_cfg_file_id (literal ''etc/e820'') s = of_nat i" "i < length (file_table s)"
    and "file_size (file_table s ! i) = of_nat (20 * length es)"
    and "entry_bytes E (file_select (file_table s ! i)) 0 (20 * length es) = concat (map enc_entry es)"
    and "e820_room env s (length es)"
  shows "\<exists>s' xs. extract_e820 env s = Ret () s' \<and>
    xs = (if have_mmconfig s then es
          else es @ [dec_entry (load_bytes (mem s) (e820 s' + 4 + 20 * of_nat (length es + 4)) 20)]) \<and>
    e820_map s' = fixed_entries (have_mmconfig s) @ relocate xs \<and>
    lowmem s' = (case index_of starts_at_0 xs of None \<Rightarrow> lowmem s | Some j \<Rightarrow> ucast (entry_size (xs ! j))) \<and>
    e820 s' = malloc_top s' \<and> unat (malloc_top s') + e820_block (length es) \<le> unat (malloc_top s) \<and>
    e820_reachable s' \<and>
    (\<forall>a. \<not> inside a (dma_desc env) 16 \<and> \<not> inside a (e820 s') (e820_block (length es)) \<longrightarrow> mem s' a = mem s a)"
  by (rule ex_forward [OF extract_e820_effect [OF assms]], erule ex_forward, elim conjE, intro conjI; assumption)

definition demo_ram :: e820entry where
  "demo_ram = \<lparr>entry_addr = 0, entry_size = 0x8000000, entry_type = E820_RAM\<rparr>"

definition demo_e820 :: "(string \<times> u8 list) list" where
  "demo_e820 = [(''etc/e820'', concat (map enc_entry [demo_ram]))]"

lemma demo_e820_good: "good_files demo_e820"
  by (simp add: good_files_def demo_e820_def chars_def enc_entry_def)

theorem extract_e820_builds_map_witness:
  "\<exists>s'. extract_e820 (ref_env (contents demo_e820)) (loaded_machine demo_e820) = Ret () s' \<and>
     take 5 (e820_map s') = fixed_entries False @ [above_1M demo_ram] \<and> lowmem s' = 0x8000000"
proof -
  let ?s = "loaded_machine demo_e820"
  have s: "have_mmconfig ?s = False" "malloc_top ?s = 0xf0000" "files ?s = 0xf8000"
    by (simp_all add: loaded_machine_def boot_machine_def)
  have table: "file_table ?s = make_dir demo_e820" by (rule loaded_file_table [OF demo_e820_good])
  have k: "0 < length demo_e820" "length (snd (demo_e820 ! 0)) = 20" by (simp_all add: demo_e820_def)
  note entry = make_dir_entry [OF demo_e820_good k(1), unfolded k(2)]
  have id: "fw_cfg_file_id (literal ''etc/e820'') ?s = of_nat 0"
    by (rule loaded_file_id [OF demo_e820_good k(1)]) (simp_all add: demo_e820_def)
  have i: "0 < length (file_table ?s)" using k by (simp add: table)
  have size: "file_size (file_table ?s ! 0) = of_nat (20 * length [demo_ram])" by (simp add: table entry)
  have bytes: "entry_bytes (contents demo_e820) (file_select (file_table ?s ! 0)) 0 (20 * length [demo_ram])
      = concat (map enc_entry [demo_ram])"
    using entry(2) by (simp add: table) (simp add: demo_e820_def)
  have room: "e820_room (ref_env (contents demo_e820)) ?s (length [demo_ram])"
    by (simp add: e820_room_def s table) (simp add: demo_e820_def)
  show ?thesis
    using extract_e820_builds_map [OF ref_device id i size bytes room]
    by (auto simp: s relocate_def starts_at_0_def demo_ram_def length_fixed_entries)
qed

text \<open>
  C6: A boot loader that reads the map through int 15h, function 0xe820, starting with continuation 0 and
  going on until the continuation is 0 again, gets exactly the entries of the map, in order, in as many calls
  as there are entries; the service writes nothing but the caller's 20-byte buffer.
\<close>

theorem e820_service_returns_map:
  assumes "e820_reachable s" "e820_map s \<noteq> []" "length (e820_map s) \<le> k" "ebx regs = 0"
    and "apart (e820_buffer regs) 20 (e820 s) (4 + 20 * length (e820_map s))"
  shows "\<exists>m. e820_walk k regs s = Ret (Some (e820_map s)) (s\<lparr>mem := m\<rparr>) \<and>
    (\<forall>a. \<not> inside a (e820_buffer regs) 20 \<longrightarrow> m a = mem s a)"
  using e820_walk_from [of s 0 k regs] assms by simp

definition demo_map :: "platform machine" where
  "demo_map = (boot_machine (store_bytes (\<lambda>_. 0) 0x90000 (le_bytes 4 (2 :: u32) @ enc_entry demo_ram @ enc_entry demo_ram)))
     \<lparr>e820 := 0x90000, e820_seg := 0x9000\<rparr>"

definition demo_regs :: biosregs where
  "demo_regs = \<lparr>eax = 0, ebx = 0, ecx = 20, edx = SMAP, esp = 0, ebp = 0, esi = 0, edi = 0x100,
     r_ds = 0x1000, r_es = 0x1000, r_fs = 0, r_ip = 0, r_cs = 0, eflags = 0\<rparr>"

lemma demo_map_entries:
  "e820 demo_map = 0x90000" "e820_seg demo_map = 0x9000" "e820_nr_map demo_map = 2" "e820_map demo_map = [demo_ram, demo_ram]"
proof -
  let ?m = "store_bytes (\<lambda>_. 0) 0x90000 (le_bytes 4 (2 :: u32) @ concat (map enc_entry [demo_ram, demo_ram]))"
  have m: "mem demo_map = ?m" by (simp add: demo_map_def boot_machine_def)
  have e: "e820 demo_map = 0x90000" "e820_seg demo_map = 0x9000" by (simp_all add: demo_map_def)
  have "load_bytes ?m 0x90000 4 = le_bytes 4 (2 :: u32)"
    unfolding store_bytes_append
    by (subst load_store_apart) (simp_all add: apart_def load_store_same e820entry.length_concat_enc del: store_bytes.simps)
  then have nr: "e820_nr_map demo_map = 2"
    by (simp add: e820_nr_map_def m e ldl_p_def le_word_le_bytes del: le_bytes.simps store_bytes.simps)
  have "load_array 20 dec_entry ?m (0x90000 + 4) (length [demo_ram, demo_ram]) = [demo_ram, demo_ram]"
    unfolding store_bytes_append
    by (simp only: length_le_bytes of_nat_numeral) (intro e820entry.load_array_stored, simp_all)
  then have map: "e820_map demo_map = [demo_ram, demo_ram]"
  proof -
    have "unat (2 :: u32) = length [demo_ram, demo_ram]" by simp
    then show ?thesis using \<open>load_array 20 dec_entry ?m (0x90000 + 4) _ = _\<close>
      by (simp only: e820_map_def nr m e)
  qed
  with nr e show "e820 demo_map = 0x90000" "e820_seg demo_map = 0x9000" "e820_nr_map demo_map = 2"
    "e820_map demo_map = [demo_ram, demo_ram]" by simp_all
qed

theorem e820_service_returns_map_witness:
  "\<exists>m. e820_walk 2 demo_regs demo_map = Ret (Some [demo_ram, demo_ram]) (demo_map\<lparr>mem := m\<rparr>)"
proof -
  note demo = demo_map_entries
  have "e820_reachable demo_map" by (simp add: e820_reachable_def demo)
  moreover have "apart (e820_buffer demo_regs) 20 (e820 demo_map) (4 + 20 * length (e820_map demo_map))"
    by (simp add: e820_buffer_def demo_regs_def demo apart_def)
  ultimately show ?thesis
    using e820_service_returns_map [of demo_map 2 demo_regs] unfolding demo by (auto simp: demo_regs_def)
qed

text \<open>
  C11: \<open>setup_idt\<close> fills the whole real-mode interrupt vector table: each of the 256 vectors, read the way the
  processor reads it (segment and offset), is the address of the handler the code means it to have, and memory
  above the table does not change.
\<close>

theorem setup_idt_vectors:
  assumes "handlers_low env"
  shows "\<exists>m. setup_idt env s = Ret () (s\<lparr>mem := m\<rparr>) \<and> (\<forall>v < 256. ivt m v = handler_of env v) \<and>
    (\<forall>a. 1024 \<le> unat a \<longrightarrow> m a = mem s a)"
  by (rule setup_idt_table [OF assms])

theorem setup_idt_vectors_witness:
  "\<exists>m. setup_idt (ref_env (contents [])) (boot_machine (\<lambda>_. 0)) = Ret () (boot_machine (\<lambda>_. 0)\<lparr>mem := m\<rparr>) \<and>
     ivt m 0x10 = 0xf1030 \<and> ivt m 0x15 = 0xf1040 \<and> ivt m 0x70 = 0xf1020 \<and> ivt m 0x21 = 0xf1010"
proof -
  have "handlers_low (ref_env (contents []))" by (simp add: handlers_low_def)
  from setup_idt_vectors [OF this, of "boot_machine (\<lambda>_. 0)"] obtain m where
    "setup_idt (ref_env (contents [])) (boot_machine (\<lambda>_. 0)) = Ret () (boot_machine (\<lambda>_. 0)\<lparr>mem := m\<rparr>)"
    "\<forall>v < 256. ivt m v = handler_of (ref_env (contents [])) v" by blast
  then show ?thesis by (intro exI [of _ m]) (simp add: handler_of_def)
qed

section \<open>The services\<close>

lemma copy_entry_outside:
  "\<not> inside a p (k + j) \<Longrightarrow> k + j \<le> 2 ^ 32 \<Longrightarrow> copy_entry seg start (p + of_nat j) i k m a = m a"
proof (induction k arbitrary: i j m)
  case (Suc k)
  have "a \<noteq> p + of_nat j" using Suc.prems inside_offset [of j "Suc k + j" p] by auto
  moreover have "copy_entry seg start (p + of_nat (Suc j)) (Suc i) k (m(p + of_nat j := rdfs8 seg (start + of_nat i) m)) a
      = (m(p + of_nat j := rdfs8 seg (start + of_nat i) m)) a"
    by (rule Suc.IH) (use Suc.prems in simp_all)
  ultimately show ?case by (simp add: algebra_simps)
qed simp

lemma byte_fields:
  "(ucast (drop_bit 8 (x AND 0xff00)) :: u8) = ucast (drop_bit 8 (x :: u32))" "(ucast (x AND 0xff) :: u8) = ucast x"
proof -
  have high: "(0xff00 :: u32) = push_bit 8 (mask 8)" and low: "(0xff :: u32) = mask 8" by (simp_all add: mask_eq_exp_minus_1)
  show "(ucast (drop_bit 8 (x AND 0xff00)) :: u8) = ucast (drop_bit 8 x)" "(ucast (x AND 0xff) :: u8) = ucast x"
    unfolding high low by (rule bit_word_eqI; auto simp: bit_simps)+
qed

text \<open>
  C37: Every call of the real-mode services returns. int 15h answers function 0xe820 with the signature, the size
  of an entry and a continuation, and anything else with the carry flag; only eax, ebx, ecx and the flags of the
  caller change, only the 20 bytes of its buffer are written, and a continuation beyond the map writes nothing
  and ends the iteration. int 10h writes al to the serial port 0x3f8 for ah = 0x0e and keeps every register, reports
  failure in eax for the VESA calls, ah = 0x4f, and does nothing for another function; but for what the device
  behind the serial port does, it changes no memory and no variable.
\<close>

theorem services_answer:
  "(\<exists>r s'. int15_handler a s = Ret r s' \<and> s'\<lparr>mem := mem s\<rparr> = s \<and>
     (\<forall>x. \<not> inside x (e820_buffer a) 20 \<longrightarrow> mem s' x = mem s x) \<and>
     r\<lparr>eax := eax a, ebx := ebx a, ecx := ecx a, eflags := eflags a\<rparr> = a \<and>
     (if eax a = 0xe820
      then eax r = SMAP \<and> ecx r = 20 \<and> eflags r = eflags a \<and>
        (rdfs32 (e820_seg s) 0 (mem s) \<le> ebx a \<longrightarrow> ebx r = 0 \<and> s' = s)
      else r = a\<lparr>eflags := eflags a OR 1\<rparr> \<and> s' = s)) \<and>
   (let ah = ucast (drop_bit 8 (eax a)) :: u8; al = ucast (eax a); (m, d) = io_outb env 0x3f8 al (mem s, dev s) in
    int10_handler env a s =
      (if ah = 0x0e then Ret a (s\<lparr>mem := m, dev := d\<rparr>) else if ah = 0x4f then Ret (a\<lparr>eax := 0x14f\<rparr>) s else Ret a s))"
proof (intro conjI)
  let ?n = "rdfs32 (e820_seg s) 0 (mem s)"
  show "\<exists>r s'. int15_handler a s = Ret r s' \<and> s'\<lparr>mem := mem s\<rparr> = s \<and>
     (\<forall>x. \<not> inside x (e820_buffer a) 20 \<longrightarrow> mem s' x = mem s x) \<and>
     r\<lparr>eax := eax a, ebx := ebx a, ecx := ecx a, eflags := eflags a\<rparr> = a \<and>
     (if eax a = 0xe820
      then eax r = SMAP \<and> ecx r = 20 \<and> eflags r = eflags a \<and> (?n \<le> ebx a \<longrightarrow> ebx r = 0 \<and> s' = s)
      else r = a\<lparr>eflags := eflags a OR 1\<rparr> \<and> s' = s)"
  proof (cases "eax a = 0xe820")
    case False
    then show ?thesis by (simp add: int15_handler_def)
  next
    case True
    have over: "?n \<le> ebx a + 1 \<or> ebx a + 1 = 0" if "?n \<le> ebx a"
      using that by unat_arith
    define m where "m = (if ebx a < ?n then copy_entry (e820_seg s) (4 + 20 * ebx a) (e820_buffer a) 0 20 (mem s) else mem s)"
    have out: "m x = mem s x" if "\<not> inside x (e820_buffer a) 20" for x
      using copy_entry_outside [of x "e820_buffer a" 20 0 "e820_seg s"] that by (simp add: m_def)
    let ?r = "a\<lparr>eax := SMAP, ecx := 20, ebx := if ?n \<le> ebx a + 1 then 0 else ebx a + 1\<rparr>"
    have "int15_handler a s = Ret ?r (s\<lparr>mem := m\<rparr>)"
      using True by (simp add: int15_handler_def e820_query_map_def prog_simps Let_def e820_buffer_def m_def)
    then show ?thesis using True out over
      by (intro exI [of _ ?r] exI [of _ "s\<lparr>mem := m\<rparr>"]) (auto simp: m_def not_less)
  qed
next
  show "let ah = ucast (drop_bit 8 (eax a)) :: u8; al = ucast (eax a); (m, d) = io_outb env 0x3f8 al (mem s, dev s) in
    int10_handler env a s =
      (if ah = 0x0e then Ret a (s\<lparr>mem := m, dev := d\<rparr>) else if ah = 0x4f then Ret (a\<lparr>eax := 0x14f\<rparr>) s else Ret a s)"
    by (auto simp: int10_handler_def Let_def int10_vesa_def int10_putchar_def prog_simps outb_def byte_fields split: prod.split)
qed

theorem services_answer_witness:
  "(\<exists>r. int15_handler (demo_regs\<lparr>eax := 0xe820, ebx := 7\<rparr>) demo_map = Ret r demo_map \<and> ebx r = 0 \<and> eax r = SMAP) \<and>
   int10_handler (ref_env (\<lambda>_ _. 0)) (demo_regs\<lparr>eax := 0x4f00\<rparr>) demo_map = Ret (demo_regs\<lparr>eax := 0x14f\<rparr>) demo_map"
proof -
  have "rdfs32 (e820_seg demo_map) 0 (mem demo_map) = e820_nr_map demo_map"
    by (simp add: rdfs32_def e820_nr_map_def ldl_p_def demo_map_entries)
  then have "rdfs32 (e820_seg demo_map) 0 (mem demo_map) = 2" by (simp add: demo_map_entries)
  then show ?thesis
    using services_answer [of "demo_regs\<lparr>eax := 0xe820, ebx := 7\<rparr>" demo_map "ref_env (\<lambda>_ _. 0)"]
      services_answer [of "demo_regs\<lparr>eax := 0x4f00\<rparr>" demo_map "ref_env (\<lambda>_ _. 0)"]
    by (auto simp: Let_def split: prod.splits)
qed

end
