(* ===== verification/Linuxboot.thy ===== *)
theory Linuxboot
  imports E820
begin

text \<open>
  linuxboot.c: the boot protocol of the bzImage format. \<open>parse_bzimage\<close> reads the real-mode header that
  the device delivered, decides where everything goes, and writes its answers into the header.
\<close>

record linuxboot_args =
  setup_addr :: addr
  cmdline_addr :: addr
  kernel_addr :: addr
  initrd_addr :: addr
  setup_size :: u32
  kernel_size :: u32
  cmdline_size :: u32
  vmlinuz_size :: u32
  initrd_size :: u32

text \<open>\<open>None\<close>: no bzImage. The top of low memory is the variable \<open>lowmem\<close> of main.c.\<close>

definition parse_bzimage :: "u32 \<Rightarrow> linuxboot_args \<Rightarrow> mem \<Rightarrow> (linuxboot_args \<times> mem) option" where
  "parse_bzimage low args m =
     (let header = setup_addr args in
      if ldl_p m (header + 0x202) \<noteq> 0x53726448 then None
      else let protocol = lduw_p m (header + 0x206);
        (real_addr, cmdline, prot_addr) =
          (if protocol < 0x200 \<or> m (header + 0x211) AND 0x01 = 0
           then (0x90000, (0x9a000 - cmdline_size args) AND NOT 15, 0x10000)
           else if protocol < 0x202
           then (0x90000, (0x9a000 - cmdline_size args) AND NOT 15, 0x100000)
           else (0x10000, 0x20000, 0x100000));
        initrd_max = (if protocol \<ge> 0x203 then ldl_p m (header + 0x22c) else 0x37ffffff);
        initrd_max = (if initrd_max > low - 1 then low - 1 else initrd_max);
        m = (if protocol \<ge> 0x202 then stl_p (header + 0x228) cmdline m
             else stw_p (header + 0x22) (ucast (cmdline - real_addr)) (stw_p (header + 0x20) 0xA33F m));
        m = (if protocol \<ge> 0x200 then m(header + 0x210 := 0xB0) else m);
        m = (if protocol \<ge> 0x201
             then stw_p (header + 0x224) (ucast (cmdline - real_addr - 0x200))
                    (m(header + 0x211 := m (header + 0x211) OR 0x80))
             else m);
        initrd = (if initrd_size args \<noteq> 0 then (initrd_max - initrd_size args) AND NOT 4095 else 0);
        m = stl_p (header + 0x21c) (initrd_size args) (stl_p (header + 0x218) initrd m);
        sects = ucast (m (header + 0x1f1));
        sects = (if sects = 0 then 4 else sects)
      in Some (args\<lparr>setup_size := (sects + 1) * 512, kernel_size := vmlinuz_size args - sects,
           initrd_addr := initrd, kernel_addr := prot_addr, cmdline_addr := cmdline\<rparr>, m))"

text \<open>The 16-bit trampoline takes the segment of the setup code in bx and its stack pointer in dx.\<close>

definition boot_bzimage :: "linuxboot_args \<Rightarrow> ('d, 'a) fw" where
  "boot_bzimage args s =
     Handoff (Jump16 (ucast (drop_bit 4 (setup_addr args))) (cmdline_addr args - setup_addr args - 16)) s"

lemma load_upd_apart [mem_simps]:
  "apart q 1 p 2 \<Longrightarrow> lduw_p (m(q := v)) p = lduw_p m p"
  "apart q 1 p 4 \<Longrightarrow> ldl_p (m(q := v)) p = ldl_p m p"
  using lduw_store_apart(1) [of q "[v]" p m] ldl_store_apart(1) [of q "[v]" p m] by simp_all

lemma store_at_outside [mem_simps]:
  "apart q 2 a 1 \<Longrightarrow> stw_p q w m a = m a"
  "apart q 4 a 1 \<Longrightarrow> stl_p q x m a = m a"
  using load_store_apart [of q "le_bytes 2 w" a 1 m] load_store_apart [of q "le_bytes 4 x" a 1 m]
  by (simp_all add: stw_p_def stl_p_def)

text \<open>The initrd goes as high as it may: page-aligned, its end at or below the limit.\<close>

lemma page_below:
  assumes "unat n \<le> unat limit"
  shows "unat ((limit - n) AND NOT 4095 :: u32) mod 4096 = 0"
    and "unat ((limit - n) AND NOT 4095 :: u32) + unat n \<le> unat limit"
    and "unat limit < unat ((limit - n) AND NOT 4095 :: u32) + unat n + 4096"
proof -
  have pow: "power_of_two 4096" unfolding power_of_two_def by (rule exI [of _ 12]) simp
  have mask: "(NOT 4095 :: u32) = - 4096" by (simp add: not_eq_complement)
  have "unat (limit - n) = unat limit - unat n" using assms by (rule unat_sub_le)
  with round_down_aligned [OF pow, of "limit - n"] round_down_le [OF pow, of "limit - n"]
    round_down_close [OF pow, of "limit - n"] assms
  show "unat ((limit - n) AND NOT 4095 :: u32) mod 4096 = 0"
    "unat ((limit - n) AND NOT 4095 :: u32) + unat n \<le> unat limit"
    "unat limit < unat ((limit - n) AND NOT 4095 :: u32) + unat n + 4096"
    unfolding mask by simp_all
qed

definition bzimage :: "mem \<Rightarrow> addr \<Rightarrow> bool" where
  "bzimage m header \<longleftrightarrow> ldl_p m (header + 0x202) = 0x53726448"

definition initrd_limit :: "u32 \<Rightarrow> addr \<Rightarrow> mem \<Rightarrow> u32" where
  "initrd_limit low header m =
     min (if lduw_p m (header + 0x206) \<ge> 0x203 then ldl_p m (header + 0x22c) else 0x37ffffff) (low - 1)"

definition setup_sectors :: "addr \<Rightarrow> mem \<Rightarrow> u32" where
  "setup_sectors header m = (let n = ucast (m (header + 0x1f1)) in if n = 0 then 4 else n)"

definition loads_high :: "addr \<Rightarrow> mem \<Rightarrow> bool" where
  "loads_high header m \<longleftrightarrow> lduw_p m (header + 0x206) \<ge> 0x200 \<and> m (header + 0x211) AND 1 \<noteq> 0"

text \<open>Where things go, by the protocol the header announces.\<close>

definition placed :: "u32 \<Rightarrow> linuxboot_args \<Rightarrow> mem \<Rightarrow> linuxboot_args" where
  "placed low args m = (let header = setup_addr args in
     args\<lparr>setup_size := (setup_sectors header m + 1) * 512,
       kernel_size := vmlinuz_size args - setup_sectors header m,
       initrd_addr := (if initrd_size args = 0 then 0 else (initrd_limit low header m - initrd_size args) AND NOT 4095),
       kernel_addr := (if loads_high header m then 0x100000 else 0x10000),
       cmdline_addr := (if loads_high header m \<and> lduw_p m (header + 0x206) \<ge> 0x202 then 0x20000
         else (0x9a000 - cmdline_size args) AND NOT 15)\<rparr>)"

lemma header_outside:
  assumes "\<not> inside a h 0x22c"
  shows "stl_p (h + 0x228) w m a = m a" "stw_p (h + 0x20) x m a = m a" "stw_p (h + 0x22) x m a = m a"
    "(m(h + 0x210 := v)) a = m a" "(m(h + 0x211 := v)) a = m a" "stw_p (h + 0x224) x m a = m a"
    "stl_p (h + 0x218) w m a = m a" "stl_p (h + 0x21c) w m a = m a"
proof -
  have out: "\<not> inside a (h + of_nat i) k" if "i + k \<le> 0x22c" for i k
    using inside_sub [OF _ that] assms by auto
  show "stl_p (h + 0x228) w m a = m a" using out [of "0x228" 4] by (simp add: stl_p_at)
  show "stw_p (h + 0x20) x m a = m a" using out [of "0x20" 2] by (simp add: stw_p_at)
  show "stw_p (h + 0x22) x m a = m a" using out [of "0x22" 2] by (simp add: stw_p_at)
  show "(m(h + 0x210 := v)) a = m a" using out [of "0x210" 1] by (auto simp: inside_def)
  show "(m(h + 0x211 := v)) a = m a" using out [of "0x211" 1] by (auto simp: inside_def)
  show "stw_p (h + 0x224) x m a = m a" using out [of "0x224" 2] by (simp add: stw_p_at)
  show "stl_p (h + 0x218) w m a = m a" using out [of "0x218" 4] by (simp add: stl_p_at)
  show "stl_p (h + 0x21c) w m a = m a" using out [of "0x21c" 4] by (simp add: stl_p_at)
qed

text \<open>The writes to the header, by which of them the protocol has, and the header as the kernel finds it.\<close>

definition answer :: "bool \<Rightarrow> bool \<Rightarrow> bool \<Rightarrow> u32 \<Rightarrow> u32 \<Rightarrow> u32 \<Rightarrow> u32 \<Rightarrow> addr \<Rightarrow> mem \<Rightarrow> mem" where
  "answer v200 v201 v202 cmdline base initrd n h m =
     (let m = (if v202 then stl_p (h + 0x228) cmdline m
               else stw_p (h + 0x22) (ucast (cmdline - base)) (stw_p (h + 0x20) 0xA33F m));
          m = (if v200 then m(h + 0x210 := 0xB0) else m);
          m = (if v201 then stw_p (h + 0x224) (ucast (cmdline - base - 0x200)) (m(h + 0x211 := m (h + 0x211) OR 0x80))
               else m)
      in stl_p (h + 0x21c) n (stl_p (h + 0x218) initrd m))"

lemma answer_fields:
  assumes "m' = answer v200 v201 v202 cmdline base initrd n h m"
  shows "ldl_p m' (h + 0x218) = initrd" "ldl_p m' (h + 0x21c) = n" "m' (h + 0x1f1) = m (h + 0x1f1)"
    "v200 \<longrightarrow> m' (h + 0x210) = 0xB0"
    "v201 \<longrightarrow> m' (h + 0x211) = m (h + 0x211) OR 0x80 \<and> lduw_p m' (h + 0x224) = ucast (cmdline - base - 0x200)"
    "if v202 then ldl_p m' (h + 0x228) = cmdline
     else lduw_p m' (h + 0x20) = 0xA33F \<and> lduw_p m' (h + 0x22) = ucast (cmdline - base)"
  unfolding assms answer_def Let_def
  by (cases v200; cases v201; cases v202; simp add: mem_simps apart_def)+

lemma answer_outside: "\<not> inside a h 0x22c \<Longrightarrow> answer v200 v201 v202 cmdline base initrd n h m a = m a"
  by (simp add: answer_def Let_def header_outside del: fun_upd_apply)

definition real_mode_base :: "addr \<Rightarrow> mem \<Rightarrow> u32" where
  "real_mode_base header m =
     (if loads_high header m \<and> lduw_p m (header + 0x206) \<ge> 0x202 then 0x10000 else 0x90000)"

lemma parse_bzimage_result:
  "parse_bzimage low args m = (if bzimage m (setup_addr args) then Some (placed low args m,
      (let h = setup_addr args; p = lduw_p m (h + 0x206); args = placed low args m in
       answer (p \<ge> 0x200) (p \<ge> 0x201) (p \<ge> 0x202) (cmdline_addr args) (real_mode_base h m) (initrd_addr args) (initrd_size args) h m))
    else None)"
proof (cases "bzimage m (setup_addr args)")
  case True
  let ?h = "setup_addr args" and ?p = "lduw_p m (setup_addr args + 0x206)"
  have lim: "(if (if ?p \<ge> 0x203 then ldl_p m (?h + 0x22c) else 0x37ffffff) > low - 1 then low - 1
      else (if ?p \<ge> 0x203 then ldl_p m (?h + 0x22c) else 0x37ffffff)) = initrd_limit low ?h m"
    by (auto simp: initrd_limit_def min_def)
  have layout: "(if ?p < 0x200 \<or> m (?h + 0x211) AND 0x01 = 0 then (0x90000, (0x9a000 - cmdline_size args) AND NOT 15, 0x10000)
      else if ?p < 0x202 then (0x90000, (0x9a000 - cmdline_size args) AND NOT 15, 0x100000)
      else (0x10000, 0x20000, 0x100000))
    = (real_mode_base ?h m, cmdline_addr (placed low args m), kernel_addr (placed low args m))"
    by (auto simp: real_mode_base_def placed_def Let_def loads_high_def)
  show ?thesis
    using True unfolding parse_bzimage_def bzimage_def
    by (simp only: Let_def layout lim if_False not_not simp_thms split_conv answer_def
        answer_fields(3) [OF refl, unfolded answer_def Let_def])
       (simp add: placed_def setup_sectors_def Let_def)
qed (simp add: parse_bzimage_def bzimage_def)

section \<open>Properties\<close>

lemma low_cmdline:
  assumes "unat n \<le> 0xa000"
  shows "unat ((0x9a000 - n) AND NOT 15 :: u32) mod 16 = 0 \<and> unat ((0x9a000 - n) AND NOT 15 :: u32) + unat n \<le> 0x9a000 \<and>
    0x90000 \<le> unat ((0x9a000 - n) AND NOT 15 :: u32)"
proof -
  have mask: "(NOT 15 :: u32) = - 16" by (simp add: not_eq_complement)
  have d: "unat (0x9a000 - n) = 0x9a000 - unat n" using unat_sub_le [of n "0x9a000"] assms by simp
  have "unat ((0x9a000 - n) AND - 16) = 16 * ((0x9a000 - unat n) div 16)"
    using unat_round_down [OF power_of_two_16, of "0x9a000 - n"] by (simp add: d)
  moreover have "0x90000 div 16 \<le> (0x9a000 - unat n) div 16" using assms by (intro div_le_mono) simp
  moreover have "16 * ((0x9a000 - unat n) div 16) \<le> 0x9a000 - unat n" by simp
  ultimately show ?thesis using assms unfolding mask by simp
qed

text \<open>
  C12: Where a bzImage goes. \<open>parse_bzimage\<close> accepts exactly the headers with the HdrS signature. For those, in
  every version of the protocol: an initrd that fits ends at or below both the limit the kernel states and the top of
  low memory, starts on a page boundary and lies as high as possible; the command line is at 0x20000 for recent
  kernels, and otherwise ends below 0x9a000, above the setup code at 0x90000; the kernel goes to 1 MiB when it may;
  the setup code has 512 bytes more than its sectors; and only the first 0x22c bytes of the setup code are written.
\<close>

theorem bzimage_placement:
  fixes args :: linuxboot_args and m :: mem
  defines "h \<equiv> setup_addr args"
  assumes "parse_bzimage low args m = Some (args', m')"
    and "unat (initrd_size args) \<le> unat (initrd_limit low h m)" and "unat (cmdline_size args) \<le> 0xa000"
  shows "bzimage m h \<and>
    (initrd_size args \<noteq> 0 \<longrightarrow> unat (initrd_addr args') mod 4096 = 0 \<and>
      unat (initrd_addr args') + unat (initrd_size args) \<le> unat (initrd_limit low h m) \<and>
      unat (initrd_limit low h m) < unat (initrd_addr args') + unat (initrd_size args) + 4096) \<and>
    (if loads_high h m \<and> lduw_p m (h + 0x206) \<ge> 0x202 then cmdline_addr args' = 0x20000
     else unat (cmdline_addr args') mod 16 = 0 \<and> 0x90000 \<le> unat (cmdline_addr args') \<and>
       unat (cmdline_addr args') + unat (cmdline_size args) \<le> 0x9a000) \<and>
    kernel_addr args' = (if loads_high h m then 0x100000 else 0x10000) \<and>
    setup_size args' = 512 * setup_sectors h m + 512 \<and>
    (\<forall>a. \<not> inside a h 0x22c \<longrightarrow> m' a = m a)"
proof -
  have r: "bzimage m h" "args' = placed low args m" "\<forall>a. \<not> inside a h 0x22c \<longrightarrow> m' a = m a"
    using assms(2) by (auto simp: parse_bzimage_result h_def Let_def answer_outside split: if_splits)
  have f: "initrd_size args \<noteq> 0 \<longrightarrow> initrd_addr args' = (initrd_limit low h m - initrd_size args) AND NOT 4095"
    "cmdline_addr args' = (if loads_high h m \<and> lduw_p m (h + 0x206) \<ge> 0x202 then 0x20000
       else (0x9a000 - cmdline_size args) AND NOT 15)"
    "kernel_addr args' = (if loads_high h m then 0x100000 else 0x10000)"
    "setup_size args' = 512 * setup_sectors h m + 512"
    by (simp_all add: r(2) placed_def h_def Let_def algebra_simps)
  show ?thesis
    using r(1,3) page_below [OF assms(3)] low_cmdline [OF assms(4)] unfolding f(2,3,4) using f(1) by simp
qed

definition demo_kernel :: mem where
  "demo_kernel = stl_p 0x1022c 0x37ffffff (stw_p 0x10206 0x20c (stl_p 0x10202 0x53726448 ((\<lambda>_. 0)(0x10211 := 1))))"

definition demo_args :: linuxboot_args where
  "demo_args = \<lparr>setup_addr = 0x10000, cmdline_addr = 0, kernel_addr = 0, initrd_addr = 0, setup_size = 0,
     kernel_size = 0, cmdline_size = 100, vmlinuz_size = 0x100000, initrd_size = 0x12345\<rparr>"

lemma demo_kernel_fields:
  "ldl_p demo_kernel 0x10202 = 0x53726448" "lduw_p demo_kernel 0x10206 = 0x20c" "demo_kernel 0x10211 = 1"
  "ldl_p demo_kernel 0x1022c = 0x37ffffff"
  by (simp_all add: demo_kernel_def mem_simps apart_def)

lemma demo_kernel_header:
  "bzimage demo_kernel 0x10000" "initrd_limit 0x8000000 0x10000 demo_kernel = 0x7ffffff"
  "loads_high 0x10000 demo_kernel"
  by (simp_all add: bzimage_def initrd_limit_def loads_high_def demo_kernel_fields min_def)

theorem bzimage_placement_witness:
  "\<exists>args' m'. parse_bzimage 0x8000000 demo_args demo_kernel = Some (args', m') \<and>
     kernel_addr args' = 0x100000 \<and> cmdline_addr args' = 0x20000 \<and>
     unat (initrd_addr args') + 0x12345 \<le> 0x7ffffff"
proof -
  obtain args' m' where p: "parse_bzimage 0x8000000 demo_args demo_kernel = Some (args', m')"
    using parse_bzimage_result [of "0x8000000" demo_args demo_kernel] demo_kernel_header by (simp add: demo_args_def)
  show ?thesis
    using bzimage_placement [OF p] p by (simp add: demo_args_def demo_kernel_header demo_kernel_fields)
qed

end
