(* ===== verification/Boot.thy ===== *)
theory Boot
  imports Linuxboot
begin

text \<open>
  The second half of fw_cfg.c: booting what the device offers, as a bzImage, as a PVH kernel or as a
  multiboot kernel. Every path but one ends in a hand-over or a panic.
\<close>

abbreviation (input) XEN_HVM_START_MAGIC_VALUE where "XEN_HVM_START_MAGIC_VALUE \<equiv> 0x336ec578"
abbreviation (input) HEADER_PEEK_SIZE where "HEADER_PEEK_SIZE \<equiv> 8192"

definition read_select :: "'d env \<Rightarrow> u16 \<Rightarrow> ('d, u32) fw" where
  "read_select env e = andthen (fw_cfg_select env e) (fw_cfg_readl_le env)"

section \<open>Multiboot\<close>

text \<open>Offsets in \<open>struct mb_info\<close>: mem_lower 4, mem_upper 8, mmap_length 44, mmap_addr 48. An entry of the
  memory map has 24 bytes: size, base_addr, length, type.\<close>

definition mb_entry :: "addr \<Rightarrow> nat \<Rightarrow> ('d, unit) fw" where
  "mb_entry mb i =
     bind get_state (\<lambda>s. let mbmem = ldl_p (mem s) (mb + 48) + ldl_p (mem s) (mb + 44) in
     andthen (on_mem (stl_p mbmem 20))
     (andthen (on_mem (\<lambda>m. stq_p (mbmem + 4) (ldq_p m (e820_entry_at s (of_nat i))) m))
     (andthen (on_mem (\<lambda>m. stq_p (mbmem + 12) (ldq_p m (e820_entry_at s (of_nat i) + 8)) m))
     (andthen (on_mem (\<lambda>m. stl_p (mbmem + 20) (ldl_p m (e820_entry_at s (of_nat i) + 16)) m))
     (on_mem (\<lambda>m. stl_p (mb + 44) (ldl_p m (mb + 44) + 24) m))))))"

definition boot_multiboot_from_fw_cfg :: "'d env \<Rightarrow> ('d, unit) fw" where
  "boot_multiboot_from_fw_cfg env =
     bind (read_select env FW_CFG_KERNEL_SIZE) (\<lambda>sz.
     if sz = 0 then panic
     else bind (read_select env FW_CFG_KERNEL_ADDR) (\<lambda>kernel.
     andthen (fw_cfg_read_entry env FW_CFG_KERNEL_DATA kernel sz)
     (bind (read_select env FW_CFG_INITRD_SIZE) (\<lambda>sz.
     if sz = 0 then panic
     else bind (read_select env FW_CFG_INITRD_ADDR) (\<lambda>mb.
     andthen (fw_cfg_read_entry env FW_CFG_INITRD_DATA mb sz)
     (andthen (on_mem (stl_p (mb + 4) 639))
     (andthen (bind get_state (\<lambda>s. on_mem (stl_p (mb + 8) (drop_bit 10 (lowmem s - 1048576)))))
     (andthen (on_mem (stl_p (mb + 44) 0))
     (andthen (for_below (\<lambda>s. unat (e820_nr_map s)) (mb_entry mb))
     (bind (read_select env FW_CFG_KERNEL_ENTRY) (\<lambda>kernel_entry s.
     Handoff (Jump32 0x2badb002 mb kernel_entry) s)))))))))))"

section \<open>PVH\<close>

text \<open>Offsets in \<open>struct hvm_start_info\<close>: magic 0, version 4, flags 8, nr_modules 12, modlist_paddr 16,
  cmdline_paddr 24, rsdp_paddr 32, memmap_paddr 40, memmap_entries 48, reserved 52. An entry of its memory
  map has 24 bytes: addr, size, type, reserved.\<close>

definition pvh_entry :: "addr \<Rightarrow> nat \<Rightarrow> ('d, unit) fw" where
  "pvh_entry p i =
     bind get_state (\<lambda>s. let q = p + 24 * of_nat i; e = e820_entry_at s (of_nat i) in
     andthen (on_mem (\<lambda>m. stq_p q (ldq_p m e) m))
     (andthen (on_mem (\<lambda>m. stq_p (q + 8) (ldq_p m (e + 8)) m))
     (on_mem (\<lambda>m. stl_p (q + 16) (ldl_p m (e + 16)) m))))"

definition pvh_e820_setup :: "'d env \<Rightarrow> ('d, unit) fw" where
  "pvh_e820_setup env =
     bind get_state (\<lambda>s. let sz = 24 * e820_nr_map s in
     bind (malloc sz) (\<lambda>p.
     andthen (on_mem (memset p 0 sz))
     (andthen (for_below (\<lambda>s. unat (e820_nr_map s)) (pvh_entry p))
     (andthen (on_mem (stq_p (start_info env + 40) (ucast p)))
     (bind get_state (\<lambda>s. on_mem (stl_p (start_info env + 48) (e820_nr_map s))))))))"

text \<open>The initrd, as the one module. Offsets in \<open>struct hvm_modlist_entry\<close>: paddr 0, size 8; the others are not set.\<close>

definition pvh_ramdisk :: "'d env \<Rightarrow> u32 \<Rightarrow> ('d, unit) fw" where
  "pvh_ramdisk env initrd_sz =
     bind (read_select env FW_CFG_INITRD_ADDR) (\<lambda>initrd.
     andthen (fw_cfg_read_entry env FW_CFG_INITRD_DATA initrd initrd_sz)
     (andthen (on_mem (stq_p (ramdisk_mod env) (ucast initrd)))
     (andthen (on_mem (stq_p (ramdisk_mod env + 8) (ucast initrd_sz)))
     (andthen (on_mem (stq_p (start_info env + 16) (ucast (ramdisk_mod env))))
     (on_mem (stl_p (start_info env + 12) 1))))))"

definition boot_pvh_from_fw_cfg :: "'d env \<Rightarrow> ('d, unit) fw" where
  "boot_pvh_from_fw_cfg env =
     andthen (on_mem (stl_p (start_info env) XEN_HVM_START_MAGIC_VALUE))
     (andthen (on_mem (stl_p (start_info env + 4) 1))
     (andthen (on_mem (stl_p (start_info env + 8) 0))
     (andthen (on_mem (stl_p (start_info env + 12) 0))
     (andthen (on_mem (stl_p (start_info env + 52) 0))
     (bind (read_select env FW_CFG_CMDLINE_SIZE) (\<lambda>cmdline_sz.
     bind (malloc cmdline_sz) (\<lambda>cmdline.
     andthen (fw_cfg_read_entry env FW_CFG_CMDLINE_DATA cmdline cmdline_sz)
     (andthen (on_mem (stq_p (start_info env + 24) (ucast cmdline)))
     (bind (read_select env FW_CFG_INITRD_SIZE) (\<lambda>initrd_sz.
     andthen (when_do (initrd_sz \<noteq> 0) (pvh_ramdisk env initrd_sz))
     (andthen (pvh_e820_setup env)
     (bind (read_select env FW_CFG_KERNEL_SIZE) (\<lambda>sz.
     if sz = 0 then panic
     else bind (read_select env FW_CFG_KERNEL_ENTRY) (\<lambda>kernel_entry s.
       Handoff (Jump32 0x2badb002 (start_info env) kernel_entry) s))))))))))))))"

section \<open>Choosing the protocol\<close>

text \<open>
  The fields of \<open>args\<close> that are not read from the device are set by \<open>parse_bzimage\<close> before they are used.
\<close>

definition load_bzimage :: "'d env \<Rightarrow> u32 \<Rightarrow> linuxboot_args \<Rightarrow> ('d, unit) fw" where
  "load_bzimage env kernel_sz args =
     andthen (when_do (setup_size args > HEADER_PEEK_SIZE)
       (fw_cfg_read env (setup_addr args + HEADER_PEEK_SIZE) (setup_size args - HEADER_PEEK_SIZE)))
     (andthen (fw_cfg_select env FW_CFG_KERNEL_DATA)
     (andthen (fw_cfg_read_entry env FW_CFG_KERNEL_DATA (kernel_addr args) kernel_sz)
     (andthen (fw_cfg_read_entry env FW_CFG_CMDLINE_DATA (cmdline_addr args) (cmdline_size args))
     (andthen (when_do (initrd_size args \<noteq> 0)
       (fw_cfg_read_entry env FW_CFG_INITRD_DATA (initrd_addr args) (initrd_size args)))
     (boot_bzimage args)))))"

definition boot_kernel :: "'d env \<Rightarrow> u32 \<Rightarrow> linuxboot_args \<Rightarrow> ('d, unit) fw" where
  "boot_kernel env kernel_sz args =
     andthen (fw_cfg_select env FW_CFG_SETUP_DATA)
     (andthen (fw_cfg_read env (setup_addr args) HEADER_PEEK_SIZE)
     (bind get_state (\<lambda>s.
     case parse_bzimage (lowmem s) args (mem s) of
       None \<Rightarrow> andthen (when_do (ldl_p (mem s) (setup_addr args) = 0x464c457f) (boot_pvh_from_fw_cfg env))
                 (boot_multiboot_from_fw_cfg env)
     | Some (args, m) \<Rightarrow> andthen (on_mem (\<lambda>_. m)) (load_bzimage env kernel_sz args))))"

definition boot_from_fwcfg :: "'d env \<Rightarrow> ('d, unit) fw" where
  "boot_from_fwcfg env =
     bind (read_select env FW_CFG_CMDLINE_SIZE) (\<lambda>cmdline_sz.
     bind (read_select env FW_CFG_INITRD_SIZE) (\<lambda>initrd_sz.
     bind (read_select env FW_CFG_KERNEL_SIZE) (\<lambda>kernel_sz.
     bind (read_select env FW_CFG_SETUP_SIZE) (\<lambda>setup_sz.
     bind (read_select env FW_CFG_SETUP_ADDR) (\<lambda>setup.
     let args = \<lparr>setup_addr = setup, cmdline_addr = 0, kernel_addr = 0, initrd_addr = 0, setup_size = 0,
       kernel_size = 0, cmdline_size = cmdline_sz, vmlinuz_size = kernel_sz + setup_sz, initrd_size = initrd_sz\<rparr> in
     if vmlinuz_size args = 0 then ret () else boot_kernel env kernel_sz args)))))"

end
