(* ===== verification/Structs.thy ===== *)
theory Structs
  imports Memory
begin

text \<open>
  The packed structures that the firmware hands to an operating system, as the headers under include/
  declare them: the MP tables, the PVH start information, the multiboot information. Each struct is a
  record with the fields in their order, the bytes it has in memory, and the reading of those bytes; arrays of
  char are lists of bytes. Every pair is a \<open>codec\<close>, of the size that \<open>sizeof\<close> gives.
\<close>

section \<open>include/mpspec_def.h\<close>

text \<open>The floating pointer structure: 16 bytes, one paragraph.\<close>

record mpf_intel =
  mpf_signature :: "u8 list"
  mpf_physptr :: u32
  mpf_length :: u8
  mpf_specification :: u8
  mpf_checksum :: u8
  mpf_feature1 :: u8
  mpf_feature2 :: u8
  mpf_feature3 :: u8
  mpf_feature4 :: u8
  mpf_feature5 :: u8

definition enc_mpf :: "mpf_intel \<Rightarrow> u8 list" where
  "enc_mpf x = mpf_signature x @ le_bytes 4 (mpf_physptr x) @
     [mpf_length x, mpf_specification x, mpf_checksum x, mpf_feature1 x, mpf_feature2 x, mpf_feature3 x, mpf_feature4 x, mpf_feature5 x]"

definition dec_mpf :: "u8 list \<Rightarrow> mpf_intel" where
  "dec_mpf bs = \<lparr>mpf_signature = take 4 bs, mpf_physptr = le_word (take 4 (drop 4 bs)),
     mpf_length = bs ! 8, mpf_specification = bs ! 9, mpf_checksum = bs ! 10, mpf_feature1 = bs ! 11,
     mpf_feature2 = bs ! 12, mpf_feature3 = bs ! 13, mpf_feature4 = bs ! 14, mpf_feature5 = bs ! 15\<rparr>"

interpretation mpf_intel_struct: codec 16 "\<lambda>x. length (mpf_signature x) = 4" enc_mpf dec_mpf
  by unfold_locales (auto simp: enc_mpf_def dec_mpf_def le_word_le_bytes nth_append)

text \<open>The header of the configuration table.\<close>

record mpc_table =
  mpc_signature :: "u8 list"
  mpc_length :: u16
  mpc_spec :: u8
  mpc_checksum :: u8
  mpc_oem :: "u8 list"
  mpc_productid :: "u8 list"
  mpc_oemptr :: u32
  mpc_oemsize :: u16
  mpc_oemcount :: u16
  mpc_lapic :: u32
  mpc_reserved :: u32

definition enc_mpc :: "mpc_table \<Rightarrow> u8 list" where
  "enc_mpc x = mpc_signature x @ le_bytes 2 (mpc_length x) @ [mpc_spec x, mpc_checksum x] @ mpc_oem x @
     mpc_productid x @ le_bytes 4 (mpc_oemptr x) @ le_bytes 2 (mpc_oemsize x) @ le_bytes 2 (mpc_oemcount x) @
     le_bytes 4 (mpc_lapic x) @ le_bytes 4 (mpc_reserved x)"

definition dec_mpc :: "u8 list \<Rightarrow> mpc_table" where
  "dec_mpc bs = \<lparr>mpc_signature = take 4 bs, mpc_length = le_word (take 2 (drop 4 bs)),
     mpc_spec = bs ! 6, mpc_checksum = bs ! 7, mpc_oem = take 8 (drop 8 bs),
     mpc_productid = take 12 (drop 16 bs), mpc_oemptr = le_word (take 4 (drop 28 bs)),
     mpc_oemsize = le_word (take 2 (drop 32 bs)), mpc_oemcount = le_word (take 2 (drop 34 bs)),
     mpc_lapic = le_word (take 4 (drop 36 bs)), mpc_reserved = le_word (take 4 (drop 40 bs))\<rparr>"

interpretation mpc_table_struct: codec 44 "\<lambda>x. length (mpc_signature x) = 4 \<and> length (mpc_oem x) = 8 \<and> length (mpc_productid x) = 12" enc_mpc dec_mpc
  by unfold_locales (auto simp: enc_mpc_def dec_mpc_def le_word_le_bytes nth_append)

text \<open>Its entries.\<close>

record mpc_cpu =
  cpu_type :: u8
  cpu_apicid :: u8
  cpu_apicver :: u8
  cpu_cpuflag :: u8
  cpu_cpufeature :: u32
  cpu_featureflag :: u32
  cpu_reserved_0 :: u32
  cpu_reserved_1 :: u32

definition enc_cpu :: "mpc_cpu \<Rightarrow> u8 list" where
  "enc_cpu x = [cpu_type x, cpu_apicid x, cpu_apicver x, cpu_cpuflag x] @ le_bytes 4 (cpu_cpufeature x) @
     le_bytes 4 (cpu_featureflag x) @ le_bytes 4 (cpu_reserved_0 x) @ le_bytes 4 (cpu_reserved_1 x)"

definition dec_cpu :: "u8 list \<Rightarrow> mpc_cpu" where
  "dec_cpu bs = \<lparr>cpu_type = bs ! 0, cpu_apicid = bs ! 1, cpu_apicver = bs ! 2, cpu_cpuflag = bs ! 3,
     cpu_cpufeature = le_word (take 4 (drop 4 bs)), cpu_featureflag = le_word (take 4 (drop 8 bs)),
     cpu_reserved_0 = le_word (take 4 (drop 12 bs)), cpu_reserved_1 = le_word (take 4 (drop 16 bs))\<rparr>"

interpretation mpc_cpu_struct: codec 20 "\<lambda>_. True" enc_cpu dec_cpu
  by unfold_locales (auto simp: enc_cpu_def dec_cpu_def le_word_le_bytes nth_append)

record mpc_bus =
  bus_type :: u8
  bus_busid :: u8
  bus_bustype :: "u8 list"

definition enc_bus :: "mpc_bus \<Rightarrow> u8 list" where
  "enc_bus x = [bus_type x, bus_busid x] @ bus_bustype x"

definition dec_bus :: "u8 list \<Rightarrow> mpc_bus" where
  "dec_bus bs = \<lparr>bus_type = bs ! 0, bus_busid = bs ! 1, bus_bustype = take 6 (drop 2 bs)\<rparr>"

interpretation mpc_bus_struct: codec 8 "\<lambda>x. length (bus_bustype x) = 6" enc_bus dec_bus
  by unfold_locales (auto simp: enc_bus_def dec_bus_def le_word_le_bytes nth_append)

record mpc_ioapic =
  ioapic_type :: u8
  ioapic_apicid :: u8
  ioapic_apicver :: u8
  ioapic_flags :: u8
  ioapic_apicaddr :: u32

definition enc_ioapic :: "mpc_ioapic \<Rightarrow> u8 list" where
  "enc_ioapic x = [ioapic_type x, ioapic_apicid x, ioapic_apicver x, ioapic_flags x] @
     le_bytes 4 (ioapic_apicaddr x)"

definition dec_ioapic :: "u8 list \<Rightarrow> mpc_ioapic" where
  "dec_ioapic bs = \<lparr>ioapic_type = bs ! 0, ioapic_apicid = bs ! 1, ioapic_apicver = bs ! 2,
     ioapic_flags = bs ! 3, ioapic_apicaddr = le_word (take 4 (drop 4 bs))\<rparr>"

interpretation mpc_ioapic_struct: codec 8 "\<lambda>_. True" enc_ioapic dec_ioapic
  by unfold_locales (auto simp: enc_ioapic_def dec_ioapic_def le_word_le_bytes nth_append)

record mpc_intsrc =
  intsrc_type :: u8
  intsrc_irqtype :: u8
  intsrc_irqflag :: u16
  intsrc_srcbus :: u8
  intsrc_srcbusirq :: u8
  intsrc_dstapic :: u8
  intsrc_dstirq :: u8

definition enc_intsrc :: "mpc_intsrc \<Rightarrow> u8 list" where
  "enc_intsrc x = [intsrc_type x, intsrc_irqtype x] @ le_bytes 2 (intsrc_irqflag x) @
     [intsrc_srcbus x, intsrc_srcbusirq x, intsrc_dstapic x, intsrc_dstirq x]"

definition dec_intsrc :: "u8 list \<Rightarrow> mpc_intsrc" where
  "dec_intsrc bs = \<lparr>intsrc_type = bs ! 0, intsrc_irqtype = bs ! 1,
     intsrc_irqflag = le_word (take 2 (drop 2 bs)), intsrc_srcbus = bs ! 4, intsrc_srcbusirq = bs ! 5,
     intsrc_dstapic = bs ! 6, intsrc_dstirq = bs ! 7\<rparr>"

interpretation mpc_intsrc_struct: codec 8 "\<lambda>_. True" enc_intsrc dec_intsrc
  by unfold_locales (auto simp: enc_intsrc_def dec_intsrc_def le_word_le_bytes nth_append)

record mpc_lintsrc =
  lintsrc_type :: u8
  lintsrc_irqtype :: u8
  lintsrc_irqflag :: u16
  lintsrc_srcbusid :: u8
  lintsrc_srcbusirq :: u8
  lintsrc_destapic :: u8
  lintsrc_destapiclint :: u8

definition enc_lintsrc :: "mpc_lintsrc \<Rightarrow> u8 list" where
  "enc_lintsrc x = [lintsrc_type x, lintsrc_irqtype x] @ le_bytes 2 (lintsrc_irqflag x) @
     [lintsrc_srcbusid x, lintsrc_srcbusirq x, lintsrc_destapic x, lintsrc_destapiclint x]"

definition dec_lintsrc :: "u8 list \<Rightarrow> mpc_lintsrc" where
  "dec_lintsrc bs = \<lparr>lintsrc_type = bs ! 0, lintsrc_irqtype = bs ! 1,
     lintsrc_irqflag = le_word (take 2 (drop 2 bs)), lintsrc_srcbusid = bs ! 4, lintsrc_srcbusirq = bs ! 5,
     lintsrc_destapic = bs ! 6, lintsrc_destapiclint = bs ! 7\<rparr>"

interpretation mpc_lintsrc_struct: codec 8 "\<lambda>_. True" enc_lintsrc dec_lintsrc
  by unfold_locales (auto simp: enc_lintsrc_def dec_lintsrc_def le_word_le_bytes nth_append)

section \<open>include/start_info.h\<close>

text \<open>What a PVH kernel finds at the address in ebx.\<close>

record hvm_start_info =
  si_magic :: u32
  si_version :: u32
  si_flags :: u32
  si_nr_modules :: u32
  si_modlist_paddr :: u64
  si_cmdline_paddr :: u64
  si_rsdp_paddr :: u64
  si_memmap_paddr :: u64
  si_memmap_entries :: u32
  si_reserved :: u32

definition enc_start_info :: "hvm_start_info \<Rightarrow> u8 list" where
  "enc_start_info x = le_bytes 4 (si_magic x) @ le_bytes 4 (si_version x) @ le_bytes 4 (si_flags x) @
     le_bytes 4 (si_nr_modules x) @ le_bytes 8 (si_modlist_paddr x) @ le_bytes 8 (si_cmdline_paddr x) @
     le_bytes 8 (si_rsdp_paddr x) @ le_bytes 8 (si_memmap_paddr x) @ le_bytes 4 (si_memmap_entries x) @
     le_bytes 4 (si_reserved x)"

definition dec_start_info :: "u8 list \<Rightarrow> hvm_start_info" where
  "dec_start_info bs = \<lparr>si_magic = le_word (take 4 bs), si_version = le_word (take 4 (drop 4 bs)),
     si_flags = le_word (take 4 (drop 8 bs)), si_nr_modules = le_word (take 4 (drop 12 bs)),
     si_modlist_paddr = le_word (take 8 (drop 16 bs)), si_cmdline_paddr = le_word (take 8 (drop 24 bs)),
     si_rsdp_paddr = le_word (take 8 (drop 32 bs)), si_memmap_paddr = le_word (take 8 (drop 40 bs)),
     si_memmap_entries = le_word (take 4 (drop 48 bs)), si_reserved = le_word (take 4 (drop 52 bs))\<rparr>"

interpretation hvm_start_info_struct: codec 56 "\<lambda>_. True" enc_start_info dec_start_info
  by unfold_locales (auto simp: enc_start_info_def dec_start_info_def le_word_le_bytes nth_append)

record hvm_modlist_entry =
  mod_paddr :: u64
  mod_size :: u64
  mod_cmdline_paddr :: u64
  mod_reserved :: u64

definition enc_modlist_entry :: "hvm_modlist_entry \<Rightarrow> u8 list" where
  "enc_modlist_entry x = le_bytes 8 (mod_paddr x) @ le_bytes 8 (mod_size x) @
     le_bytes 8 (mod_cmdline_paddr x) @ le_bytes 8 (mod_reserved x)"

definition dec_modlist_entry :: "u8 list \<Rightarrow> hvm_modlist_entry" where
  "dec_modlist_entry bs = \<lparr>mod_paddr = le_word (take 8 bs), mod_size = le_word (take 8 (drop 8 bs)),
     mod_cmdline_paddr = le_word (take 8 (drop 16 bs)), mod_reserved = le_word (take 8 (drop 24 bs))\<rparr>"

interpretation hvm_modlist_entry_struct: codec 32 "\<lambda>_. True" enc_modlist_entry dec_modlist_entry
  by unfold_locales (auto simp: enc_modlist_entry_def dec_modlist_entry_def le_word_le_bytes nth_append)

record hvm_memmap_table_entry =
  memmap_addr :: u64
  memmap_size :: u64
  memmap_type :: u32
  memmap_reserved :: u32

definition enc_memmap_entry :: "hvm_memmap_table_entry \<Rightarrow> u8 list" where
  "enc_memmap_entry x = le_bytes 8 (memmap_addr x) @ le_bytes 8 (memmap_size x) @ le_bytes 4 (memmap_type x) @
     le_bytes 4 (memmap_reserved x)"

definition dec_memmap_entry :: "u8 list \<Rightarrow> hvm_memmap_table_entry" where
  "dec_memmap_entry bs = \<lparr>memmap_addr = le_word (take 8 bs), memmap_size = le_word (take 8 (drop 8 bs)),
     memmap_type = le_word (take 4 (drop 16 bs)), memmap_reserved = le_word (take 4 (drop 20 bs))\<rparr>"

interpretation hvm_memmap_table_entry_struct: codec 24 "\<lambda>_. True" enc_memmap_entry dec_memmap_entry
  by unfold_locales (auto simp: enc_memmap_entry_def dec_memmap_entry_def le_word_le_bytes nth_append)

section \<open>include/multiboot.h\<close>

text \<open>What a multiboot kernel finds at the address in ebx.\<close>

record mb_info =
  mb_flags :: u32
  mb_mem_lower :: u32
  mb_mem_upper :: u32
  mb_boot_device :: u32
  mb_cmdline :: u32
  mb_mods_count :: u32
  mb_mods_addr :: u32
  mb_syms :: "u8 list"
  mb_mmap_length :: u32
  mb_mmap_addr :: u32
  mb_drives_length :: u32
  mb_drives_addr :: u32
  mb_config_table :: u32
  mb_boot_loader_name :: u32
  mb_apm_table :: u32
  mb_vbe_control_info :: u32
  mb_vbe_mode_info :: u32
  mb_vbe_mode :: u16
  mb_vbe_interface_seg :: u16
  mb_vbe_interface_off :: u16
  mb_vbe_interface_len :: u16

definition enc_mb_info :: "mb_info \<Rightarrow> u8 list" where
  "enc_mb_info x = le_bytes 4 (mb_flags x) @ le_bytes 4 (mb_mem_lower x) @ le_bytes 4 (mb_mem_upper x) @
     le_bytes 4 (mb_boot_device x) @ le_bytes 4 (mb_cmdline x) @ le_bytes 4 (mb_mods_count x) @
     le_bytes 4 (mb_mods_addr x) @ mb_syms x @ le_bytes 4 (mb_mmap_length x) @ le_bytes 4 (mb_mmap_addr x) @
     le_bytes 4 (mb_drives_length x) @ le_bytes 4 (mb_drives_addr x) @ le_bytes 4 (mb_config_table x) @
     le_bytes 4 (mb_boot_loader_name x) @ le_bytes 4 (mb_apm_table x) @ le_bytes 4 (mb_vbe_control_info x) @
     le_bytes 4 (mb_vbe_mode_info x) @ le_bytes 2 (mb_vbe_mode x) @ le_bytes 2 (mb_vbe_interface_seg x) @
     le_bytes 2 (mb_vbe_interface_off x) @ le_bytes 2 (mb_vbe_interface_len x)"

definition dec_mb_info :: "u8 list \<Rightarrow> mb_info" where
  "dec_mb_info bs = \<lparr>mb_flags = le_word (take 4 bs), mb_mem_lower = le_word (take 4 (drop 4 bs)),
     mb_mem_upper = le_word (take 4 (drop 8 bs)), mb_boot_device = le_word (take 4 (drop 12 bs)),
     mb_cmdline = le_word (take 4 (drop 16 bs)), mb_mods_count = le_word (take 4 (drop 20 bs)),
     mb_mods_addr = le_word (take 4 (drop 24 bs)), mb_syms = take 16 (drop 28 bs),
     mb_mmap_length = le_word (take 4 (drop 44 bs)), mb_mmap_addr = le_word (take 4 (drop 48 bs)),
     mb_drives_length = le_word (take 4 (drop 52 bs)), mb_drives_addr = le_word (take 4 (drop 56 bs)),
     mb_config_table = le_word (take 4 (drop 60 bs)), mb_boot_loader_name = le_word (take 4 (drop 64 bs)),
     mb_apm_table = le_word (take 4 (drop 68 bs)), mb_vbe_control_info = le_word (take 4 (drop 72 bs)),
     mb_vbe_mode_info = le_word (take 4 (drop 76 bs)), mb_vbe_mode = le_word (take 2 (drop 80 bs)),
     mb_vbe_interface_seg = le_word (take 2 (drop 82 bs)),
     mb_vbe_interface_off = le_word (take 2 (drop 84 bs)),
     mb_vbe_interface_len = le_word (take 2 (drop 86 bs))\<rparr>"

interpretation mb_info_struct: codec 88 "\<lambda>x. length (mb_syms x) = 16" enc_mb_info dec_mb_info
  by unfold_locales (auto simp: enc_mb_info_def dec_mb_info_def le_word_le_bytes nth_append)

record mb_mmap_entry =
  mmap_size :: u32
  mmap_base_addr :: u64
  mmap_length :: u64
  mmap_type :: u32

definition enc_mmap_entry :: "mb_mmap_entry \<Rightarrow> u8 list" where
  "enc_mmap_entry x = le_bytes 4 (mmap_size x) @ le_bytes 8 (mmap_base_addr x) @ le_bytes 8 (mmap_length x) @
     le_bytes 4 (mmap_type x)"

definition dec_mmap_entry :: "u8 list \<Rightarrow> mb_mmap_entry" where
  "dec_mmap_entry bs = \<lparr>mmap_size = le_word (take 4 bs), mmap_base_addr = le_word (take 8 (drop 4 bs)),
     mmap_length = le_word (take 8 (drop 12 bs)), mmap_type = le_word (take 4 (drop 20 bs))\<rparr>"

interpretation mb_mmap_entry_struct: codec 24 "\<lambda>_. True" enc_mmap_entry dec_mmap_entry
  by unfold_locales (auto simp: enc_mmap_entry_def dec_mmap_entry_def le_word_le_bytes nth_append)

section \<open>smbios.c\<close>

text \<open>The anchor of the SMBIOS tables.\<close>

record smbios_entry_point =
  ep_signature :: u32
  ep_checksum :: u8
  ep_length :: u8
  ep_smbios_major_version :: u8
  ep_smbios_minor_version :: u8
  ep_max_structure_size :: u16
  ep_entry_point_revision :: u8
  ep_formatted_area :: "u8 list"
  ep_intermediate_anchor_string :: "u8 list"
  ep_intermediate_checksum :: u8
  ep_structure_table_length :: u16
  ep_structure_table_address :: u32
  ep_number_of_structures :: u16
  ep_smbios_bcd_revision :: u8

definition enc_entry_point :: "smbios_entry_point \<Rightarrow> u8 list" where
  "enc_entry_point x = le_bytes 4 (ep_signature x) @
     [ep_checksum x, ep_length x, ep_smbios_major_version x, ep_smbios_minor_version x] @
     le_bytes 2 (ep_max_structure_size x) @ [ep_entry_point_revision x] @ ep_formatted_area x @
     ep_intermediate_anchor_string x @ [ep_intermediate_checksum x] @
     le_bytes 2 (ep_structure_table_length x) @ le_bytes 4 (ep_structure_table_address x) @
     le_bytes 2 (ep_number_of_structures x) @ [ep_smbios_bcd_revision x]"

definition dec_entry_point :: "u8 list \<Rightarrow> smbios_entry_point" where
  "dec_entry_point bs = \<lparr>ep_signature = le_word (take 4 bs), ep_checksum = bs ! 4, ep_length = bs ! 5,
     ep_smbios_major_version = bs ! 6, ep_smbios_minor_version = bs ! 7,
     ep_max_structure_size = le_word (take 2 (drop 8 bs)), ep_entry_point_revision = bs ! 10,
     ep_formatted_area = take 5 (drop 11 bs), ep_intermediate_anchor_string = take 5 (drop 16 bs),
     ep_intermediate_checksum = bs ! 21, ep_structure_table_length = le_word (take 2 (drop 22 bs)),
     ep_structure_table_address = le_word (take 4 (drop 24 bs)),
     ep_number_of_structures = le_word (take 2 (drop 28 bs)), ep_smbios_bcd_revision = bs ! 30\<rparr>"

interpretation smbios_entry_point_struct: codec 31 "\<lambda>x. length (ep_formatted_area x) = 5 \<and> length (ep_intermediate_anchor_string x) = 5" enc_entry_point dec_entry_point
  by unfold_locales (auto simp: enc_entry_point_def dec_entry_point_def le_word_le_bytes nth_append)

text \<open>A structure of type 0. Its first three fields are \<open>struct smbios_structure_header\<close>.\<close>

record smbios_type_0 =
  t0_type :: u8
  t0_length :: u8
  t0_handle :: u16
  t0_vendor_str :: u8
  t0_bios_version_str :: u8
  t0_bios_starting_address_segment :: u16
  t0_bios_release_date_str :: u8
  t0_bios_rom_size :: u8
  t0_bios_characteristics :: "u8 list"
  t0_bios_characteristics_extension_bytes :: "u8 list"
  t0_system_bios_major_release :: u8
  t0_system_bios_minor_release :: u8
  t0_embedded_controller_major_release :: u8
  t0_embedded_controller_minor_release :: u8

definition enc_type_0 :: "smbios_type_0 \<Rightarrow> u8 list" where
  "enc_type_0 x = [t0_type x, t0_length x] @ le_bytes 2 (t0_handle x) @
     [t0_vendor_str x, t0_bios_version_str x] @ le_bytes 2 (t0_bios_starting_address_segment x) @
     [t0_bios_release_date_str x, t0_bios_rom_size x] @ t0_bios_characteristics x @
     t0_bios_characteristics_extension_bytes x @
     [t0_system_bios_major_release x, t0_system_bios_minor_release x, t0_embedded_controller_major_release x, t0_embedded_controller_minor_release x]"

definition dec_type_0 :: "u8 list \<Rightarrow> smbios_type_0" where
  "dec_type_0 bs = \<lparr>t0_type = bs ! 0, t0_length = bs ! 1, t0_handle = le_word (take 2 (drop 2 bs)),
     t0_vendor_str = bs ! 4, t0_bios_version_str = bs ! 5,
     t0_bios_starting_address_segment = le_word (take 2 (drop 6 bs)), t0_bios_release_date_str = bs ! 8,
     t0_bios_rom_size = bs ! 9, t0_bios_characteristics = take 8 (drop 10 bs),
     t0_bios_characteristics_extension_bytes = take 2 (drop 18 bs), t0_system_bios_major_release = bs ! 20,
     t0_system_bios_minor_release = bs ! 21, t0_embedded_controller_major_release = bs ! 22,
     t0_embedded_controller_minor_release = bs ! 23\<rparr>"

interpretation smbios_type_0_struct: codec 24 "\<lambda>x. length (t0_bios_characteristics x) = 8 \<and> length (t0_bios_characteristics_extension_bytes x) = 2" enc_type_0 dec_type_0
  by unfold_locales (auto simp: enc_type_0_def dec_type_0_def le_word_le_bytes nth_append)

section \<open>Structures in memory\<close>

text \<open>Writing a field changes that field of the structure, and writing elsewhere changes none.\<close>

definition anchor_at :: "mem \<Rightarrow> addr \<Rightarrow> smbios_entry_point" where
  "anchor_at m p = dec_entry_point (load_bytes m p 31)"

lemma entry_point_fields:
  assumes "length bs = 31"
  shows "dec_entry_point (splice 4 [v] bs) = (dec_entry_point bs)\<lparr>ep_checksum := v\<rparr>"
    "dec_entry_point (splice 8 (le_bytes 2 w) bs) = (dec_entry_point bs)\<lparr>ep_max_structure_size := w\<rparr>"
    "dec_entry_point (splice 21 [v] bs) = (dec_entry_point bs)\<lparr>ep_intermediate_checksum := v\<rparr>"
    "dec_entry_point (splice 22 (le_bytes 2 w) bs) = (dec_entry_point bs)\<lparr>ep_structure_table_length := w\<rparr>"
    "dec_entry_point (splice 24 (le_bytes 4 x) bs) = (dec_entry_point bs)\<lparr>ep_structure_table_address := x\<rparr>"
    "dec_entry_point (splice 28 (le_bytes 2 w) bs) = (dec_entry_point bs)\<lparr>ep_number_of_structures := w\<rparr>"
  using assms by (simp_all add: dec_entry_point_def splice_def nth_append drop_take le_word_le_bytes)

lemma anchor_store [mem_simps]:
  "anchor_at (m(p + 4 := v)) p = (anchor_at m p)\<lparr>ep_checksum := v\<rparr>"
  "anchor_at (stw_p (p + 8) w m) p = (anchor_at m p)\<lparr>ep_max_structure_size := w\<rparr>"
  "anchor_at (m(p + 21 := v)) p = (anchor_at m p)\<lparr>ep_intermediate_checksum := v\<rparr>"
  "anchor_at (stw_p (p + 22) w m) p = (anchor_at m p)\<lparr>ep_structure_table_length := w\<rparr>"
  "anchor_at (stl_p (p + 24) x m) p = (anchor_at m p)\<lparr>ep_structure_table_address := x\<rparr>"
  "anchor_at (stw_p (p + 28) w m) p = (anchor_at m p)\<lparr>ep_number_of_structures := w\<rparr>"
proof -
  note within = load_store_within [where n = 31 and p = p and m = m]
  note fields = entry_point_fields [OF length_load_bytes [of m p]]
  show "anchor_at (m(p + 4 := v)) p = (anchor_at m p)\<lparr>ep_checksum := v\<rparr>"
    using within [of 4 "[v]"] fields(1) by (simp add: anchor_at_def)
  show "anchor_at (stw_p (p + 8) w m) p = (anchor_at m p)\<lparr>ep_max_structure_size := w\<rparr>"
    using within [of 8 "le_bytes 2 w"] fields(2) by (simp add: anchor_at_def stw_p_def)
  show "anchor_at (m(p + 21 := v)) p = (anchor_at m p)\<lparr>ep_intermediate_checksum := v\<rparr>"
    using within [of 21 "[v]"] fields(3) by (simp add: anchor_at_def)
  show "anchor_at (stw_p (p + 22) w m) p = (anchor_at m p)\<lparr>ep_structure_table_length := w\<rparr>"
    using within [of 22 "le_bytes 2 w"] fields(4) by (simp add: anchor_at_def stw_p_def)
  show "anchor_at (stl_p (p + 24) x m) p = (anchor_at m p)\<lparr>ep_structure_table_address := x\<rparr>"
    using within [of 24 "le_bytes 4 x"] fields(5) by (simp add: anchor_at_def stl_p_def)
  show "anchor_at (stw_p (p + 28) w m) p = (anchor_at m p)\<lparr>ep_number_of_structures := w\<rparr>"
    using within [of 28 "le_bytes 2 w"] fields(6) by (simp add: anchor_at_def stw_p_def)
qed

lemma anchor_fields:
  "lduw_p m (p + 8) = ep_max_structure_size (anchor_at m p)"
  "lduw_p m (p + 22) = ep_structure_table_length (anchor_at m p)"
  "ldl_p m (p + 24) = ep_structure_table_address (anchor_at m p)"
  "lduw_p m (p + 28) = ep_number_of_structures (anchor_at m p)"
  using load_bytes_sub [of 8 2 31 m p] load_bytes_sub [of 22 2 31 m p] load_bytes_sub [of 24 4 31 m p] load_bytes_sub [of 28 2 31 m p]
  by (simp_all add: anchor_at_def dec_entry_point_def lduw_p_def ldl_p_def)

definition start_info_at :: "mem \<Rightarrow> addr \<Rightarrow> hvm_start_info" where
  "start_info_at m p = dec_start_info (load_bytes m p 56)"

lemma start_info_field:
  assumes "length bs = 56"
  shows "dec_start_info (splice 0 (le_bytes 4 v) bs) = (dec_start_info bs)\<lparr>si_magic := v\<rparr>"
    "dec_start_info (splice 4 (le_bytes 4 v) bs) = (dec_start_info bs)\<lparr>si_version := v\<rparr>"
    "dec_start_info (splice 8 (le_bytes 4 v) bs) = (dec_start_info bs)\<lparr>si_flags := v\<rparr>"
    "dec_start_info (splice 12 (le_bytes 4 v) bs) = (dec_start_info bs)\<lparr>si_nr_modules := v\<rparr>"
    "dec_start_info (splice 16 (le_bytes 8 w) bs) = (dec_start_info bs)\<lparr>si_modlist_paddr := w\<rparr>"
    "dec_start_info (splice 24 (le_bytes 8 w) bs) = (dec_start_info bs)\<lparr>si_cmdline_paddr := w\<rparr>"
    "dec_start_info (splice 32 (le_bytes 8 w) bs) = (dec_start_info bs)\<lparr>si_rsdp_paddr := w\<rparr>"
    "dec_start_info (splice 40 (le_bytes 8 w) bs) = (dec_start_info bs)\<lparr>si_memmap_paddr := w\<rparr>"
    "dec_start_info (splice 48 (le_bytes 4 v) bs) = (dec_start_info bs)\<lparr>si_memmap_entries := v\<rparr>"
    "dec_start_info (splice 52 (le_bytes 4 v) bs) = (dec_start_info bs)\<lparr>si_reserved := v\<rparr>"
  using assms by (simp_all add: dec_start_info_def splice_def drop_take le_word_le_bytes)

lemma start_info_store [mem_simps]:
  "start_info_at (stl_p p v m) p = (start_info_at m p)\<lparr>si_magic := v\<rparr>"
  "start_info_at (stl_p (p + 4) v m) p = (start_info_at m p)\<lparr>si_version := v\<rparr>"
  "start_info_at (stl_p (p + 8) v m) p = (start_info_at m p)\<lparr>si_flags := v\<rparr>"
  "start_info_at (stl_p (p + 12) v m) p = (start_info_at m p)\<lparr>si_nr_modules := v\<rparr>"
  "start_info_at (stq_p (p + 16) w m) p = (start_info_at m p)\<lparr>si_modlist_paddr := w\<rparr>"
  "start_info_at (stq_p (p + 24) w m) p = (start_info_at m p)\<lparr>si_cmdline_paddr := w\<rparr>"
  "start_info_at (stq_p (p + 32) w m) p = (start_info_at m p)\<lparr>si_rsdp_paddr := w\<rparr>"
  "start_info_at (stq_p (p + 40) w m) p = (start_info_at m p)\<lparr>si_memmap_paddr := w\<rparr>"
  "start_info_at (stl_p (p + 48) v m) p = (start_info_at m p)\<lparr>si_memmap_entries := v\<rparr>"
  "start_info_at (stl_p (p + 52) v m) p = (start_info_at m p)\<lparr>si_reserved := v\<rparr>"
proof -
  have stl: "start_info_at (stl_p (p + of_nat i) v m) p = dec_start_info (splice i (le_bytes 4 v) (load_bytes m p 56))"
    if "i + 4 \<le> 56" for i using that by (simp add: start_info_at_def stl_p_def load_store_within)
  have stq: "start_info_at (stq_p (p + of_nat i) w m) p = dec_start_info (splice i (le_bytes 8 w) (load_bytes m p 56))"
    if "i + 8 \<le> 56" for i using that by (simp add: start_info_at_def stq_p_def load_store_within)
  note fields = start_info_field [OF length_load_bytes [of m p], folded start_info_at_def]
  show "start_info_at (stl_p p v m) p = (start_info_at m p)\<lparr>si_magic := v\<rparr>" using stl [of 0] fields(1) by simp
  show "start_info_at (stl_p (p + 4) v m) p = (start_info_at m p)\<lparr>si_version := v\<rparr>" using stl [of 4] fields(2) by simp
  show "start_info_at (stl_p (p + 8) v m) p = (start_info_at m p)\<lparr>si_flags := v\<rparr>" using stl [of 8] fields(3) by simp
  show "start_info_at (stl_p (p + 12) v m) p = (start_info_at m p)\<lparr>si_nr_modules := v\<rparr>" using stl [of 12] fields(4) by simp
  show "start_info_at (stq_p (p + 16) w m) p = (start_info_at m p)\<lparr>si_modlist_paddr := w\<rparr>" using stq [of 16] fields(5) by simp
  show "start_info_at (stq_p (p + 24) w m) p = (start_info_at m p)\<lparr>si_cmdline_paddr := w\<rparr>" using stq [of 24] fields(6) by simp
  show "start_info_at (stq_p (p + 32) w m) p = (start_info_at m p)\<lparr>si_rsdp_paddr := w\<rparr>" using stq [of 32] fields(7) by simp
  show "start_info_at (stq_p (p + 40) w m) p = (start_info_at m p)\<lparr>si_memmap_paddr := w\<rparr>" using stq [of 40] fields(8) by simp
  show "start_info_at (stl_p (p + 48) v m) p = (start_info_at m p)\<lparr>si_memmap_entries := v\<rparr>" using stl [of 48] fields(9) by simp
  show "start_info_at (stl_p (p + 52) v m) p = (start_info_at m p)\<lparr>si_reserved := v\<rparr>" using stl [of 52] fields(10) by simp
qed

lemma struct_apart:
  "apart q (length bs) p 56 \<Longrightarrow> start_info_at (store_bytes m q bs) p = start_info_at m p"
  "apart q (length bs) p 31 \<Longrightarrow> anchor_at (store_bytes m q bs) p = anchor_at m p"
  by (simp_all add: start_info_at_def anchor_at_def load_store_apart)

end
