(* ===== verification/Mptable.thy ===== *)
theory Mptable
  imports Reference Structs
begin

text \<open>
  mptable.c: the Intel MultiProcessor tables, a floating pointer structure and a configuration table with
  its entries, at the start of the last KiB of conventional memory. Addresses and sums are ints in the
  code; here they wrap at 32 bits.
\<close>

abbreviation (input) MPTABLE_START where "MPTABLE_START \<equiv> 0x9fc00"
abbreviation (input) APIC_VERSION where "APIC_VERSION \<equiv> 0x14"
abbreviation (input) MPC_SPEC where "MPC_SPEC \<equiv> 0x4"
abbreviation (input) MP_PROCESSOR where "MP_PROCESSOR \<equiv> 0"
abbreviation (input) MP_BUS where "MP_BUS \<equiv> 1"
abbreviation (input) MP_IOAPIC where "MP_IOAPIC \<equiv> 2"
abbreviation (input) MP_INTSRC where "MP_INTSRC \<equiv> 3"
abbreviation (input) MP_LINTSRC where "MP_LINTSRC \<equiv> 4"
abbreviation (input) CPU_ENABLED where "CPU_ENABLED \<equiv> 1"
abbreviation (input) CPU_BOOTPROCESSOR where "CPU_BOOTPROCESSOR \<equiv> 2"
abbreviation (input) MPC_APIC_USABLE where "MPC_APIC_USABLE \<equiv> 1"
abbreviation (input) mp_INT where "mp_INT \<equiv> 0"
abbreviation (input) mp_NMI where "mp_NMI \<equiv> 1"
abbreviation (input) mp_ExtINT where "mp_ExtINT \<equiv> 3"
abbreviation (input) IO_APIC_DEFAULT_PHYS_BASE where "IO_APIC_DEFAULT_PHYS_BASE \<equiv> 0xfec00000"
abbreviation (input) APIC_DEFAULT_PHYS_BASE where "APIC_DEFAULT_PHYS_BASE \<equiv> 0xfee00000"

text \<open>The bytes are chars, so they are sign-extended.\<close>

primrec mptable_checksum_loop :: "mem \<Rightarrow> addr \<Rightarrow> nat \<Rightarrow> u32 \<Rightarrow> u32" where
  "mptable_checksum_loop m buf 0 acc = acc"
| "mptable_checksum_loop m buf (Suc k) acc = mptable_checksum_loop m (buf + 1) k (acc + scast (m buf))"

definition mptable_checksum :: "mem \<Rightarrow> addr \<Rightarrow> nat \<Rightarrow> u32" where
  "mptable_checksum m buf sz = mptable_checksum_loop m buf sz 0"

section \<open>One structure after the other\<close>

definition write_mpf :: "addr \<Rightarrow> mem \<Rightarrow> mem" where
  "write_mpf mpf m =
     (let m = memset mpf 0 16 m;
          m = store_bytes m mpf (chars ''_MP_'');
          m = m(mpf + 8 := 1);
          m = m(mpf + 9 := 4);
          m = stl_p (mpf + 4) (MPTABLE_START + 16) m
      in m(mpf + 10 := m (mpf + 10) - ucast (mptable_checksum m mpf 16)))"

definition write_mpc_table :: "addr \<Rightarrow> mem \<Rightarrow> mem" where
  "write_mpc_table table m =
     (let m = memset table 0 44 m;
          m = store_bytes m table (chars ''PCMP'');
          m = m(table + 6 := MPC_SPEC);
          m = store_bytes m (table + 8) (chars ''QBOOT   '');
          m = store_bytes m (table + 16) (chars ''000000000000'')
      in stl_p (table + 36) APIC_DEFAULT_PHYS_BASE m)"

definition write_cpu :: "u32 \<times> u32 \<Rightarrow> nat \<Rightarrow> addr \<Rightarrow> mem \<Rightarrow> mem" where
  "write_cpu cpuid i cpu m =
     (let m = memset cpu 0 20 m;
          m = m(cpu := MP_PROCESSOR);
          m = m(cpu + 1 := of_nat i);
          m = m(cpu + 2 := APIC_VERSION);
          m = m(cpu + 3 := CPU_ENABLED);
          m = (if i = 0 then m(cpu + 3 := m (cpu + 3) OR CPU_BOOTPROCESSOR) else m);
          m = stl_p (cpu + 4) (fst cpuid) m
      in stl_p (cpu + 8) (snd cpuid) m)"

definition write_bus :: "addr \<Rightarrow> mem \<Rightarrow> mem" where
  "write_bus p m =
     (let m = memset p 0 8 m;
          m = m(p := MP_BUS);
          m = m(p + 1 := 0)
      in store_bytes m (p + 2) (chars ''ISA   ''))"

definition write_ioapic :: "u32 \<Rightarrow> addr \<Rightarrow> mem \<Rightarrow> mem" where
  "write_ioapic num_cpus p m =
     (let m = memset p 0 8 m;
          m = m(p := MP_IOAPIC);
          m = m(p + 1 := ucast (num_cpus + 1));
          m = m(p + 2 := APIC_VERSION);
          m = m(p + 3 := MPC_APIC_USABLE)
      in stl_p (p + 4) IO_APIC_DEFAULT_PHYS_BASE m)"

definition write_intsrc :: "u32 \<Rightarrow> nat \<Rightarrow> addr \<Rightarrow> mem \<Rightarrow> mem" where
  "write_intsrc num_cpus i p m =
     (let m = memset p 0 8 m;
          m = m(p := MP_INTSRC);
          m = m(p + 1 := mp_INT);
          m = stw_p (p + 2) 0 m;
          m = m(p + 4 := 0);
          m = m(p + 5 := of_nat i);
          m = m(p + 6 := ucast (num_cpus + 1))
      in m(p + 7 := of_nat i))"

definition write_lintsrc :: "u8 \<Rightarrow> u8 \<Rightarrow> u8 \<Rightarrow> addr \<Rightarrow> mem \<Rightarrow> mem" where
  "write_lintsrc irqtype apic lint p m =
     (let m = m(p := MP_LINTSRC);
          m = m(p + 1 := irqtype);
          m = stw_p (p + 2) 0 m;
          m = m(p + 4 := 0);
          m = m(p + 5 := 0);
          m = m(p + 6 := apic)
      in m(p + 7 := lint))"

section \<open>The loops\<close>

text \<open>The loops carry \<open>offset\<close> and \<open>checksum\<close>; \<open>k\<close> rounds are left, from round \<open>i\<close>.\<close>

primrec mp_cpus :: "u32 \<times> u32 \<Rightarrow> nat \<Rightarrow> nat \<Rightarrow> u32 \<times> u32 \<Rightarrow> ('d, u32 \<times> u32) fw" where
  "mp_cpus cpuid i 0 oc = ret oc"
| "mp_cpus cpuid i (Suc k) oc =
     (let (offset, checksum) = oc; cpu = MPTABLE_START + offset in
      andthen (on_mem (write_cpu cpuid i cpu))
      (bind get_state (\<lambda>s.
       mp_cpus cpuid (Suc i) k (offset + 20, checksum + mptable_checksum (mem s) cpu 20))))"

primrec mp_intsrcs :: "u32 \<Rightarrow> u32 \<Rightarrow> nat \<Rightarrow> nat \<Rightarrow> u32 \<times> u32 \<Rightarrow> ('d, u32 \<times> u32) fw" where
  "mp_intsrcs num_cpus irq0_override i 0 oc = ret oc"
| "mp_intsrcs num_cpus irq0_override i (Suc k) oc =
     (let (offset, checksum) = oc; intsrc = MPTABLE_START + offset in
      andthen (on_mem (write_intsrc num_cpus i intsrc))
      (andthen (when_do (irq0_override \<noteq> 0 \<and> i = 0) (on_mem (\<lambda>m. m(intsrc + 7 := 2))))
      (if irq0_override \<noteq> 0 \<and> i = 2 then mp_intsrcs num_cpus irq0_override (Suc i) k oc
       else bind get_state (\<lambda>s.
         mp_intsrcs num_cpus irq0_override (Suc i) k
           (offset + 8, checksum + mptable_checksum (mem s) intsrc 8)))))"

definition setup_mptable :: "'d env \<Rightarrow> ('d, unit) fw" where
  "setup_mptable env =
     (let table = MPTABLE_START + 16 :: addr; offset = 16 + 44 :: u32; cpuid = io_cpuid env in
      andthen (on_mem (write_mpf MPTABLE_START))
      (andthen (on_mem (write_mpc_table table))
      (andthen (fw_cfg_select env FW_CFG_NB_CPUS)
      (bind (fw_cfg_readl_le env) (\<lambda>num_cpus.
      bind (mp_cpus cpuid 0 (nat (sint num_cpus)) (offset, 0)) (\<lambda>(offset, checksum).
      andthen (on_mem (write_bus (MPTABLE_START + offset)))
      (bind get_state (\<lambda>s. let checksum = checksum + mptable_checksum (mem s) (MPTABLE_START + offset) 8;
                               offset = offset + 8 in
      andthen (on_mem (write_ioapic num_cpus (MPTABLE_START + offset)))
      (bind get_state (\<lambda>s. let checksum = checksum + mptable_checksum (mem s) (MPTABLE_START + offset) 8;
                               offset = offset + 8 in
      andthen (fw_cfg_select env FW_CFG_IRQ0_OVERRIDE)
      (bind (fw_cfg_readl_le env) (\<lambda>irq0_override.
      bind (mp_intsrcs num_cpus irq0_override 0 16 (offset, checksum)) (\<lambda>(offset, checksum).
      andthen (on_mem (memset (MPTABLE_START + offset) 0 8))
      (andthen (on_mem (write_lintsrc mp_ExtINT 0 0 (MPTABLE_START + offset)))
      (bind get_state (\<lambda>s. let checksum = checksum + mptable_checksum (mem s) (MPTABLE_START + offset) 8;
                               offset = offset + 8 in
      andthen (on_mem (write_lintsrc mp_NMI 0xFF 1 (MPTABLE_START + offset)))
      (bind get_state (\<lambda>s. let checksum = checksum + mptable_checksum (mem s) (MPTABLE_START + offset) 8;
                               offset = offset + 8 in
      andthen (on_mem (stw_p (table + 4) (ucast (offset - 16))))
      (bind get_state (\<lambda>s. let checksum = checksum + mptable_checksum (mem s) table 44 in
      on_mem (\<lambda>m. m(table + 7 := m (table + 7) - ucast checksum))))))))))))))))))))))"

section \<open>The image of the tables\<close>

text \<open>What the MP tables should look like, as a list of bytes.\<close>

definition mpf_bytes :: "u8 \<Rightarrow> u8 list" where
  "mpf_bytes ck = enc_mpf \<lparr>mpf_signature = chars ''_MP_'', mpf_physptr = MPTABLE_START + 16, mpf_length = 1,
     mpf_specification = 4, mpf_checksum = ck, mpf_feature1 = 0, mpf_feature2 = 0, mpf_feature3 = 0,
     mpf_feature4 = 0, mpf_feature5 = 0\<rparr>"

definition mpc_header :: "u16 \<Rightarrow> u8 \<Rightarrow> u8 list" where
  "mpc_header len ck = enc_mpc \<lparr>mpc_signature = chars ''PCMP'', mpc_length = len, mpc_spec = MPC_SPEC, mpc_checksum = ck,
     mpc_oem = chars ''QBOOT   '', mpc_productid = chars ''000000000000'', mpc_oemptr = 0, mpc_oemsize = 0,
     mpc_oemcount = 0, mpc_lapic = APIC_DEFAULT_PHYS_BASE, mpc_reserved = 0\<rparr>"

definition cpu_bytes :: "u32 \<times> u32 \<Rightarrow> nat \<Rightarrow> u8 list" where
  "cpu_bytes cpuid i = enc_cpu \<lparr>cpu_type = MP_PROCESSOR, cpu_apicid = of_nat i, cpu_apicver = APIC_VERSION,
     cpu_cpuflag = (if i = 0 then CPU_ENABLED OR CPU_BOOTPROCESSOR else CPU_ENABLED), cpu_cpufeature = fst cpuid,
     cpu_featureflag = snd cpuid, cpu_reserved_0 = 0, cpu_reserved_1 = 0\<rparr>"

definition bus_bytes :: "u8 list" where
  "bus_bytes = enc_bus \<lparr>bus_type = MP_BUS, bus_busid = 0, bus_bustype = chars ''ISA   ''\<rparr>"

definition ioapic_bytes :: "u32 \<Rightarrow> u8 list" where
  "ioapic_bytes num_cpus = enc_ioapic \<lparr>ioapic_type = MP_IOAPIC, ioapic_apicid = ucast (num_cpus + 1),
     ioapic_apicver = APIC_VERSION, ioapic_flags = MPC_APIC_USABLE, ioapic_apicaddr = IO_APIC_DEFAULT_PHYS_BASE\<rparr>"

definition intsrc_bytes :: "u32 \<Rightarrow> nat \<Rightarrow> nat \<Rightarrow> u8 list" where
  "intsrc_bytes num_cpus irq pin = enc_intsrc \<lparr>intsrc_type = MP_INTSRC, intsrc_irqtype = mp_INT, intsrc_irqflag = 0,
     intsrc_srcbus = 0, intsrc_srcbusirq = of_nat irq, intsrc_dstapic = ucast (num_cpus + 1), intsrc_dstirq = of_nat pin\<rparr>"

definition lintsrc_bytes :: "u8 \<Rightarrow> u8 \<Rightarrow> u8 \<Rightarrow> u8 list" where
  "lintsrc_bytes irqtype apic lint = enc_lintsrc \<lparr>lintsrc_type = MP_LINTSRC, lintsrc_irqtype = irqtype, lintsrc_irqflag = 0,
     lintsrc_srcbusid = 0, lintsrc_srcbusirq = 0, lintsrc_destapic = apic, lintsrc_destapiclint = lint\<rparr>"

text \<open>With the override, IRQ 0 is wired to pin 2 and IRQ 2 has no entry.\<close>

definition irq_routes :: "bool \<Rightarrow> (nat \<times> nat) list" where
  "irq_routes override = map (\<lambda>i. (i, if override \<and> i = 0 then 2 else i)) (filter (\<lambda>i. \<not> (override \<and> i = 2)) [0..<16])"

definition mp_entries :: "u32 \<times> u32 \<Rightarrow> u32 \<Rightarrow> bool \<Rightarrow> u8 list" where
  "mp_entries cpuid num_cpus override =
     concat (map (cpu_bytes cpuid) [0..<nat (sint num_cpus)]) @ bus_bytes @ ioapic_bytes num_cpus
     @ concat (map (\<lambda>(irq, pin). intsrc_bytes num_cpus irq pin) (irq_routes override))
     @ lintsrc_bytes 3 0 0 @ lintsrc_bytes 1 0xFF 1"

definition mp_image :: "u32 \<times> u32 \<Rightarrow> u32 \<Rightarrow> bool \<Rightarrow> u8 list" where
  "mp_image cpuid num_cpus override =
     (let es = mp_entries cpuid num_cpus override; len = of_nat (44 + length es) in
      mpf_bytes (- sum_list (mpf_bytes 0)) @ mpc_header len (- sum_list (mpc_header len 0 @ es)) @ es)"

text \<open>The same, byte by byte.\<close>

lemma structs_as_bytes:
  "mpf_bytes ck = chars ''_MP_'' @ [0x10, 0xfc, 0x09, 0x00, 1, 4, ck, 0, 0, 0, 0, 0]"
  "mpc_header len ck = chars ''PCMP'' @ le_bytes 2 len @ [4, ck] @ chars ''QBOOT   000000000000''
     @ [0, 0, 0, 0, 0, 0, 0, 0] @ [0x00, 0x00, 0xe0, 0xfe] @ [0, 0, 0, 0]"
  "cpu_bytes cpuid i = [0, of_nat i, 0x14, if i = 0 then 3 else 1] @ le_bytes 4 (fst cpuid) @ le_bytes 4 (snd cpuid)
     @ [0, 0, 0, 0, 0, 0, 0, 0]"
  "bus_bytes = [1, 0] @ chars ''ISA   ''"
  "ioapic_bytes num_cpus = [2, ucast (num_cpus + 1), 0x14, 1, 0x00, 0x00, 0xc0, 0xfe]"
  "intsrc_bytes num_cpus irq pin = [3, 0, 0, 0, 0, of_nat irq, ucast (num_cpus + 1), of_nat pin]"
  "lintsrc_bytes irqtype apic lint = [4, irqtype, 0, 0, 0, 0, apic, lint]"
  by (simp_all add: mpf_bytes_def mpc_header_def cpu_bytes_def bus_bytes_def ioapic_bytes_def intsrc_bytes_def
      lintsrc_bytes_def enc_mpf_def enc_mpc_def enc_cpu_def enc_bus_def enc_ioapic_def enc_intsrc_def enc_lintsrc_def
      le_bytes_2 le_bytes_4 chars_def)

section \<open>Each structure is written as its bytes\<close>

lemma write_cpu_store: "write_cpu cpuid i p m = store_bytes m p (cpu_bytes cpuid i)"
proof -
  let ?fs = "[(0, replicate 20 0), (0, [0]), (1, [of_nat i]), (2, [0x14]), (3, [if i = 0 then 3 else 1]),
    (4, le_bytes 4 (fst cpuid)), (8, le_bytes 4 (snd cpuid))] :: (nat \<times> u8 list) list"
  have "write_cpu cpuid i p m = fold (write_field p) ?fs m"
    unfolding write_cpu_def Let_def store_whole stl_p_def
    by (simp add: write_field_def store_single del: store_bytes.simps)
  also have "\<dots> = store_bytes m p (layout ?fs (load_bytes m p 20))"
    by (rule write_fields_store) (simp_all add: fields_fit_def layout_simps)
  also have "layout ?fs (load_bytes m p 20) = cpu_bytes cpuid i"
    by (simp add: layout_simps splice_def replicate_lit structs_as_bytes)
  finally show ?thesis .
qed

lemma write_bus_store: "write_bus p m = store_bytes m p bus_bytes"
proof -
  let ?fs = "[(0, replicate 8 0), (0, [1]), (1, [0]), (2, chars ''ISA   '')] :: (nat \<times> u8 list) list"
  have "write_bus p m = fold (write_field p) ?fs m"
    unfolding write_bus_def Let_def store_whole
    by (simp add: write_field_def store_single del: store_bytes.simps)
  also have "\<dots> = store_bytes m p (layout ?fs (load_bytes m p 8))"
    by (rule write_fields_store) (simp_all add: fields_fit_def layout_simps chars_def)
  also have "layout ?fs (load_bytes m p 8) = bus_bytes"
    by (simp add: layout_simps splice_def replicate_lit structs_as_bytes chars_def)
  finally show ?thesis .
qed

lemma write_ioapic_store: "write_ioapic num_cpus p m = store_bytes m p (ioapic_bytes num_cpus)"
proof -
  let ?fs = "[(0, replicate 8 0), (0, [2]), (1, [ucast (num_cpus + 1)]), (2, [0x14]), (3, [1]),
    (4, le_bytes 4 (0xfec00000 :: u32))] :: (nat \<times> u8 list) list"
  have "write_ioapic num_cpus p m = fold (write_field p) ?fs m"
    unfolding write_ioapic_def Let_def store_whole stl_p_def
    by (simp add: write_field_def store_single del: store_bytes.simps)
  also have "\<dots> = store_bytes m p (layout ?fs (load_bytes m p 8))"
    by (rule write_fields_store) (simp_all add: fields_fit_def layout_simps)
  also have "layout ?fs (load_bytes m p 8) = ioapic_bytes num_cpus"
    by (simp add: layout_simps splice_def replicate_lit structs_as_bytes le_bytes_4)
  finally show ?thesis .
qed

lemma write_intsrc_store: "write_intsrc num_cpus i p m = store_bytes m p (intsrc_bytes num_cpus i i)"
proof -
  let ?fs = "[(0, replicate 8 0), (0, [3]), (1, [0]), (2, le_bytes 2 (0 :: u16)), (4, [0]), (5, [of_nat i]),
    (6, [ucast (num_cpus + 1)]), (7, [of_nat i])] :: (nat \<times> u8 list) list"
  have "write_intsrc num_cpus i p m = fold (write_field p) ?fs m"
    unfolding write_intsrc_def Let_def store_whole stw_p_def
    by (simp add: write_field_def store_single del: store_bytes.simps)
  also have "\<dots> = store_bytes m p (layout ?fs (load_bytes m p 8))"
    by (rule write_fields_store) (simp_all add: fields_fit_def layout_simps)
  also have "layout ?fs (load_bytes m p 8) = intsrc_bytes num_cpus i i"
    by (simp add: layout_simps splice_def replicate_lit structs_as_bytes le_bytes_2)
  finally show ?thesis .
qed

lemma write_lintsrc_store: "write_lintsrc irqtype apic lint p m = store_bytes m p (lintsrc_bytes irqtype apic lint)"
proof -
  let ?fs = "[(0, [4]), (1, [irqtype]), (2, le_bytes 2 (0 :: u16)), (4, [0]), (5, [0]), (6, [apic]), (7, [lint])]
    :: (nat \<times> u8 list) list"
  have "write_lintsrc irqtype apic lint p m = fold (write_field p) ?fs m"
    unfolding write_lintsrc_def Let_def stw_p_def
    by (simp add: write_field_def store_single del: store_bytes.simps)
  also have "\<dots> = store_bytes m p (layout ?fs (load_bytes m p 8))"
    by (rule write_fields_store) (simp_all add: fields_fit_def layout_simps)
  also have "layout ?fs (load_bytes m p 8) = lintsrc_bytes irqtype apic lint"
    unfolding load_bytes_numeral by (simp add: layout_simps splice_def structs_as_bytes le_bytes_2)
  finally show ?thesis .
qed

lemma write_mpc_table_store: "write_mpc_table p m = store_bytes m p (mpc_header 0 0)"
proof -
  let ?fs = "[(0, replicate 44 0), (0, chars ''PCMP''), (6, [4]), (8, chars ''QBOOT   ''), (16, chars ''000000000000''),
    (36, le_bytes 4 (0xfee00000 :: u32))] :: (nat \<times> u8 list) list"
  have "write_mpc_table p m = fold (write_field p) ?fs m"
    unfolding write_mpc_table_def Let_def store_whole stl_p_def
    by (simp add: write_field_def store_single chars_def del: store_bytes.simps)
  also have "\<dots> = store_bytes m p (layout ?fs (load_bytes m p 44))"
    by (rule write_fields_store) (simp_all add: fields_fit_def layout_simps chars_def)
  also have "layout ?fs (load_bytes m p 44) = mpc_header 0 0"
    by (simp add: layout_simps splice_def replicate_lit structs_as_bytes chars_def le_bytes_4 le_bytes_2)
  finally show ?thesis .
qed

section \<open>Sums\<close>

lemma ucast_scast_u8 [simp]: "(ucast (scast (b :: u8) :: u32) :: u8) = b"
  by (rule bit_word_eqI) (simp add: bit_simps)

lemma mptable_checksum_loop_sum:
  "ucast (mptable_checksum_loop m p n s) = (ucast s :: u8) + sum_list (load_bytes m p n)"
proof (induction n arbitrary: p s)
  case (Suc n)
  have "(ucast (s + scast (m p)) :: u8) = ucast s + m p" by (simp add: ucast_add_down)
  with Suc show ?case by (simp add: algebra_simps)
qed simp

lemma mptable_checksum_sum: "ucast (mptable_checksum m p n) = sum_list (load_bytes m p n)"
  by (simp add: mptable_checksum_def mptable_checksum_loop_sum)

lemma write_mpf_store: "write_mpf p m = store_bytes m p (mpf_bytes (- sum_list (mpf_bytes 0)))"
proof -
  let ?fs = "[(0, replicate 16 0), (0, chars ''_MP_''), (8, [1]), (9, [4]), (4, le_bytes 4 (0x9fc10 :: u32))]
    :: (nat \<times> u8 list) list"
  define m0 where "m0 = fold (write_field p) ?fs m"
  have "m0 = store_bytes m p (layout ?fs (load_bytes m p 16))"
    unfolding m0_def by (rule write_fields_store) (simp_all add: fields_fit_def layout_simps chars_def)
  also have "layout ?fs (load_bytes m p 16) = mpf_bytes 0"
    by (simp add: layout_simps splice_def replicate_lit structs_as_bytes chars_def le_bytes_4)
  finally have m0: "m0 = store_bytes m p (mpf_bytes 0)" .
  have len: "length (mpf_bytes 0) = 16" by (simp add: structs_as_bytes chars_def)
  then have at: "load_bytes m0 p 16 = mpf_bytes 0" by (simp add: m0 load_store_same)
  have "write_mpf p m = m0(p + 10 := m0 (p + 10) - sum_list (load_bytes m0 p 16))"
    unfolding write_mpf_def Let_def store_whole stl_p_def mptable_checksum_sum m0_def
    by (simp add: write_field_def store_single chars_def del: store_bytes.simps)
  also have "m0 (p + 10) = 0" using arg_cong [OF at, of "\<lambda>bs. bs ! 10"] by (simp add: structs_as_bytes chars_def)
  also have "m0(p + 10 := 0 - sum_list (load_bytes m0 p 16))
      = store_bytes m0 (p + of_nat 10) [- sum_list (mpf_bytes 0)]"
    by (simp add: at)
  also have "\<dots> = store_bytes m p (splice 10 [- sum_list (mpf_bytes 0)] (mpf_bytes 0))"
    unfolding m0 by (rule store_patch) (simp_all add: len)
  also have "splice 10 [- sum_list (mpf_bytes 0)] (mpf_bytes 0) = mpf_bytes (- sum_list (mpf_bytes 0))"
    by (simp add: splice_def structs_as_bytes chars_def)
  finally show ?thesis .
qed

section \<open>setup_mptable writes the image\<close>

text \<open>An entry added at the end of what has been written.\<close>

lemma add_entry:
  assumes "length bs + length e \<le> 2 ^ 32"
  shows "store_bytes (store_bytes m p bs) (p + of_nat (length bs)) e = store_bytes m p (bs @ e)"
    "load_bytes (store_bytes m p (bs @ e)) (p + of_nat (length bs)) (length e) = e"
  using assms by (simp_all add: store_bytes_append load_store_same)

lemma length_entries [simp]:
  "length (cpu_bytes cpuid i) = 20" "length bus_bytes = 8" "length (ioapic_bytes n) = 8"
  "length (intsrc_bytes n i p) = 8" "length (lintsrc_bytes t a l) = 8"
  "length (mpf_bytes ck) = 16" "length (mpc_header len ck) = 44"
  by (simp_all add: structs_as_bytes chars_def)

lemma mp_cpus_entries:
  assumes "length bs + 20 * k \<le> 2 ^ 32" and "mem s = store_bytes m0 MPTABLE_START bs"
  shows "\<exists>c. mp_cpus cpuid i k (of_nat (length bs), ck) s = Ret (of_nat (length bs + 20 * k), c)
      (s\<lparr>mem := store_bytes m0 MPTABLE_START (bs @ concat (map (cpu_bytes cpuid) [i..<i + k]))\<rparr>) \<and>
    (ucast c :: u8) = ucast ck + sum_list (concat (map (cpu_bytes cpuid) [i..<i + k]))"
  using assms
proof (induction k arbitrary: i bs ck s)
  case 0
  have "s\<lparr>mem := mem s\<rparr> = s" by simp
  then show ?case unfolding 0(2) by simp
next
  case (Suc k)
  let ?e = "cpu_bytes cpuid i" and ?p = "MPTABLE_START + of_nat (length bs) :: addr"
  let ?s = "s\<lparr>mem := store_bytes m0 MPTABLE_START (bs @ ?e)\<rparr>"
  let ?ck = "ck + mptable_checksum (store_bytes m0 MPTABLE_START (bs @ ?e)) ?p 20"
  have fit: "length bs + length ?e \<le> 2 ^ 32" using Suc.prems(1) by simp
  note add = add_entry [OF fit, of m0 MPTABLE_START]
  have upt: "[i..<i + Suc k] = i # [Suc i..<Suc i + k]"
    using upt_conv_Cons [of i "i + Suc k"] by (simp del: upt_Suc)
  have fit': "length (bs @ ?e) + 20 * k \<le> 2 ^ 32" and at: "mem ?s = store_bytes m0 MPTABLE_START (bs @ ?e)"
    using Suc.prems(1) by simp_all
  obtain c where c: "mp_cpus cpuid (Suc i) k (of_nat (length (bs @ ?e)), ?ck) ?s
      = Ret (of_nat (length (bs @ ?e) + 20 * k), c) (?s\<lparr>mem := store_bytes m0 MPTABLE_START
          ((bs @ ?e) @ concat (map (cpu_bytes cpuid) [Suc i..<Suc i + k]))\<rparr>)"
    "(ucast c :: u8) = ucast ?ck + sum_list (concat (map (cpu_bytes cpuid) [Suc i..<Suc i + k]))"
    using Suc.IH [OF fit' at, where i = "Suc i" and ck = ?ck] by (elim exE conjE) (rule that; assumption)
  have "mp_cpus cpuid i (Suc k) (of_nat (length bs), ck) s
      = mp_cpus cpuid (Suc i) k (of_nat (length bs) + 20, ?ck) ?s"
    by (simp only: mp_cpus.simps Let_def prod.case andthen_apply bind_apply on_mem_apply get_state_apply outcome.case
        write_cpu_store Suc.prems(2) add) simp
  also have "of_nat (length bs) + 20 = (of_nat (length (bs @ ?e)) :: u32)" by simp
  finally have "mp_cpus cpuid i (Suc k) (of_nat (length bs), ck) s
      = mp_cpus cpuid (Suc i) k (of_nat (length (bs @ ?e)), ?ck) ?s" .
  moreover have "(ucast ?ck :: u8) = ucast ck + sum_list ?e"
    using add(2) by (simp only: length_entries ucast_add_down mptable_checksum_sum) (simp add: ucast_add_down mptable_checksum_sum)
  moreover have "length (bs @ ?e) + 20 * k = length bs + 20 * Suc k" by simp
  moreover have "(bs @ ?e) @ concat (map (cpu_bytes cpuid) [Suc i..<Suc i + k]) = bs @ concat (map (cpu_bytes cpuid) [i..<i + Suc k])"
    unfolding upt by (simp del: upt_Suc)
  moreover have "sum_list (concat (map (cpu_bytes cpuid) [i..<i + Suc k])) = sum_list ?e + sum_list (concat (map (cpu_bytes cpuid) [Suc i..<Suc i + k]))"
    unfolding upt by (simp del: upt_Suc)
  moreover have "?s\<lparr>mem := x\<rparr> = s\<lparr>mem := x\<rparr>" for x by simp
  ultimately show ?case using c by (intro exI [of _ c]) (simp only: add.assoc)
qed

text \<open>The entry of IRQ 2 that the override drops has been written, and is written over by the next one.\<close>

lemma over_entry:
  assumes "length j \<le> length e" "length bs + length e \<le> 2 ^ 32"
  shows "store_bytes (store_bytes m p (bs @ j)) (p + of_nat (length bs)) e = store_bytes m p (bs @ e)"
proof -
  have "store_bytes (store_bytes m' q j) q e = store_bytes m' q e" for m' q
    using assms by (intro ext) (simp add: store_bytes_at inside_def)
  then show ?thesis by (simp add: store_bytes_append)
qed

definition route_bytes :: "u32 \<Rightarrow> bool \<Rightarrow> nat list \<Rightarrow> u8 list" where
  "route_bytes num_cpus override irqs = concat (map (\<lambda>i. intsrc_bytes num_cpus i (if override \<and> i = 0 then 2 else i)) irqs)"

lemma length_route_bytes [simp]: "length (route_bytes n override irqs) = 8 * length irqs"
  by (induction irqs) (simp_all add: route_bytes_def)

lemma intsrc_pin_2: "splice 7 [2] (intsrc_bytes n i i) = intsrc_bytes n i 2"
  by (simp add: splice_def structs_as_bytes)

text \<open>One round that adds its entry.\<close>

lemma mp_intsrcs_step:
  assumes "\<not> (irq0 \<noteq> 0 \<and> i = 2)" and "length bs + 8 \<le> 2 ^ 32" and "length j \<le> 8"
    and "mem s = store_bytes m0 MPTABLE_START (bs @ j)" and "e = route_bytes num_cpus (irq0 \<noteq> 0) [i]"
  shows "\<exists>c. mp_intsrcs num_cpus irq0 i (Suc k) (of_nat (length bs), ck) s
      = mp_intsrcs num_cpus irq0 (Suc i) k (of_nat (length (bs @ e)), c)
          (s\<lparr>mem := store_bytes m0 MPTABLE_START (bs @ e)\<rparr>) \<and> (ucast c :: u8) = ucast ck + sum_list e"
proof -
  let ?p = "MPTABLE_START + of_nat (length bs) :: addr"
  let ?m = "store_bytes m0 MPTABLE_START (bs @ e)"
  have e: "length e = 8" by (simp add: assms(5))
  have fit: "length bs + length e \<le> 2 ^ 32" using assms(2) e by simp
  have plain: "write_intsrc num_cpus i ?p (mem s) = store_bytes m0 MPTABLE_START (bs @ intsrc_bytes num_cpus i i)"
    unfolding write_intsrc_store assms(4) using assms(2,3) by (intro over_entry) simp_all
  have entry: "(if irq0 \<noteq> 0 \<and> i = 0 then (write_intsrc num_cpus i ?p (mem s))(?p + 7 := 2) else write_intsrc num_cpus i ?p (mem s)) = ?m"
  proof (cases "irq0 \<noteq> 0 \<and> i = 0")
    case True
    have "(write_intsrc num_cpus i ?p (mem s))(?p + 7 := 2)
        = store_bytes (store_bytes (mem s) ?p (intsrc_bytes num_cpus i i)) (?p + of_nat 7) [2]"
      unfolding write_intsrc_store by simp
    also have "\<dots> = store_bytes (mem s) ?p (intsrc_bytes num_cpus i 2)"
      unfolding intsrc_pin_2 [symmetric] by (rule store_patch) simp_all
    also have "\<dots> = ?m"
      unfolding assms(4) using assms(2,3,5) True by (subst over_entry) (simp_all add: route_bytes_def)
    finally show ?thesis using True by simp
  next
    case False
    then show ?thesis using plain assms(5) by (auto simp: route_bytes_def)
  qed
  have two: "andthen (on_mem (write_intsrc num_cpus i ?p)) (andthen (when_do (irq0 \<noteq> 0 \<and> i = 0)
      (on_mem (\<lambda>m. m(?p + 7 := 2)))) g) s = g (s\<lparr>mem := ?m\<rparr>)" for g
  proof (cases "irq0 \<noteq> 0 \<and> i = 0")
    case True
    then show ?thesis unfolding when_do_def if_P [OF True] using entry by (simp add: prog_simps)
  next
    case False
    then show ?thesis unfolding when_do_def if_not_P [OF False] using entry [unfolded if_not_P [OF False]] by (simp add: prog_simps)
  qed
  let ?c = "ck + mptable_checksum ?m ?p 8"
  have "mp_intsrcs num_cpus irq0 i (Suc k) (of_nat (length bs), ck) s
      = mp_intsrcs num_cpus irq0 (Suc i) k (of_nat (length bs) + 8, ?c) (s\<lparr>mem := ?m\<rparr>)"
    unfolding mp_intsrcs.simps Let_def prod.case two if_not_P [OF assms(1)] by (simp add: prog_simps)
  also have "of_nat (length bs) + 8 = (of_nat (length (bs @ e)) :: u32)" by (simp add: e)
  finally have run: "mp_intsrcs num_cpus irq0 i (Suc k) (of_nat (length bs), ck) s
      = mp_intsrcs num_cpus irq0 (Suc i) k (of_nat (length (bs @ e)), ?c) (s\<lparr>mem := ?m\<rparr>)" .
  have "load_bytes ?m ?p 8 = e" using add_entry(2) [OF fit, of m0 MPTABLE_START] e by simp
  then have "(ucast ?c :: u8) = ucast ck + sum_list e" by (simp add: ucast_add_down mptable_checksum_sum)
  with run show ?thesis by blast
qed

lemma mp_intsrcs_entries:
  assumes "irq0 = 0 \<or> 2 < i" and "length bs + 8 * k \<le> 2 ^ 32"
    and "length j \<le> 8" "k = 0 \<longrightarrow> j = []" "mem s = store_bytes m0 MPTABLE_START (bs @ j)"
  shows "\<exists>c. mp_intsrcs num_cpus irq0 i k (of_nat (length bs), ck) s
      = Ret (of_nat (length bs + 8 * k), c)
          (s\<lparr>mem := store_bytes m0 MPTABLE_START (bs @ route_bytes num_cpus (irq0 \<noteq> 0) [i..<i + k])\<rparr>) \<and>
      (ucast c :: u8) = ucast ck + sum_list (route_bytes num_cpus (irq0 \<noteq> 0) [i..<i + k])"
  using assms
proof (induction k arbitrary: i bs ck s j)
  case 0
  have "s\<lparr>mem := mem s\<rparr> = s" by simp
  then show ?case using 0 by (simp add: route_bytes_def)
next
  case (Suc k)
  let ?e = "route_bytes num_cpus (irq0 \<noteq> 0) [i]" 
  let ?s = "s\<lparr>mem := store_bytes m0 MPTABLE_START (bs @ ?e)\<rparr>"
  have upt: "[i..<i + Suc k] = i # [Suc i..<Suc i + k]"
    using upt_conv_Cons [of i "i + Suc k"] by (simp del: upt_Suc)
  have "\<not> (irq0 \<noteq> 0 \<and> i = 2)" "length bs + 8 \<le> 2 ^ 32" using Suc.prems(1,2) by auto
  from mp_intsrcs_step [OF this Suc.prems(3,5) refl, of num_cpus k ck] obtain c1 where c1:
    "mp_intsrcs num_cpus irq0 i (Suc k) (of_nat (length bs), ck) s
      = mp_intsrcs num_cpus irq0 (Suc i) k (of_nat (length (bs @ ?e)), c1) ?s"
    "(ucast c1 :: u8) = ucast ck + sum_list ?e" by blast
  have prems: "irq0 = 0 \<or> 2 < Suc i" "length (bs @ ?e) + 8 * k \<le> 2 ^ 32" "length ([] :: u8 list) \<le> 8"
    "k = 0 \<longrightarrow> [] = []" "mem ?s = store_bytes m0 MPTABLE_START ((bs @ ?e) @ [])"
    using Suc.prems by auto
  from Suc.IH [OF prems, of c1] obtain c where c:
    "mp_intsrcs num_cpus irq0 (Suc i) k (of_nat (length (bs @ ?e)), c1) ?s
      = Ret (of_nat (length (bs @ ?e) + 8 * k), c)
          (?s\<lparr>mem := store_bytes m0 MPTABLE_START ((bs @ ?e) @ route_bytes num_cpus (irq0 \<noteq> 0) [Suc i..<Suc i + k])\<rparr>)"
    "(ucast c :: u8) = ucast c1 + sum_list (route_bytes num_cpus (irq0 \<noteq> 0) [Suc i..<Suc i + k])"
    by blast
  have "length (bs @ ?e) + 8 * k = length bs + 8 * Suc k" by simp
  moreover have "route_bytes num_cpus (irq0 \<noteq> 0) [i..<i + Suc k] = ?e @ route_bytes num_cpus (irq0 \<noteq> 0) [Suc i..<Suc i + k]"
    unfolding upt by (simp add: route_bytes_def del: upt_Suc)
  moreover have "?s\<lparr>mem := x\<rparr> = s\<lparr>mem := x\<rparr>" for x by simp
  ultimately show ?case using c c1 by (intro exI [of _ c]) (simp only: append_assoc sum_list.append add.assoc)
qed

lemma irq_routes_bytes:
  "concat (map (\<lambda>(irq, pin). intsrc_bytes n irq pin) (irq_routes override))
    = route_bytes n override (filter (\<lambda>i. \<not> (override \<and> i = 2)) [0..<16])"
  by (simp add: irq_routes_def route_bytes_def comp_def)

lemma mp_intsrcs_all:
  assumes "length bs + 136 \<le> 2 ^ 32" "mem s = store_bytes m0 MPTABLE_START bs"
    and r: "r = route_bytes n (irq0 \<noteq> 0) (filter (\<lambda>i. \<not> (irq0 \<noteq> 0 \<and> i = 2)) [0..<16])"
  shows "\<exists>c. mp_intsrcs n irq0 0 16 (of_nat (length bs), ck) s
      = Ret (of_nat (length (bs @ r)), c) (s\<lparr>mem := store_bytes m0 MPTABLE_START (bs @ r)\<rparr>) \<and>
      (ucast c :: u8) = ucast ck + sum_list r"
proof (cases "irq0 = 0")
  case True
  then have "r = route_bytes n (irq0 \<noteq> 0) [0..<0 + 16]" by (simp add: r)
  moreover have "irq0 = 0 \<or> 2 < (0 :: nat)" "length bs + 8 * 16 \<le> 2 ^ 32" "length ([] :: u8 list) \<le> 8"
    "(16 :: nat) = 0 \<longrightarrow> ([] :: u8 list) = []" "mem s = store_bytes m0 MPTABLE_START (bs @ [])"
    using True assms(1,2) by simp_all
  ultimately show ?thesis using mp_intsrcs_entries [of irq0 0 bs 16 "[]" s m0 n ck] by simp
next
  case False
  let ?S = "MPTABLE_START :: addr" and ?B = "route_bytes n (irq0 \<noteq> 0)"
  define b1 where "b1 = bs @ ?B [0]"
  define b2 where "b2 = b1 @ ?B [1]"
  define s1 where "s1 = s\<lparr>mem := store_bytes m0 ?S b1\<rparr>"
  define s2 where "s2 = s\<lparr>mem := store_bytes m0 ?S b2\<rparr>"
  define s3 where "s3 = s\<lparr>mem := store_bytes m0 ?S (b2 @ intsrc_bytes n 2 2)\<rparr>"
  have k: "16 = Suc 15" "15 = Suc 14" "14 = Suc 13" by simp_all
  have len: "length b1 = length bs + 8" "length b2 = length bs + 16" by (simp_all add: b1_def b2_def)
  obtain c1 where c1: "mp_intsrcs n irq0 0 16 (of_nat (length bs), ck) s = mp_intsrcs n irq0 (Suc 0) 15 (of_nat (length b1), c1) s1"
    "(ucast c1 :: u8) = ucast ck + sum_list (?B [0])"
    unfolding k(1) b1_def s1_def using mp_intsrcs_step [of irq0 0 bs "[]" s m0 _ n 15 ck, OF _ _ _ _ refl] assms(1,2) by auto
  obtain c2 where c2: "mp_intsrcs n irq0 (Suc 0) 15 (of_nat (length b1), c1) s1 = mp_intsrcs n irq0 (Suc (Suc 0)) 14 (of_nat (length b2), c2) s2"
    "(ucast c2 :: u8) = ucast c1 + sum_list (?B [1])"
    unfolding k(2) b2_def s2_def
    using mp_intsrcs_step [of irq0 "Suc 0" b1 "[]" s1 m0 _ n 14 c1, OF _ _ _ _ refl] assms(1) len by (auto simp: s1_def)
  have "write_intsrc n 2 (?S + of_nat (length b2)) (mem s2) = mem s3"
    unfolding write_intsrc_store using add_entry(1) [of b2 "intsrc_bytes n 2 2" m0 ?S] assms(1) len
    by (simp add: s2_def s3_def)
  then have c3: "mp_intsrcs n irq0 (Suc (Suc 0)) 14 (of_nat (length b2), c2) s2 = mp_intsrcs n irq0 3 13 (of_nat (length b2), c2) s3"
    unfolding k(3) mp_intsrcs.simps(2) Let_def prod.case
    using False by (simp add: prog_simps s2_def s3_def numeral_2_eq_2 numeral_3_eq_3)
  have "irq0 = 0 \<or> 2 < (3 :: nat)" "length b2 + 8 * 13 \<le> 2 ^ 32" "length (intsrc_bytes n 2 2) \<le> 8"
    "(13 :: nat) = 0 \<longrightarrow> intsrc_bytes n 2 2 = []" "mem s3 = store_bytes m0 ?S (b2 @ intsrc_bytes n 2 2)"
    using len assms(1) by (simp_all add: s3_def)
  from mp_intsrcs_entries [OF this, of n c2] obtain c where c: "mp_intsrcs n irq0 3 13 (of_nat (length b2), c2) s3
      = Ret (of_nat (length b2 + 8 * 13), c) (s3\<lparr>mem := store_bytes m0 ?S (b2 @ ?B [3..<3 + 13])\<rparr>)"
    "(ucast c :: u8) = ucast c2 + sum_list (?B [3..<3 + 13])" by blast
  have r': "r = ?B [0] @ ?B [1] @ ?B [3..<3 + 13]"
    using False by (simp add: r route_bytes_def upt_rec) (simp add: numeral_eq_Suc)
  have all: "bs @ r = b2 @ ?B [3..<3 + 13]" "length (b2 @ ?B [3..<3 + 13]) = length b2 + 8 * 13"
    by (simp add: r' b2_def b1_def, simp)
  have "sum_list r = sum_list (?B [0]) + sum_list (?B [1]) + sum_list (?B [3..<3 + 13])"
    unfolding r' by (simp add: add.assoc)
  moreover have "s3\<lparr>mem := x\<rparr> = s\<lparr>mem := x\<rparr>" for x by (simp add: s3_def)
  ultimately show ?thesis
    unfolding all(1) using c c1 c2 c3 by (intro exI [of _ c]) (simp only: add.assoc all(2) simp_thms)
qed

lemma splice_append:
  "i + length cs \<le> length xs \<Longrightarrow> splice i cs (xs @ ys) = splice i cs xs @ ys"
  "splice (length xs + i) cs (xs @ ys) = xs @ splice i cs ys"
  by (simp_all add: splice_def)

lemma len_8_32: "LENGTH(8) \<le> LENGTH(32)"
  by simp

lemma mpc_header_splices:
  "splice 4 (le_bytes 2 len) (mpc_header 0 0) = mpc_header len 0"
  "splice 7 [ck] (mpc_header len 0) = mpc_header len ck"
  by (simp_all add: splice_def structs_as_bytes chars_def le_bytes_2)

lemma ucast_of_nat_16: "(ucast (of_nat k :: u32) :: u16) = of_nat k"
  by (rule bit_word_eqI) (simp add: bit_simps)

text \<open>The last two writes go back into the header.\<close>

lemma finish_header:
  assumes "length es + 60 \<le> 2 ^ 16" and "ucast ck = sum_list es"
    and "m1 = stw_p (MPTABLE_START + 16 + 4) (ucast (of_nat (length (mpf_bytes c @ mpc_header 0 0 @ es)) - 16 :: u32))
      (store_bytes m MPTABLE_START (mpf_bytes c @ mpc_header 0 0 @ es))"
    and "len = of_nat (44 + length es)"
  shows "m1(MPTABLE_START + 16 + 7 := m1 (MPTABLE_START + 16 + 7)
      - ucast (ck + mptable_checksum m1 (MPTABLE_START + 16) 44))
    = store_bytes m MPTABLE_START (mpf_bytes c @ mpc_header len (- sum_list (mpc_header len 0 @ es)) @ es)"
proof -
  let ?S = "MPTABLE_START :: addr" and ?A = "mpf_bytes c"
  have "of_nat (length (?A @ mpc_header 0 0 @ es)) - 16 = (of_nat (44 + length es) :: u32)" by simp
  then have l: "ucast (of_nat (length (?A @ mpc_header 0 0 @ es)) - 16 :: u32) = len"
    unfolding assms(4) by (simp only: ucast_of_nat_16)
  have m1: "m1 = store_bytes m ?S (?A @ mpc_header len 0 @ es)"
  proof -
    have "m1 = store_bytes (store_bytes m ?S (?A @ mpc_header 0 0 @ es)) (?S + of_nat 20) (le_bytes 2 len)"
      unfolding assms(3) l stw_p_def by simp
    also have "\<dots> = store_bytes m ?S (splice (length ?A + 4) (le_bytes 2 len) (?A @ mpc_header 0 0 @ es))"
      using assms(1) by (subst store_patch) simp_all
    finally show ?thesis unfolding splice_append(2) by (simp add: splice_append(1) mpc_header_splices)
  qed
  have head: "load_bytes m1 (?S + 16) 44 = mpc_header len 0"
    using load_bytes_sub [of 16 44 "60 + length es" m1 ?S]
      load_store_same [where bs = "?A @ mpc_header len 0 @ es" and m = m and p = ?S and n = "60 + length es"] assms(1)
    by (simp add: m1 add.commute)
  have "m1 (?S + 16 + 7) = 0"
    using arg_cong [OF head, of "\<lambda>bs. bs ! 7"] by (simp add: structs_as_bytes chars_def le_bytes_2)
  moreover have "ucast (ck + mptable_checksum m1 (?S + 16) 44) = sum_list (mpc_header len 0 @ es)"
    unfolding ucast_add_down [OF len_8_32] mptable_checksum_sum assms(2) head by simp
  moreover have "m1(?S + 16 + 7 := v) = store_bytes m1 (?S + of_nat 23) [v]" for v by simp
  moreover have "store_bytes m1 (?S + of_nat 23) [v] = store_bytes m ?S (splice (length ?A + 7) [v] (?A @ mpc_header len 0 @ es))" for v
    unfolding m1 using assms(1) by (subst store_patch) simp_all
  ultimately show ?thesis unfolding splice_append(2) by (simp add: splice_append(1) mpc_header_splices)
qed

text \<open>An entry at the end of \<open>bs\<close>, and its sum.\<close>

lemma entry_sum:
  assumes "length bs + length e \<le> 2 ^ 32" "(ucast ck :: u8) = sum_list es" "n = length e"
  shows "(ucast (ck + mptable_checksum (store_bytes m p (bs @ e)) (p + of_nat (length bs)) n) :: u8) = sum_list (es @ e)"
  unfolding ucast_add_down [OF len_8_32] mptable_checksum_sum assms(2,3) add_entry(2) [OF assms(1)] by simp

context fw_cfg_port
begin

lemma setup_mptable_writes:
  fixes s :: "'d machine"
  assumes num: "num = le_word (entry_bytes E FW_CFG_NB_CPUS 0 4)"
    and irq0: "irq0 = (le_word (entry_bytes E FW_CFG_IRQ0_OVERRIDE 0 4) :: u32)"
    and few: "nat (sint num) \<le> 3000"
  shows "\<exists>d. setup_mptable env s = Ret () (s\<lparr>mem :=
    store_bytes (mem s) MPTABLE_START (mp_image (io_cpuid env) num (irq0 \<noteq> 0)), dev := d\<rparr>)"
proof -
  let ?S = "MPTABLE_START :: addr" and ?m = "mem s" and ?id = "io_cpuid env"
  let ?A = "mpf_bytes (- sum_list (mpf_bytes 0))" and ?n = "nat (sint num)"
  define C where "C = concat (map (cpu_bytes ?id) [0..<0 + ?n])"
  define R where "R = route_bytes num (irq0 \<noteq> 0) (filter (\<lambda>i. \<not> (irq0 \<noteq> 0 \<and> i = 2)) [0..<16])"
  define B0 where "B0 = ?A @ mpc_header 0 0"
  define B1 where "B1 = B0 @ C"
  define B2 where "B2 = B1 @ bus_bytes"
  define B3 where "B3 = B2 @ ioapic_bytes num"
  define B4 where "B4 = B3 @ R"
  define B5 where "B5 = B4 @ lintsrc_bytes 3 0 0"
  define B6 where "B6 = B5 @ lintsrc_bytes 1 0xFF 1"
  have lC: "length C = 20 * ?n" by (simp add: C_def length_concat comp_def sum_list_triv)
  have lR: "length R \<le> 128" using length_filter_le [of "\<lambda>i. \<not> (irq0 \<noteq> 0 \<and> i = 2)" "[0..<16]"] by (simp add: R_def)
  have len: "length B0 = 60" "length B1 = 60 + 20 * ?n" "length B2 = length B1 + 8" "length B3 = length B2 + 8"
    "length B4 = length B3 + length R" "length B5 = length B4 + 8" "length B6 = length B5 + 8"
    by (simp_all add: B0_def B1_def B2_def B3_def B4_def B5_def B6_def lC)
  have small: "length B6 \<le> 2 ^ 16" using len lR few by simp
  have off: "of_nat (length B1) + 8 = (of_nat (length B2) :: u32)" "of_nat (length B2) + 8 = (of_nat (length B3) :: u32)"
    "of_nat (length B4) + 8 = (of_nat (length B5) :: u32)" "of_nat (length B5) + 8 = (of_nat (length B6) :: u32)"
    by (simp_all add: len)
  have w0: "write_mpc_table (?S + 16) (write_mpf ?S ?m) = store_bytes ?m ?S B0"
    unfolding write_mpc_table_store write_mpf_store B0_def
    using add_entry(1) [of ?A "mpc_header 0 0" ?m ?S] by simp
  have w: "write_bus (?S + of_nat (length B1)) (store_bytes ?m ?S B1) = store_bytes ?m ?S B2"
    "write_ioapic num (?S + of_nat (length B2)) (store_bytes ?m ?S B2) = store_bytes ?m ?S B3"
    "write_lintsrc 3 0 0 (?S + of_nat (length B4)) (memset (?S + of_nat (length B4)) 0 8 (store_bytes ?m ?S B4)) = store_bytes ?m ?S B5"
    "write_lintsrc 1 0xFF 1 (?S + of_nat (length B5)) (store_bytes ?m ?S B5) = store_bytes ?m ?S B6"
  proof -
    show "write_bus (?S + of_nat (length B1)) (store_bytes ?m ?S B1) = store_bytes ?m ?S B2"
      unfolding write_bus_store B2_def using len small by (intro add_entry(1)) simp
    show "write_ioapic num (?S + of_nat (length B2)) (store_bytes ?m ?S B2) = store_bytes ?m ?S B3"
      unfolding write_ioapic_store B3_def using len small by (intro add_entry(1)) simp
    have z: "memset (?S + of_nat (length B4)) 0 8 (store_bytes ?m ?S B4) = store_bytes ?m ?S (B4 @ replicate 8 0)"
      unfolding store_whole using len small by (subst add_entry(1)) simp_all
    show "write_lintsrc 3 0 0 (?S + of_nat (length B4)) (memset (?S + of_nat (length B4)) 0 8 (store_bytes ?m ?S B4)) = store_bytes ?m ?S B5"
      unfolding write_lintsrc_store B5_def z using len small by (intro over_entry) simp_all
    show "write_lintsrc 1 0xFF 1 (?S + of_nat (length B5)) (store_bytes ?m ?S B5) = store_bytes ?m ?S B6"
      unfolding write_lintsrc_store B6_def using len small by (intro add_entry(1)) simp
  qed
  define d1 where "d1 = (cfg_next env ^^ 4) (cfg_select env FW_CFG_NB_CPUS (store_bytes ?m ?S B0) (dev s))"
  define d2 where "d2 = (cfg_next env ^^ 4) (cfg_select env FW_CFG_IRQ0_OVERRIDE (store_bytes ?m ?S B3) d1)"
  obtain c1 where c1: "mp_cpus ?id 0 ?n (of_nat (length B0), 0) (s\<lparr>mem := store_bytes ?m ?S B0, dev := d1\<rparr>)
      = Ret (of_nat (length B1), c1) (s\<lparr>mem := store_bytes ?m ?S B1, dev := d1\<rparr>)"
    "(ucast c1 :: u8) = sum_list C"
  proof -
    let ?s0 = "s\<lparr>mem := store_bytes ?m ?S B0, dev := d1\<rparr>"
    have "length B0 + 20 * ?n \<le> 2 ^ 32" "mem ?s0 = store_bytes ?m ?S B0" using len few by simp_all
    from mp_cpus_entries [OF this, of ?id 0 0] obtain c where "mp_cpus ?id 0 ?n (of_nat (length B0), 0) ?s0
      = Ret (of_nat (length B0 + 20 * ?n), c) (?s0\<lparr>mem := store_bytes ?m ?S (B0 @ C)\<rparr>)"
      "(ucast c :: u8) = ucast (0 :: u32) + sum_list C" unfolding C_def by blast
    then show ?thesis by (intro that [of c]) (simp_all add: B1_def lC del: of_nat_add of_nat_mult)
  qed
  define c2 where "c2 = c1 + mptable_checksum (store_bytes ?m ?S B2) (?S + of_nat (length B1)) 8"
  define c3 where "c3 = c2 + mptable_checksum (store_bytes ?m ?S B3) (?S + of_nat (length B2)) 8"
  obtain c4 where c4: "mp_intsrcs num irq0 0 16 (of_nat (length B3), c3) (s\<lparr>mem := store_bytes ?m ?S B3, dev := d2\<rparr>)
      = Ret (of_nat (length B4), c4) (s\<lparr>mem := store_bytes ?m ?S B4, dev := d2\<rparr>)"
    "(ucast c4 :: u8) = ucast c3 + sum_list R"
  proof -
    let ?s0 = "s\<lparr>mem := store_bytes ?m ?S B3, dev := d2\<rparr>"
    have "length B3 + 136 \<le> 2 ^ 32" "mem ?s0 = store_bytes ?m ?S B3" using len few by simp_all
    from mp_intsrcs_all [OF this R_def, of c3] obtain c where "mp_intsrcs num irq0 0 16 (of_nat (length B3), c3) ?s0
      = Ret (of_nat (length (B3 @ R)), c) (?s0\<lparr>mem := store_bytes ?m ?S (B3 @ R)\<rparr>)"
      "(ucast c :: u8) = ucast c3 + sum_list R" by blast
    then show ?thesis by (intro that [of c]) (simp_all add: B4_def del: length_append of_nat_add)
  qed
  define c5 where "c5 = c4 + mptable_checksum (store_bytes ?m ?S B5) (?S + of_nat (length B4)) 8"
  define c6 where "c6 = c5 + mptable_checksum (store_bytes ?m ?S B6) (?S + of_nat (length B5)) 8"
  define m6 where "m6 = stw_p (?S + 16 + 4) (ucast (of_nat (length B6) - 16 :: u32)) (store_bytes ?m ?S B6)"
  have run: "setup_mptable env s = Ret () (s\<lparr>mem := m6(?S + 16 + 7 := m6 (?S + 16 + 7)
      - ucast (c6 + mptable_checksum m6 (?S + 16) 44)), dev := d2\<rparr>)"
  proof -
    have sixty: "60 = (of_nat (length B0) :: u32)" by (simp add: len)
    have at1: "le_word (entry_bytes E (sel (cfg_select env FW_CFG_NB_CPUS m d)) (off (cfg_select env FW_CFG_NB_CPUS m d)) 4) = num" for m d
      by (simp add: num)
    have at2: "le_word (entry_bytes E (sel (cfg_select env FW_CFG_IRQ0_OVERRIDE m d)) (off (cfg_select env FW_CFG_IRQ0_OVERRIDE m d)) 4) = irq0" for m d
      by (simp add: irq0)
    have w0': "write_mpc_table 0x9fc10 (write_mpf ?S ?m) = store_bytes ?m ?S B0" using w0 by simp
    have norm: "0x9fc08 + of_nat (length B1) = (?S + of_nat (length B2) :: u32)"
      "16 + of_nat (length B1) = (of_nat (length B3) :: u32)"
      "0x9fc08 + of_nat (length B4) = (?S + of_nat (length B5) :: u32)"
      "of_nat (length B6) - 16 = (of_nat (length B4) :: u32)"
      by (simp_all add: len)
    note steps = norm w0' w off c2_def [symmetric] c3_def [symmetric] c5_def [symmetric] c6_def [symmetric]
      c1(1) [folded sixty] c4(1)
    show ?thesis
      by (simp add: setup_mptable_def Let_def prog_simps at1 at2 d1_def [symmetric] d2_def [symmetric] steps m6_def
        del: select)
  qed
  have B6: "B6 = ?A @ mpc_header 0 0 @ mp_entries ?id num (irq0 \<noteq> 0)"
    by (simp add: B6_def B5_def B4_def B3_def B2_def B1_def B0_def C_def R_def mp_entries_def irq_routes_bytes)
  have fit: "length B1 + length bus_bytes \<le> 2 ^ 32" "length B2 + length (ioapic_bytes num) \<le> 2 ^ 32"
    "length B4 + length (lintsrc_bytes 3 0 0) \<le> 2 ^ 32" "length B5 + length (lintsrc_bytes 1 0xFF 1) \<le> 2 ^ 32"
    using len small by simp_all
  have "(ucast c2 :: u8) = sum_list (C @ bus_bytes)"
    unfolding c2_def B2_def by (rule entry_sum [OF fit(1) c1(2)]) simp
  then have "(ucast c3 :: u8) = sum_list ((C @ bus_bytes) @ ioapic_bytes num)"
    unfolding c3_def B3_def by (rule entry_sum [OF fit(2)]) simp
  then have "(ucast c4 :: u8) = sum_list (((C @ bus_bytes) @ ioapic_bytes num) @ R)"
    unfolding c4(2) by simp
  then have "(ucast c5 :: u8) = sum_list ((((C @ bus_bytes) @ ioapic_bytes num) @ R) @ lintsrc_bytes 3 0 0)"
    unfolding c5_def B5_def by (rule entry_sum [OF fit(3)]) simp
  then have "(ucast c6 :: u8) = sum_list (((((C @ bus_bytes) @ ioapic_bytes num) @ R) @ lintsrc_bytes 3 0 0) @ lintsrc_bytes 1 0xFF 1)"
    unfolding c6_def B6_def by (rule entry_sum [OF fit(4)]) simp
  also have "((((C @ bus_bytes) @ ioapic_bytes num) @ R) @ lintsrc_bytes 3 0 0) @ lintsrc_bytes 1 0xFF 1
      = mp_entries ?id num (irq0 \<noteq> 0)"
    by (simp add: C_def R_def mp_entries_def irq_routes_bytes)
  finally have c6: "ucast c6 = sum_list (mp_entries ?id num (irq0 \<noteq> 0))" .
  have "length (mp_entries ?id num (irq0 \<noteq> 0)) + 60 \<le> 2 ^ 16" using small unfolding B6 by simp
  from finish_header [OF this c6 m6_def [unfolded B6] refl] run show ?thesis
    by (simp only: mp_image_def Let_def) blast
qed

end

lemma length_concat_cpus: "length (concat (map (cpu_bytes cpuid) xs)) = 20 * length xs"
  by (induction xs) simp_all

lemma length_mp_entries:
  "length (mp_entries cpuid num override) = 20 * nat (sint num) + (if override then 152 else 160)"
  by (simp add: mp_entries_def irq_routes_bytes length_concat_cpus) (simp add: upt_rec)

lemma length_mp_image:
  "length (mp_image cpuid num override) = 20 * nat (sint num) + (if override then 212 else 220)"
  by (simp add: mp_image_def Let_def length_mp_entries)

lemma mpf_sum: "sum_list (mpf_bytes (- sum_list (mpf_bytes 0))) = 0"
  by (simp add: structs_as_bytes chars_def)

lemma mpc_sum: "sum_list (mpc_header len (- sum_list (mpc_header len 0 @ es)) @ es) = 0"
  by (simp add: structs_as_bytes algebra_simps)

text \<open>
  C15: The MP tables. For every device with at most 3000 processors, setup_mptable returns, and all it does
  to memory is to write, from 0x9fc00 on, the image made of the floating pointer structure, the table header
  with its length and checksum, one entry per processor, the ISA bus, the I/O APIC, the interrupt routes (IRQ
  0 goes to pin 2 and IRQ 2 has no entry when the device asks for the override) and the two local entries;
  the entry of IRQ 2 that is written and dropped leaves no trace.
\<close>

theorem setup_mptable_image:
  assumes "fw_cfg_device env sel off E"
    and "nat (sint (le_word (entry_bytes E FW_CFG_NB_CPUS 0 4) :: u32)) \<le> 3000"
  shows "\<exists>d. setup_mptable env s = Ret () (s\<lparr>mem := store_bytes (mem s) MPTABLE_START
    (mp_image (io_cpuid env) (le_word (entry_bytes E FW_CFG_NB_CPUS 0 4))
      ((le_word (entry_bytes E FW_CFG_IRQ0_OVERRIDE 0 4) :: u32) \<noteq> 0)), dev := d\<rparr>)"
  by (rule fw_cfg_port.setup_mptable_writes [OF fw_cfg_port.intro [OF assms(1)] refl refl assms(2)])

definition two_cpus :: "u16 \<Rightarrow> nat \<Rightarrow> u8" where
  "two_cpus e = (if e = FW_CFG_NB_CPUS then byte_of [2, 0, 0, 0]
     else if e = FW_CFG_IRQ0_OVERRIDE then byte_of [1, 0, 0, 0] else (\<lambda>_. 0))"

lemma two_cpus_entries:
  "entry_bytes two_cpus FW_CFG_NB_CPUS 0 4 = [2, 0, 0, 0]"
  "entry_bytes two_cpus FW_CFG_IRQ0_OVERRIDE 0 4 = [1, 0, 0, 0]"
  by (intro entry_bytes_byte_of; simp add: two_cpus_def)+

theorem setup_mptable_image_witness:
  "\<exists>d. setup_mptable (ref_env two_cpus) (boot_machine (\<lambda>_. 0)) = Ret () (boot_machine (\<lambda>_. 0)
     \<lparr>mem := store_bytes (\<lambda>_. 0) 0x9fc00 (mp_image (0x663, 0x78bfbfd) 2 True), dev := d\<rparr>)"
  using setup_mptable_image [OF ref_device [of two_cpus], of "boot_machine (\<lambda>_. 0)"]
  by (simp add: two_cpus_entries boot_machine_def)

text \<open>
  C16: What an operating system checks. After setup_mptable the 16 bytes at 0x9fc00 sum to zero, the length
  field of the table is 20 bytes per processor plus 196 or 204, that many bytes at 0x9fc10 sum to zero, and
  memory beyond them is as before. The pointer structure names the table; the table's count of entries is 0,
  whatever follows. The tables stay within the KiB that the E820 map reserves exactly when
  there are at most 40 processors.
\<close>

theorem mptable_checks:
  assumes "fw_cfg_device env sel off E" and "cpus = nat (sint (le_word (entry_bytes E FW_CFG_NB_CPUS 0 4) :: u32))"
    and "cpus \<le> 3000" and "extra = (if (le_word (entry_bytes E FW_CFG_IRQ0_OVERRIDE 0 4) :: u32) = 0 then 204 else 196)"
  shows "\<exists>s'. setup_mptable env s = Ret () s' \<and> csum8 (mem s') MPTABLE_START 16 = 0 \<and>
    unat (lduw_p (mem s') (MPTABLE_START + 20)) = 20 * cpus + extra \<and>
    csum8 (mem s') (MPTABLE_START + 16) (ucast (lduw_p (mem s') (MPTABLE_START + 20))) = 0 \<and>
    mpf_physptr (dec_mpf (load_bytes (mem s') MPTABLE_START 16)) = MPTABLE_START + 16 \<and>
    mpc_oemcount (dec_mpc (load_bytes (mem s') (MPTABLE_START + 16) 44)) = 0 \<and>
    (\<forall>a. \<not> inside a MPTABLE_START (16 + 20 * cpus + extra) \<longrightarrow> mem s' a = mem s a) \<and>
    (unat (MPTABLE_START :: addr) + 16 + 20 * cpus + extra \<le> 0xa0000 \<longleftrightarrow> cpus \<le> 40)"
proof -
  let ?num = "le_word (entry_bytes E FW_CFG_NB_CPUS 0 4) :: u32"
  let ?ov = "(le_word (entry_bytes E FW_CFG_IRQ0_OVERRIDE 0 4) :: u32) \<noteq> 0"
  let ?S = "MPTABLE_START :: addr" and ?es = "mp_entries (io_cpuid env) ?num ?ov"
  let ?img = "mp_image (io_cpuid env) ?num ?ov" and ?m = "store_bytes (mem s) MPTABLE_START (mp_image (io_cpuid env) ?num ?ov)"
  let ?A = "mpf_bytes (- sum_list (mpf_bytes 0))"
  define len where "len = (of_nat (44 + length ?es) :: u16)"
  let ?H = "mpc_header len (- sum_list (mpc_header len 0 @ ?es))"
  obtain d where run: "setup_mptable env s = Ret () (s\<lparr>mem := ?m, dev := d\<rparr>)"
    using fw_cfg_port.setup_mptable_writes [OF fw_cfg_port.intro [OF assms(1)] refl refl, of s] assms(2,3) by blast
  have img: "?img = ?A @ ?H @ ?es" unfolding mp_image_def Let_def len_def ..
  have size: "length ?img = 16 + 20 * cpus + extra" "44 + length ?es = 20 * cpus + extra"
    unfolding length_mp_image length_mp_entries assms(2,4) by simp_all
  have small: "20 * cpus + extra < 2 ^ 16" using assms(3,4) by simp
  then have len: "unat len = 20 * cpus + extra" unfolding len_def size(2) by (simp add: unat_of_nat del: of_nat_add of_nat_mult)
  have whole: "load_bytes ?m ?S (16 + 20 * cpus + extra) = ?img"
    using size small by (intro load_store_same) simp_all
  have head: "load_bytes ?m ?S 16 = ?A"
    using load_bytes_sub [of 0 16 "16 + 20 * cpus + extra" ?m ?S] by (simp add: whole) (simp add: img)
  have tail: "load_bytes ?m (?S + of_nat 16) (20 * cpus + extra) = ?H @ ?es"
    using load_bytes_sub [of 16 "20 * cpus + extra" "16 + 20 * cpus + extra" ?m ?S] size
    by (simp only: whole) (simp add: img)
  have "load_bytes ?m (?S + of_nat 20) 2 = take 2 (drop 4 ?H)"
  proof -
    have "20 + 2 \<le> 16 + 20 * cpus + extra" using assms(4) by (simp split: if_splits)
    then have "load_bytes ?m (?S + of_nat 20) 2 = take 2 (drop 20 (load_bytes ?m ?S (16 + 20 * cpus + extra)))"
      by (rule load_bytes_sub)
    then show ?thesis unfolding whole unfolding img by simp
  qed
  also have "\<dots> = le_bytes 2 len" by (simp add: structs_as_bytes chars_def)
  finally have l: "lduw_p ?m (?S + 20) = len" by (simp add: lduw_p_def le_word_le_bytes)
  have "mpf_physptr (dec_mpf (load_bytes ?m ?S 16)) = MPTABLE_START + 16"
    unfolding head mpf_bytes_def by (subst mpf_intel_struct.dec_enc) (simp_all add: chars_def)
  moreover have "load_bytes ?m (?S + of_nat 16 + of_nat 0) 44 = take 44 (drop 0 (load_bytes ?m (?S + of_nat 16) (20 * cpus + extra)))"
    using assms(4) by (intro load_bytes_sub) (simp split: if_splits)
  then have "load_bytes ?m (?S + 16) 44 = ?H" unfolding tail by simp
  then have "mpc_oemcount (dec_mpc (load_bytes ?m (?S + 16) 44)) = 0"
    by (simp only: mpc_header_def) (subst mpc_table_struct.dec_enc; simp add: chars_def)
  moreover have "csum8 ?m ?S 16 = 0" using head mpf_sum by (simp add: csum8_sum)
  moreover have "csum8 ?m (?S + 16) (ucast len) = 0" using tail mpc_sum [of len ?es] len by (simp add: csum8_sum)
  moreover have "?m a = mem s a" if "\<not> inside a ?S (16 + 20 * cpus + extra)" for a
    by (rule store_bytes_outside [OF that]) (use size small in simp_all)
  moreover have "unat ?S + 16 + 20 * cpus + extra \<le> 0xa0000 \<longleftrightarrow> cpus \<le> 40" using assms(4) by (simp; linarith)
  ultimately show ?thesis
    using run l len by (intro exI [of _ "s\<lparr>mem := ?m, dev := d\<rparr>"]) simp
qed

theorem mptable_checks_witness:
  "\<exists>s'. setup_mptable (ref_env two_cpus) (boot_machine (\<lambda>_. 0)) = Ret () s' \<and>
     csum8 (mem s') 0x9fc00 16 = 0 \<and> unat (lduw_p (mem s') 0x9fc14) = 236"
  using mptable_checks [OF ref_device [of two_cpus], of 2 196 "boot_machine (\<lambda>_. 0)"]
  by (auto simp: two_cpus_entries)

end
