(* ===== verification/Smbios.thy ===== *)
theory Smbios
  imports Reference Structs
begin

text \<open>
  smbios.c: the SMBIOS anchor and tables of the device are put into the F-segment; a type 0 structure
  is put in front of them when they have none; the anchor's checksums are made good.
\<close>

section \<open>A type 0 structure\<close>

text \<open>
  Offsets in \<open>struct smbios_type_0\<close>: type 0, length 1, handle 2, vendor_str 4, bios_version_str 5,
  bios_starting_address_segment 6, bios_release_date_str 8, bios_rom_size 9, bios_characteristics 10,
  extension bytes 18, releases 20 to 23. Its strings follow it. The state of the macro is memory, the end
  of what has been written, and the number of strings so far.
\<close>

definition set_str_field :: "addr \<Rightarrow> string \<Rightarrow> mem \<times> addr \<times> u32 \<Rightarrow> mem \<times> addr \<times> u32" where
  "set_str_field field value st =
     (let (m, strs, str_index) = st; sz = length value + 1 in
      if sz > 1
      then ((store_bytes m strs (chars value @ [0]))(field := ucast (str_index + 1)), strs + of_nat sz, str_index + 1)
      else (m(field := 0), strs, str_index))"

definition smbios_new_type_0 :: "addr \<Rightarrow> string \<Rightarrow> string \<Rightarrow> string \<Rightarrow> mem \<Rightarrow> mem" where
  "smbios_new_type_0 start vendor vers date m =
     (let m = m(start := 0);
          m = m(start + 1 := 24);
          m = stw_p (start + 2) 0 m;
          st = set_str_field (start + 4) vendor (m, start + 24, 0);
          (m, strs, str_index) = set_str_field (start + 5) vers st;
          m = stw_p (start + 6) 0xe800 m;
          (m, strs, str_index) = set_str_field (start + 8) date (m, strs, str_index);
          m = m(start + 9 := 0);
          m = memset (start + 10) 0 8 m;
          m = m(start + 10 := 0x08);
          m = m(start + 18 := 0, start + 19 := 4);
          m = m(start + 20 := 0, start + 21 := 0, start + 22 := 0xFF, start + 23 := 0xFF);
          m = m(strs := 0);
          strs = strs + 1
      in if str_index = 0 then m(strs := 0) else m)"

section \<open>Walking the tables\<close>

text \<open>
  Offsets in \<open>struct smbios_entry_point\<close>: checksum 4, length 5, max_structure_size 8,
  intermediate_checksum 21, structure_table_length 22, structure_table_address 24,
  number_of_structures 28; it has 31 bytes. \<open>None\<close> stands for NULL; \<open>smbios_skip\<close> looks for the two zero
  bytes that end the strings of a structure.
\<close>

function smbios_skip :: "mem \<Rightarrow> addr \<Rightarrow> addr \<Rightarrow> addr" where
  "smbios_skip m p stop =
     (if p < stop \<and> (m (p - 1) \<noteq> 0 \<or> m (p - 2) \<noteq> 0) then smbios_skip m (p + 1) stop else p)"
  by pat_completeness auto
termination
proof (relation "measure (\<lambda>(m, p, stop). unat (stop - p))")
  fix m :: mem and p stop :: addr
  assume "p < stop \<and> (m (p - 1) \<noteq> 0 \<or> m (p - 2) \<noteq> 0)"
  then have "stop - p \<noteq> 0" by auto
  then have "unat (stop - p - 1) < unat (stop - p)" by (simp add: unat_minus_one unat_gt_0)
  then have "unat (stop - (p + 1)) < unat (stop - p)" by (simp only: diff_diff_eq)
  then show "((m, p + 1, stop), m, p, stop) \<in> measure (\<lambda>(m, p, stop). unat (stop - p))"
    by simp
qed simp

declare smbios_skip.simps [simp del]

definition smbios_next :: "mem \<Rightarrow> addr \<Rightarrow> addr option \<Rightarrow> addr option" where
  "smbios_next m ep hdr =
     (let start = ldl_p m (ep + 24);
          stop = start + ucast (lduw_p m (ep + 22));
          check = (\<lambda>p. if p \<ge> stop \<or> p + 4 \<ge> stop \<or> p + ucast (m (p + 1)) \<ge> stop then None else Some p)
      in case hdr of
           None \<Rightarrow> check start
         | Some h \<Rightarrow> if h + 4 > stop then None
                     else check (smbios_skip m (h + (ucast (m (h + 1)) + 2)) stop))"

text \<open>Is there a structure of type 0? \<open>None\<close>: the search does not end.\<close>

partial_function (option) smbios_find_0 :: "mem \<Rightarrow> addr \<Rightarrow> addr option \<Rightarrow> bool option" where
  "smbios_find_0 m ep hdr =
     (case smbios_next m ep hdr of
        None \<Rightarrow> Some False
      | Some h \<Rightarrow> if m h = 0 then Some True else smbios_find_0 m ep (Some h))"

section \<open>extract_smbios\<close>

abbreviation (input) BIOS_NAME where "BIOS_NAME \<equiv> ''qboot''"
abbreviation (input) VERSION where "VERSION \<equiv> ''0.1''"
abbreviation (input) BIOS_DATE where "BIOS_DATE \<equiv> ''11/11/2019''"

definition t0_len :: u16 where
  "t0_len = 24 + of_nat (length BIOS_NAME) + of_nat (length VERSION) + of_nat (length BIOS_DATE) + 4"

definition smbios_add_type_0 :: "addr \<Rightarrow> addr \<Rightarrow> mem \<Rightarrow> mem" where
  "smbios_add_type_0 ep qtables m =
     (let m = smbios_new_type_0 (qtables - ucast t0_len) BIOS_NAME VERSION BIOS_DATE m;
          m = stw_p (ep + 28) (lduw_p m (ep + 28) + 1) m;
          m = stl_p (ep + 24) (ldl_p m (ep + 24) - ucast t0_len) m;
          m = stw_p (ep + 22) (lduw_p m (ep + 22) + t0_len) m
      in if t0_len > lduw_p m (ep + 8) then stw_p (ep + 8) t0_len m else m)"

definition smbios_checksums :: "addr \<Rightarrow> mem \<Rightarrow> mem" where
  "smbios_checksums ep m =
     (let m = m(ep + 4 := m (ep + 4) - csum8 m ep 0x10)
      in m(ep + 21 := m (ep + 21) - csum8 m (ep + 0x10) (ucast (m (ep + 5)) - 0x10)))"

definition extract_smbios :: "'d env \<Rightarrow> ('d, unit) fw" where
  "extract_smbios env =
     bind get_state (\<lambda>s. let fid = fw_cfg_file_id (literal ''etc/smbios/smbios-anchor'') s in
     if fid = -1 \<or> 31 \<noteq> fw_cfg_file_size fid s then ret ()
     else bind (malloc_fseg 31) (\<lambda>ep.
     if ep = 0 then ret ()
     else andthen (fw_cfg_read_file env fid ep 31)
     (bind get_state (\<lambda>s. let qtables_length = lduw_p (mem s) (ep + 22);
                              fid = fw_cfg_file_id (literal ''etc/smbios/smbios-tables'') s in
     if fid = -1 \<or> ucast qtables_length \<noteq> fw_cfg_file_size fid s then ret ()
     else bind (malloc_fseg (ucast qtables_length + ucast t0_len)) (\<lambda>qtables.
     if qtables = 0 then ret ()
     else let qtables = qtables + ucast t0_len in
     andthen (fw_cfg_read_file env fid qtables (ucast qtables_length))
     (andthen (on_mem (stl_p (ep + 24) qtables))
     (andthen (on_mem (stw_p (ep + 22) qtables_length))
     (bind get_state (\<lambda>s. case smbios_find_0 (mem s) ep None of
        None \<Rightarrow> (\<lambda>_. Hang)
      | Some found \<Rightarrow>
          andthen (when_do (\<not> found) (on_mem (smbios_add_type_0 ep qtables)))
          (on_mem (smbios_checksums ep)))))))))))"

section \<open>The walk ends\<close>

definition tables_start :: "mem \<Rightarrow> addr \<Rightarrow> addr" where
  "tables_start m ep = ldl_p m (ep + 24)"

definition tables_stop :: "mem \<Rightarrow> addr \<Rightarrow> addr" where
  "tables_stop m ep = tables_start m ep + ucast (lduw_p m (ep + 22))"

text \<open>The tables do not reach the last bytes of the address space.\<close>

definition tables_low :: "mem \<Rightarrow> addr \<Rightarrow> bool" where
  "tables_low m ep \<longleftrightarrow> unat (tables_start m ep) + unat (lduw_p m (ep + 22)) + 260 < 2 ^ 32"

lemma unat_tables_stop:
  assumes "tables_low m ep"
  shows "unat (tables_stop m ep) = unat (tables_start m ep) + unat (lduw_p m (ep + 22))"
  unfolding tables_stop_def using assms by (subst unat_add_less) (simp_all add: tables_low_def)

lemma smbios_skip_ge: "unat p \<le> unat (smbios_skip m p stop)"
proof (induction m p stop rule: smbios_skip.induct)
  case (1 m p stop)
  show ?case
  proof (cases "p < stop \<and> (m (p - 1) \<noteq> 0 \<or> m (p - 2) \<noteq> 0)")
    case True
    then have "unat p < unat stop" by (simp add: word_less_nat_alt)
    then have "unat p < unat (p + 1)" using unat_bound [of stop] by (simp add: unat_word_ariths)
    moreover have "smbios_skip m p stop = smbios_skip m (p + 1) stop"
      using True by (subst smbios_skip.simps) simp
    ultimately show ?thesis using 1 True by simp
  next
    case False
    have "smbios_skip m p stop = p" by (subst smbios_skip.simps) (rule if_not_P [OF False])
    then show ?thesis by simp
  qed
qed

text \<open>A step goes forward and stays in the tables.\<close>

lemma smbios_next_forward:
  assumes "tables_low m ep" and "smbios_next m ep hdr = Some h"
  shows "unat h + 4 < unat (tables_stop m ep)"
    and "case hdr of None \<Rightarrow> h = tables_start m ep
      | Some h' \<Rightarrow> unat h' + 4 < unat (tables_stop m ep) \<longrightarrow> unat h' < unat h"
proof -
  let ?stop = "tables_stop m ep"
  have stop: "unat ?stop + 260 < 2 ^ 32" using assms(1) by (simp add: unat_tables_stop) (simp add: tables_low_def)
  have step: "smbios_next m ep hdr = (let check = (\<lambda>p. if p \<ge> ?stop \<or> p + 4 \<ge> ?stop \<or> p + ucast (m (p + 1)) \<ge> ?stop
      then None else Some p) in case hdr of None \<Rightarrow> check (tables_start m ep)
      | Some h \<Rightarrow> if h + 4 > ?stop then None else check (smbios_skip m (h + (ucast (m (h + 1)) + 2)) ?stop))"
    unfolding smbios_next_def tables_stop_def tables_start_def Let_def ..
  have h: "h < ?stop" "h + 4 < ?stop" using assms(2) by (auto simp: step Let_def split: option.splits if_splits)
  then have "unat (h + 4) = unat h + 4" using stop by (simp add: word_less_nat_alt unat_add_less)
  with h(2) show "unat h + 4 < unat ?stop" by (simp add: word_less_nat_alt)
  show "case hdr of None \<Rightarrow> h = tables_start m ep
    | Some h' \<Rightarrow> unat h' + 4 < unat ?stop \<longrightarrow> unat h' < unat h"
  proof (cases hdr)
    case None
    then show ?thesis using assms(2) unfolding step by (simp add: Let_def split: if_splits)
  next
    case (Some h')
    let ?q = "h' + (ucast (m (h' + 1)) + 2)"
    have h: "h = smbios_skip m ?q ?stop"
      using assms(2) unfolding step unfolding Some by (simp add: Let_def split: if_splits)
    have "unat h' < unat ?q" if "unat h' + 4 < unat ?stop"
    proof -
      have b: "unat (m (h' + 1)) < 256" using unat_bound [of "m (h' + 1)"] by simp
      then have "unat (ucast (m (h' + 1)) + 2 :: u32) = unat (m (h' + 1)) + 2" by (subst unat_add_less) simp_all
      with b stop that show ?thesis by (subst unat_add_less) simp_all
    qed
    then show ?thesis using smbios_skip_ge [of ?q m ?stop] by (auto simp: Some h(1))
  qed
qed

text \<open>The \<open>k\<close>-th structure the walk meets.\<close>

primrec nth_structure :: "mem \<Rightarrow> addr \<Rightarrow> nat \<Rightarrow> addr option" where
  "nth_structure m ep 0 = smbios_next m ep None"
| "nth_structure m ep (Suc k) =
     (case nth_structure m ep k of None \<Rightarrow> None | Some h \<Rightarrow> smbios_next m ep (Some h))"

lemma smbios_find_0_from:
  assumes low: "tables_low m ep"
    and "case hdr of None \<Rightarrow> True | Some h \<Rightarrow> unat h + 4 < unat (tables_stop m ep) \<and> nth_structure m ep k = Some h"
    and "k = (case hdr of None \<Rightarrow> 0 | Some _ \<Rightarrow> k)"
    and "\<forall>j h. j < k \<or> (j = k \<and> hdr \<noteq> None) \<longrightarrow> nth_structure m ep j = Some h \<longrightarrow> m h \<noteq> 0"
  shows "smbios_find_0 m ep hdr = Some (\<exists>k h. nth_structure m ep k = Some h \<and> m h = 0)"
  using assms(2-)
proof (induction "case hdr of None \<Rightarrow> 2 ^ 32 | Some h \<Rightarrow> unat (tables_stop m ep) - unat h"
    arbitrary: hdr k rule: less_induct)
  case less
  define j where "j = (case hdr of None \<Rightarrow> 0 | Some _ \<Rightarrow> Suc k)"
  have j: "nth_structure m ep j = smbios_next m ep hdr"
    using less.prems(1) by (auto simp: j_def split: option.splits)
  have before: "m h \<noteq> 0" if "i < j" "nth_structure m ep i = Some h" for i h
    using less.prems(3) that by (auto simp: j_def less_Suc_eq split: option.splits)
  show ?case
  proof (cases "smbios_next m ep hdr")
    case None
    have "nth_structure m ep (j + i) = None" for i
      by (induction i) (simp_all add: j None)
    then have "nth_structure m ep i = None" if "\<not> i < j" for i
      using that by (metis le_add_diff_inverse not_less)
    then have "\<not> (\<exists>k h. nth_structure m ep k = Some h \<and> m h = 0)"
      using before by (metis option.distinct(1))
    then show ?thesis using None by (subst smbios_find_0.simps) auto
  next
    case (Some h)
    note fw = smbios_next_forward [OF low Some]
    show ?thesis
    proof (cases "m h = 0")
      case True
      then show ?thesis using Some j by (subst smbios_find_0.simps) auto
    next
      case False
      have "smbios_find_0 m ep (Some h) = Some (\<exists>k h. nth_structure m ep k = Some h \<and> m h = 0)"
      proof (rule less.hyps [where k = j])
        show "(case Some h of None \<Rightarrow> 2 ^ 32 | Some h \<Rightarrow> unat (tables_stop m ep) - unat h)
          < (case hdr of None \<Rightarrow> 2 ^ 32 | Some h \<Rightarrow> unat (tables_stop m ep) - unat h)"
          using fw less.prems(1) unat_bound [of "tables_stop m ep"] by (auto split: option.splits)
      qed (use fw(1) j Some False before in \<open>auto simp: le_less\<close>)
      then show ?thesis using Some False by (subst smbios_find_0.simps) simp
    qed
  qed
qed

text \<open>
  C13: the search of extract_smbios for a structure of type 0 always ends when the tables lie below the
  last 260 bytes of the address space, whatever the tables hold, and its answer is whether some structure
  reached by smbios_next from the first one has type 0.
\<close>

theorem smbios_search_ends:
  assumes "tables_low m ep"
  shows "smbios_find_0 m ep None = Some (\<exists>k h. nth_structure m ep k = Some h \<and> m h = 0)"
  by (rule smbios_find_0_from [OF assms, where k = 0]) simp_all

lemma smbios_search_ends_witness:
  "smbios_find_0 (stl_p 24 0x100 (stw_p 22 0x20 (store_bytes (\<lambda>_. 0) 0x100 [1, 6, 0, 0, 7, 7, 0, 0, 0, 8])))
    0 None \<noteq> None"
proof -
  let ?m = "stl_p 24 0x100 (stw_p 22 0x20 (store_bytes (\<lambda>_. 0) 0x100 [1, 6, 0, 0, 7, 7, 0, 0, 0, 8]))"
  have "tables_low ?m 0"
    by (simp add: tables_low_def tables_start_def mem_simps apart_def del: store_bytes.simps)
  from smbios_search_ends [OF this] show ?thesis by simp
qed

section \<open>What is written\<close>

text \<open>The type 0 structure, with its three strings and the empty one that ends them.\<close>

definition type_0_image :: "u8 list" where
  "type_0_image = enc_type_0 \<lparr>t0_type = 0, t0_length = 24, t0_handle = 0, t0_vendor_str = 1, t0_bios_version_str = 2,
       t0_bios_starting_address_segment = 0xe800, t0_bios_release_date_str = 3, t0_bios_rom_size = 0,
       t0_bios_characteristics = [8, 0, 0, 0, 0, 0, 0, 0], t0_bios_characteristics_extension_bytes = [0, 4],
       t0_system_bios_major_release = 0, t0_system_bios_minor_release = 0,
       t0_embedded_controller_major_release = 0xff, t0_embedded_controller_minor_release = 0xff\<rparr>
     @ chars BIOS_NAME @ [0] @ chars VERSION @ [0] @ chars BIOS_DATE @ [0] @ [0]"

lemma type_0_image_bytes:
  "type_0_image = [0, 24, 0, 0, 1, 2, 0, 0xe8, 3, 0, 8, 0, 0, 0, 0, 0, 0, 0, 0, 4, 0, 0, 0xff, 0xff]
     @ chars ''qboot'' @ [0] @ chars ''0.1'' @ [0] @ chars ''11/11/2019'' @ [0] @ [0]"
  by (simp add: type_0_image_def enc_type_0_def le_bytes_2)

lemma t0_len_eq: "t0_len = 46"
  by (simp add: t0_len_def)

lemma length_type_0_image: "length type_0_image = 46"
  by (simp add: type_0_image_bytes chars_def)

definition type_0_fields :: "(nat \<times> u8 list) list" where
  "type_0_fields = [(0, [0]), (1, [24]), (2, [0, 0]), (24, chars ''qboot'' @ [0]), (4, [1]),
     (30, chars ''0.1'' @ [0]), (5, [2]), (6, [0, 0xe8]), (34, chars ''11/11/2019'' @ [0]), (8, [3]), (9, [0]),
     (10, [0, 0, 0, 0, 0, 0, 0, 0]), (10, [8]), (18, [0]), (19, [4]), (20, [0]), (21, [0]), (22, [0xff]), (23, [0xff]), (45, [0])]"

lemma u8_59392: "(59392 :: u8) = 0"
  by simp

lemma smbios_new_type_0_writes:
  "smbios_new_type_0 p ''qboot'' ''0.1'' ''11/11/2019'' m = fold (write_field p) type_0_fields m"
  unfolding smbios_new_type_0_def Let_def set_str_field_def stw_p_def memset_def upd_store 
  by (simp add: le_bytes_2 replicate_8 type_0_fields_def write_field_def chars_def del: store_bytes.simps fun_upd_apply)
     (simp add: add.commute u8_59392 del: store_bytes.simps)

lemma type_0_fields_fit: "fields_fit type_0_fields 46"
  by (simp add: fields_fit_def type_0_fields_def chars_def)

lemma type_0_layout: "layout type_0_fields (load_bytes m p 46) = type_0_image"
  unfolding load_bytes_numeral
  by (simp add: layout_def type_0_fields_def splice_def type_0_image_bytes chars_def)
text \<open>The anchor: both sums, and nothing else.\<close>

lemma smbios_checksums_result:
  assumes "22 \<le> unat (m (ep + 5))"
  shows "sum_list (load_bytes (smbios_checksums ep m) ep 16) = 0"
    "sum_list (load_bytes (smbios_checksums ep m) (ep + 16) (unat (m (ep + 5)) - 16)) = 0"
    "a \<noteq> ep + 4 \<Longrightarrow> a \<noteq> ep + 21 \<Longrightarrow> smbios_checksums ep m a = m a"
proof -
  let ?L = "unat (m (ep + 5))"
  define m1 where "m1 = m(ep + 4 := m (ep + 4) - csum8 m ep 0x10)"
  have L: "unat (ucast (m (ep + 5)) - 0x10 :: u32) = ?L - 16"
    using assms by (subst unat_sub_le) simp_all
  have m2: "smbios_checksums ep m = m1(ep + 21 := m1 (ep + 21) - csum8 m1 (ep + 16) (ucast (m1 (ep + 5)) - 0x10))"
    by (simp add: smbios_checksums_def m1_def Let_def)
  have m1_5: "m1 (ep + 5) = m (ep + 5)" by (simp add: m1_def)
  have "load_bytes (smbios_checksums ep m) ep 16 = load_bytes m1 ep 16"
  proof (rule load_bytes_cong)
    fix i :: nat assume "i < 16"
    then have "unat (of_nat i :: u32) < unat (21 :: u32)" by (simp add: unat_of_nat)
    then show "smbios_checksums ep m (ep + of_nat i) = m1 (ep + of_nat i)" by (auto simp: m2)
  qed
  moreover have "sum_list (load_bytes m1 ep 16) = 0"
    using checksum_fix [of 4 16 m ep] by (simp add: m1_def csum8_sum)
  ultimately show "sum_list (load_bytes (smbios_checksums ep m) ep 16) = 0" by simp
  show "sum_list (load_bytes (smbios_checksums ep m) (ep + 16) (?L - 16)) = 0"
    using checksum_fix [of 5 "?L - 16" m1 "ep + 16", unfolded add.assoc] assms unat_bound [of "m (ep + 5)"]
    by (simp add: m2 csum8_sum m1_5 L)
  show "a \<noteq> ep + 4 \<Longrightarrow> a \<noteq> ep + 21 \<Longrightarrow> smbios_checksums ep m a = m a"
    by (simp add: m2 m1_def)
qed

section \<open>The walk depends on the tables only\<close>

definition same_tables :: "mem \<Rightarrow> mem \<Rightarrow> addr \<Rightarrow> bool" where
  "same_tables m m' ep \<longleftrightarrow> tables_start m' ep = tables_start m ep \<and>
     lduw_p m' (ep + 22) = lduw_p m (ep + 22) \<and>
     (\<forall>a. unat (tables_start m ep) \<le> unat a \<and> unat a < unat (tables_stop m ep) \<longrightarrow> m' a = m a)"

lemma smbios_skip_cong:
  assumes "\<forall>a. unat start \<le> unat a \<and> unat a < unat stop \<longrightarrow> m' a = m a"
    and "unat start + 2 \<le> unat p"
  shows "smbios_skip m' p stop = smbios_skip m p stop"
  using assms
proof (induction m p stop rule: smbios_skip.induct)
  case (1 m p stop)
  show ?case
  proof (cases "p < stop")
    case True
    have p: "unat (p - 1) = unat p - 1" "unat (p - 2) = unat p - 2"
      using 1(3) by (subst unat_sub_le; simp)+
    have "unat p < unat stop" using True by (simp add: word_less_nat_alt)
    then have "unat start \<le> unat (p - 1)" "unat (p - 1) < unat stop"
      "unat start \<le> unat (p - 2)" "unat (p - 2) < unat stop"
      using 1(3) unfolding p by linarith+
    then have same: "m' (p - 1) = m (p - 1)" "m' (p - 2) = m (p - 2)" using 1(2) by blast+
    have "unat (p + 1) = unat p + 1"
      using \<open>unat p < unat stop\<close> unat_bound [of stop] by (subst unat_add_less) simp_all
    then have "smbios_skip m' (p + 1) stop = smbios_skip m (p + 1) stop" if "m (p - 1) \<noteq> 0 \<or> m (p - 2) \<noteq> 0"
      using that True 1 by simp
    then show ?thesis
      unfolding smbios_skip.simps [of m' p] smbios_skip.simps [of m p] same by (intro if_cong) auto
  next
    case False
    then show ?thesis unfolding smbios_skip.simps [of m' p] smbios_skip.simps [of m p] by simp
  qed
qed

lemma smbios_next_cong:
  assumes same: "same_tables m m' ep" and low: "tables_low m ep"
    and hdr: "case hdr of None \<Rightarrow> True
      | Some h \<Rightarrow> unat (tables_start m ep) \<le> unat h \<and> unat h + 4 < unat (tables_stop m ep)"
  shows "smbios_next m' ep hdr = smbios_next m ep hdr"
proof -
  let ?start = "tables_start m ep" and ?stop = "tables_stop m ep"
  define check where "check m p = (if p \<ge> ?stop \<or> p + 4 \<ge> ?stop \<or> p + ucast (m (p + 1)) \<ge> ?stop then None else Some p)"
    for m :: mem and p :: addr
  have stop: "unat ?stop + 260 < 2 ^ 32" using low by (simp add: unat_tables_stop) (simp add: tables_low_def)
  have step: "smbios_next m ep hdr = (case hdr of None \<Rightarrow> check m ?start
      | Some h \<Rightarrow> if h + 4 > ?stop then None else check m (smbios_skip m (h + (ucast (m (h + 1)) + 2)) ?stop))"
    unfolding smbios_next_def tables_stop_def tables_start_def Let_def check_def ..
  have step': "smbios_next m' ep hdr = (case hdr of None \<Rightarrow> check m' ?start
      | Some h \<Rightarrow> if h + 4 > ?stop then None else check m' (smbios_skip m' (h + (ucast (m' (h + 1)) + 2)) ?stop))"
  proof -
    have eqs: "ldl_p m' (ep + 24) = ?start" "lduw_p m' (ep + 22) = lduw_p m (ep + 22)"
      using same by (simp_all add: same_tables_def tables_start_def)
    show ?thesis unfolding smbios_next_def eqs tables_stop_def Let_def check_def ..
  qed
  have at: "m' a = m a" if "unat ?start \<le> unat a" "unat a < unat ?stop" for a
    using same that by (simp add: same_tables_def)
  have check: "check m' p = check m p" if "unat ?start \<le> unat p" for p
  proof (cases "p < ?stop \<and> p + 4 < ?stop")
    case True
    then have "unat p < unat ?stop" by (simp add: word_less_nat_alt)
    then have "unat (p + 4) = unat p + 4" "unat (p + 1) = unat p + 1" using stop by (subst unat_add_less; simp)+
    then have "m' (p + 1) = m (p + 1)" using that True by (intro at) (simp_all add: word_less_nat_alt)
    then show ?thesis by (simp add: check_def)
  qed (auto simp: check_def)
  show ?thesis
  proof (cases hdr)
    case None
    then show ?thesis unfolding step step' using check by simp
  next
    case (Some h)
    then have h: "unat ?start \<le> unat h" "unat h + 4 < unat ?stop" using hdr by simp_all
    have "unat (h + 1) = unat h + 1" using h stop by (subst unat_add_less) simp_all
    then have m_h: "m' (h + 1) = m (h + 1)" using h by (intro at) simp_all
    let ?q = "h + (ucast (m (h + 1)) + 2)"
    have b: "unat (m (h + 1)) < 256" using unat_bound [of "m (h + 1)"] by simp
    then have "unat (ucast (m (h + 1)) + 2 :: u32) = unat (m (h + 1)) + 2" by (subst unat_add_less) simp_all
    then have "unat ?q = unat h + unat (m (h + 1)) + 2" using b stop h by (subst unat_add_less) simp_all
    then have q: "unat ?start + 2 \<le> unat ?q" using h by simp
    have "smbios_skip m' ?q ?stop = smbios_skip m ?q ?stop"
      using at q by (intro smbios_skip_cong [where start = ?start]) auto
    moreover have "unat ?start \<le> unat (smbios_skip m ?q ?stop)"
      using smbios_skip_ge [of ?q m ?stop] q by simp
    ultimately show ?thesis unfolding step step' unfolding Some by (simp add: m_h check)
  qed
qed

lemma nth_structure_cong:
  assumes same: "same_tables m m' ep" and low: "tables_low m ep"
  shows "nth_structure m' ep k = nth_structure m ep k \<and> (\<forall>h. nth_structure m ep k = Some h \<longrightarrow>
    unat (tables_start m ep) \<le> unat h \<and> unat h + 4 < unat (tables_stop m ep))"
proof (induction k)
  case 0
  have "smbios_next m' ep None = smbios_next m ep None" using assms by (intro smbios_next_cong) simp_all
  then show ?case using smbios_next_forward [OF low, of None] by auto
next
  case (Suc k)
  show ?case
  proof (cases "nth_structure m ep k")
    case (Some h)
    with Suc have h: "unat (tables_start m ep) \<le> unat h" "unat h + 4 < unat (tables_stop m ep)" by simp_all
    with assms have "smbios_next m' ep (Some h) = smbios_next m ep (Some h)" by (intro smbios_next_cong) simp_all
    then show ?thesis using Suc Some h smbios_next_forward [OF low, of "Some h"] by fastforce
  qed (use Suc in simp)
qed

lemma smbios_find_0_cong:
  assumes same: "same_tables m m' ep" and low: "tables_low m ep"
  shows "smbios_find_0 m' ep None = smbios_find_0 m ep None"
proof -
  have low': "tables_low m' ep" using assms by (simp add: tables_low_def same_tables_def)
  have "m' h = m h" if "nth_structure m ep k = Some h" for k h
    using nth_structure_cong [OF assms, of k] that same by (simp add: same_tables_def)
  then have "(\<exists>k h. nth_structure m' ep k = Some h \<and> m' h = 0) = (\<exists>k h. nth_structure m ep k = Some h \<and> m h = 0)"
    using nth_structure_cong [OF assms] by metis
  then show ?thesis using smbios_find_0_from [OF low, where hdr = None and k = 0] smbios_find_0_from [OF low', where hdr = None and k = 0] by simp
qed

section \<open>What extract_smbios publishes\<close>

lemma malloc_fseg_room:
  assumes "unat (fseg_base s) + 16 + unat n \<le> 2 ^ 32"
  obtains p where "malloc_fseg n s = Ret p (s\<lparr>fseg_base := p + n\<rparr>)"
    "unat (fseg_base s) \<le> unat p" "unat p < unat (fseg_base s) + 16" "unat p mod 16 = 0"
    "unat (p + n) = unat p + unat n"
proof -
  have fits: "fseg_fits n 16 s" using assms by (simp add: fseg_fits_def)
  obtain p s' where run: "malloc_fseg_align n 16 s = Ret p s'" by (simp add: malloc_fseg_align_apply Let_def)
  with malloc_fseg_align_bounds [OF fits run] show ?thesis by (intro that [of p]) (simp_all add: malloc_fseg_def)
qed

text \<open>Up to the search: the anchor and the tables are in memory, and the anchor points to the tables.\<close>

definition smbios_read :: "mem \<Rightarrow> addr \<Rightarrow> addr \<Rightarrow> u8 list \<Rightarrow> u8 list \<Rightarrow> bool" where
  "smbios_read m ep q A T \<longleftrightarrow> m (ep + 5) = A ! 5 \<and> tables_start m ep = q \<and>
     lduw_p m (ep + 22) = of_nat (length T) \<and> load_bytes m q (length T) = T \<and>
     anchor_at m ep = (dec_entry_point A)\<lparr>ep_structure_table_address := q\<rparr>"

context fw_cfg_port
begin

lemma extract_smbios_reads:
  fixes s :: "'d machine" and len :: u16
  assumes low: "unat (dma_desc env) + 16 \<le> unat (files s)"
    "unat (files s) + 64 * length (file_table s) \<le> unat (fseg_base s)"
    and i: "index_of (file_named (chars ''etc/smbios/smbios-anchor'')) (file_table s) = Some i"
    and j: "index_of (file_named (chars ''etc/smbios/smbios-tables'')) (file_table s) = Some j"
    and sizes: "file_size (file_table s ! i) = 31" "file_size (file_table s ! j) = ucast len"
    and A: "A = entry_bytes E (file_select (file_table s ! i)) 0 31" and len: "len = le_word (take 2 (drop 22 A))"
    and T: "T = entry_bytes E (file_select (file_table s ! j)) 0 (unat len)"
    and room: "unat (fseg_base s) + unat len + 512 \<le> 2 ^ 32"
  obtains ep q m t where "extract_smbios env s = (case smbios_find_0 m ep None of None \<Rightarrow> Hang
      | Some found \<Rightarrow> Ret () (t\<lparr>mem := smbios_checksums ep (if found then m else smbios_add_type_0 ep q m)\<rparr>))"
    "smbios_read m ep q A T" "unat (fseg_base s) \<le> unat ep" "unat ep mod 16 = 0" "unat ep + 31 + 46 \<le> unat q"
    "unat q + unat len + 260 < 2 ^ 32" "t = s\<lparr>mem := mem t, dev := dev t, fseg_base := q + ucast len\<rparr>"
    "unat q + unat len \<le> unat (fseg_base s) + unat len + 110"
    "\<And>a. unat a < unat (fseg_base s) \<Longrightarrow> \<not> inside a (dma_desc env) 16 \<Longrightarrow> m a = mem s a"
proof -
  let ?ft = "file_table s"
  have ij: "i < length ?ft" "j < length ?ft" using i j by (simp_all add: index_of_less)
  have str: "is_string (literal ''etc/smbios/smbios-anchor'') (chars ''etc/smbios/smbios-anchor'')"
    "is_string (literal ''etc/smbios/smbios-tables'') (chars ''etc/smbios/smbios-tables'')"
    unfolding chars_def by (rule is_string_literal, simp)+
  have id1: "fw_cfg_file_id (literal ''etc/smbios/smbios-anchor'') s = of_nat i"
    by (simp add: fw_cfg_file_id_index [OF str(1)] i)
  have size1: "fw_cfg_file_size (of_nat i) s = 31" using fw_cfg_file_size_entry [OF ij(1)] sizes(1) by simp
  obtain ep where ep: "malloc_fseg 31 s = Ret ep (s\<lparr>fseg_base := ep + 31\<rparr>)"
    "unat (fseg_base s) \<le> unat ep" "unat ep < unat (fseg_base s) + 16" "unat ep mod 16 = 0"
    "unat (ep + 31) = unat ep + 31"
    using malloc_fseg_room [of s 31] room by auto
  define s1 where "s1 = s\<lparr>fseg_base := ep + 31\<rparr>"
  have t1: "file_table s1 = ?ft" "files s1 = files s" by (simp_all add: s1_def file_table_def)
  have c1: "unat (files s) + 64 * length ?ft \<le> unat ep" "unat ep + unat (31 :: u32) \<le> 2 ^ 32"
    using low ep room by simp_all
  obtain m1 d1 where r1: "fw_cfg_read_file env (of_nat i) ep 31 s1 = Ret () (s1\<lparr>mem := m1, dev := d1\<rparr>)"
    "load_bytes m1 ep (unat (31 :: u32)) = entry_bytes E (file_select (?ft ! i)) 0 (unat (31 :: u32))"
    "\<And>a. unat (dma_desc env) + 16 \<le> unat a \<Longrightarrow> \<not> inside a ep (unat (31 :: u32)) \<Longrightarrow> m1 a = mem s1 a"
    "file_table (s1\<lparr>mem := m1, dev := d1\<rparr>) = ?ft"
    "\<And>a. \<not> inside a (dma_desc env) 16 \<Longrightarrow> \<not> inside a ep (unat (31 :: u32)) \<Longrightarrow> m1 a = mem s1 a"
    by (rule read_file_above [of s1 ep 31 i, unfolded t1, OF low(1) c1 ij(1)]) (rule that; assumption)
  define s2 where "s2 = s1\<lparr>mem := m1, dev := d1\<rparr>"
  have t2: "file_table s2 = ?ft" "files s2 = files s" using r1(4) by (simp_all add: s2_def s1_def)
  have len1: "lduw_p m1 (ep + 22) = len"
    using load_bytes_sub [of 22 2 31 m1 ep] r1(2) by (simp add: lduw_p_def len A)
  have id2: "fw_cfg_file_id (literal ''etc/smbios/smbios-tables'') s2 = of_nat j"
    by (simp add: fw_cfg_file_id_index [OF str(2)] t2 j)
  have size2: "fw_cfg_file_size (of_nat j) s2 = ucast len"
    using fw_cfg_file_size_entry [of j s2] sizes(2) ij(2) by (simp add: t2)
  have l46: "unat (ucast len + 46 :: u32) = unat len + 46"
    using unat_bound [of len] by (subst unat_add_less) simp_all
  obtain q where q: "malloc_fseg (ucast len + 46) s2 = Ret q (s2\<lparr>fseg_base := q + (ucast len + 46)\<rparr>)"
    "unat (ep + 31) \<le> unat q" "unat q < unat (ep + 31) + 16"
    using malloc_fseg_room [of s2 "ucast len + 46"] room ep(3,5) unfolding l46 by (auto simp: s2_def s1_def)
  have q46: "unat (q + 46) = unat q + 46" using q(3) ep(3,5) room by (subst unat_add_less) simp_all
  define s3 where "s3 = s2\<lparr>fseg_base := q + (ucast len + 46)\<rparr>"
  have t3: "file_table s3 = ?ft" "files s3 = files s" using t2 by (simp_all add: s3_def file_table_def)
  have c2: "unat (files s) + 64 * length ?ft \<le> unat (q + 46)" "unat (q + 46) + unat (ucast len :: u32) \<le> 2 ^ 32"
    using low ep q q46 room by simp_all
  obtain m2 d2 where r2: "fw_cfg_read_file env (of_nat j) (q + 46) (ucast len) s3 = Ret () (s3\<lparr>mem := m2, dev := d2\<rparr>)"
    "load_bytes m2 (q + 46) (unat (ucast len :: u32)) = entry_bytes E (file_select (?ft ! j)) 0 (unat (ucast len :: u32))"
    "\<And>a. unat (dma_desc env) + 16 \<le> unat a \<Longrightarrow> \<not> inside a (q + 46) (unat (ucast len :: u32)) \<Longrightarrow> m2 a = mem s3 a"
    "file_table (s3\<lparr>mem := m2, dev := d2\<rparr>) = ?ft"
    "\<And>a. \<not> inside a (dma_desc env) 16 \<Longrightarrow> \<not> inside a (q + 46) (unat (ucast len :: u32)) \<Longrightarrow> m2 a = mem s3 a"
    by (rule read_file_above [of s3 "q + 46" "ucast len" j, unfolded t3, OF low(1) c2 ij(2)]) (rule that; assumption)
  define m where "m = stw_p (ep + 22) len (stl_p (ep + 24) (q + 46) m2)"
  have above: "m2 a = m1 a" if "inside a ep 31" for a
  proof -
    have "unat ep \<le> unat a" "unat a < unat ep + 31"
      using that ep(3) room unat_bound [of a] by (simp_all add: inside_def unat_sub_if' split: if_splits)
    then have "\<not> inside a (q + 46) (unat (ucast len :: u32))"
      using q q46 ep room by (simp add: inside_def unat_sub_if')
    then show ?thesis using r2(3) [of a] \<open>unat ep \<le> unat a\<close> low ep(2) by (simp add: s3_def s2_def)
  qed
  have far: "apart (ep + 22) 2 (q + 46) (unat len)" "apart (ep + 24) 4 (q + 46) (unat len)"
    using ep q q46 room by (intro apart_interval; simp add: unat_add_less)+
  have "m1 (ep + 5) = A ! 5"
    using r1(2) nth_load_bytes [of 5 31 m1 ep] by (simp add: A)
  moreover have "inside (ep + 5) ep 31" by (simp add: inside_def)
  moreover have "load_bytes m (q + 46) (unat len) = load_bytes m2 (q + 46) (unat len)"
    unfolding m_def stw_p_def stl_p_def using far by (simp add: load_store_apart)
  moreover have "anchor_at m ep = (dec_entry_point A)\<lparr>ep_structure_table_address := q + 46\<rparr>"
  proof -
    have "load_bytes m2 ep 31 = load_bytes m1 ep 31" by (intro load_bytes_cong above inside_offset) simp_all
    then have "anchor_at m2 ep = dec_entry_point A" using r1(2) by (simp add: anchor_at_def A)
    moreover have "ep_structure_table_length (dec_entry_point A) = len" by (simp add: dec_entry_point_def len)
    ultimately show ?thesis by (simp add: m_def mem_simps)
  qed
  ultimately have "smbios_read m ep (q + 46) A T"
    using above [of "ep + 5"] r2(2)
    by (simp add: smbios_read_def tables_start_def m_def mem_simps apart_def T stw_p_at stl_p_at inside_def)
  moreover have "extract_smbios env s = (case smbios_find_0 m ep None of None \<Rightarrow> Hang
      | Some found \<Rightarrow> Ret () (s3\<lparr>dev := d2, mem := smbios_checksums ep (if found then m else smbios_add_type_0 ep (q + 46) m)\<rparr>))"
  proof -
    have swap: "s3\<lparr>mem := x, dev := d2\<rparr> = s3\<lparr>dev := d2, mem := x\<rparr>" for x by (cases s3) simp
    have nz: "ep \<noteq> 0" "q \<noteq> 0" using low ep q by auto
    have ne: "of_nat i \<noteq> (- 1 :: u32)" "of_nat j \<noteq> (- 1 :: u32)"
      using file_id_not_minus_one ij by blast+
    have q': "malloc_fseg (ucast len + 46) (s\<lparr>fseg_base := ep + 31, mem := m1, dev := d1\<rparr>) = Ret q s3"
      using q(1) by (simp add: s3_def s2_def s1_def)
    note run = r1(1) [unfolded s1_def] r2(1) id1 size1 id2 [unfolded s2_def s1_def] size2 [unfolded s2_def s1_def]
    show ?thesis
      by (simp add: extract_smbios_def prog_simps Let_def ep(1) q' run nz ne len1 t0_len_eq m_def swap
          cong: option.case_cong split: option.split)
  qed
  moreover have "m a = mem s a" if "unat a < unat (fseg_base s)" "\<not> inside a (dma_desc env) 16" for a
  proof -
    have "\<not> inside a (p + of_nat i) k" if "unat (fseg_base s) \<le> unat p" "unat p + i + k \<le> 2 ^ 32" for p i k
    proof (cases "k = 0")
      case False
      then have "unat (p + of_nat i) = unat p + i" using that by (subst unat_add_less) (simp_all add: unat_of_nat)
      then show ?thesis using that \<open>unat a < unat (fseg_base s)\<close> by (subst inside_interval) simp_all
    qed (simp add: inside_def)
    from this [of ep 0 31] this [of q 46 "unat len"] this [of ep 22 2] this [of ep 24 4] show ?thesis
      using r1(5) [OF that(2)] r2(5) [OF that(2)] ep q q46 room
      by (simp add: m_def s3_def s2_def s1_def stw_p_at stl_p_at)
  qed
  ultimately show ?thesis
    using ep q room q46 by (intro that [where t = "s3\<lparr>dev := d2\<rparr>" and ep = ep and q = "q + 46" and m = m])
      (simp_all add: s3_def s2_def s1_def)
qed

end

text \<open>A type 0 structure put in front of the tables.\<close>

lemma smbios_add_type_0_result:
  assumes read: "smbios_read m ep q A T" and len: "length T + 46 < 65536"
    and place: "unat ep + 31 + 46 \<le> unat q" "unat q + length T + 260 < 2 ^ 32"
  defines "m' \<equiv> smbios_add_type_0 ep q m"
  shows "load_bytes m' (q - 46) 46 = type_0_image" "load_bytes m' q (length T) = T" "m' (ep + 5) = A ! 5"
    "tables_start m' ep = q - 46" "lduw_p m' (ep + 22) = of_nat (length T) + 46"
    "anchor_at m' ep = (dec_entry_point A)\<lparr>ep_structure_table_address := q - 46,
      ep_structure_table_length := of_nat (length T) + 46,
      ep_number_of_structures := ep_number_of_structures (dec_entry_point A) + 1,
      ep_max_structure_size := max (ep_max_structure_size (dec_entry_point A)) 46\<rparr>"
proof -
  define m1 where "m1 = smbios_new_type_0 (q - 46) ''qboot'' ''0.1'' ''11/11/2019'' m"
  have q46: "unat (q - 46) = unat q - 46" using place by (subst unat_sub_le) simp_all
  have out: "m1 a = m a" if "\<not> inside a (q - 46) 46" for a
    unfolding m1_def smbios_new_type_0_writes by (rule write_fields_outside [OF type_0_fields_fit that])
  have img: "load_bytes m1 (q - 46) 46 = type_0_image"
    unfolding m1_def smbios_new_type_0_writes write_fields_bytes [OF type_0_fields_fit] by (rule type_0_layout)
  let ?m2 = "stw_p (ep + 22) (lduw_p m1 (ep + 22) + 46) (stl_p (ep + 24) (ldl_p m1 (ep + 24) - 46)
    (stw_p (ep + 28) (lduw_p m1 (ep + 28) + 1) m1))"
  have m': "m' = (if 46 > lduw_p ?m2 (ep + 8) then stw_p (ep + 8) 46 ?m2 else ?m2)"
    by (simp add: m'_def smbios_add_type_0_def t0_len_eq m1_def Let_def mem_simps apart_def)
  have clear: "\<not> inside (ep + of_nat c) (q - 46) 46" if "c < 31" for c
  proof -
    have "unat (ep + of_nat c) = unat ep + c"
      using that place by (subst unat_add_less) (simp_all add: unat_of_nat)
    then show ?thesis using place that q46 by (subst inside_interval) simp_all
  qed
  have anchor: "load_bytes m1 ep 31 = load_bytes m ep 31" using clear by (intro load_bytes_cong out) simp
  have m1_ep: "m1 (ep + 5) = m (ep + 5)" "tables_start m1 ep = tables_start m ep" "lduw_p m1 (ep + 22) = lduw_p m (ep + 22)"
    using anchor load_bytes_sub [of 22 2 31 _ ep] load_bytes_sub [of 24 4 31 _ ep] clear [of 5] out
    by (simp_all add: tables_start_def ldl_p_def lduw_p_def)
  have tables: "load_bytes m1 q (length T) = T"
  proof -
    have "load_bytes m1 q (length T) = load_bytes m q (length T)"
    proof (intro load_bytes_cong out)
      fix k assume "k < length T"
      then have "unat (q + of_nat k) = unat q + k" using place len by (subst unat_add_less) (simp_all add: unat_of_nat)
      then show "\<not> inside (q + of_nat k) (q - 46) 46" using q46 place by (subst inside_interval) simp_all
    qed
    then show ?thesis using read by (simp add: smbios_read_def)
  qed
  have high: "load_bytes m' p n = load_bytes m1 p n" if "unat ep + 31 \<le> unat p" "unat p + n < 2 ^ 32" for p n
  proof -
    have "apart (ep + of_nat c) k p n" if "c + k \<le> 31" for c k
    proof (intro apart_interval)
      show "unat (ep + of_nat c) + k \<le> unat p"
        using \<open>unat ep + 31 \<le> unat p\<close> that place by (subst unat_add_less) (simp_all add: unat_of_nat)
    qed (use that \<open>unat p + n < 2 ^ 32\<close> in simp)
    from this [of 22 2] this [of 24 4] this [of 28 2] this [of 8 2] show ?thesis
      by (simp add: m' stw_p_def stl_p_def load_store_apart)
  qed
  show "load_bytes m' (q - 46) 46 = type_0_image" using high [of "q - 46" 46] img place q46 by simp
  show "load_bytes m' q (length T) = T" using high [of q "length T"] tables place by simp
  show "m' (ep + 5) = A ! 5"
    using read m1_ep by (simp add: m' stw_p_at stl_p_at inside_def smbios_read_def)
  show "tables_start m' ep = q - 46"
    using read m1_ep by (simp add: m' tables_start_def mem_simps apart_def smbios_read_def)
  show "lduw_p m' (ep + 22) = of_nat (length T) + 46"
    using read m1_ep by (simp add: m' mem_simps apart_def smbios_read_def)
  have at1: "anchor_at m1 ep = (dec_entry_point A)\<lparr>ep_structure_table_address := q\<rparr>"
    "lduw_p m (ep + 22) = of_nat (length T)"
    using anchor read by (simp_all add: anchor_at_def smbios_read_def)
  show "anchor_at m' ep = (dec_entry_point A)\<lparr>ep_structure_table_address := q - 46,
      ep_structure_table_length := of_nat (length T) + 46,
      ep_number_of_structures := ep_number_of_structures (dec_entry_point A) + 1,
      ep_max_structure_size := max (ep_max_structure_size (dec_entry_point A)) 46\<rparr>"
    unfolding m' using m1_ep(3) at1(2)
    by (cases "dec_entry_point A") (auto simp: anchor_fields anchor_store at1(1) max_def)
qed

text \<open>An anchor at \<open>ep\<close> that points to the \<open>n\<close> bytes at \<open>q\<close>.\<close>

definition tables_only :: "addr \<Rightarrow> addr \<Rightarrow> u16 \<Rightarrow> mem \<Rightarrow> mem" where
  "tables_only ep q n m = stw_p (ep + 22) n (stl_p (ep + 24) q m)"

lemma smbios_read_low:
  assumes "smbios_read m ep q A T" "unat q + length T + 260 < 2 ^ 32" "length T < 65536"
  shows "tables_low m ep" "unat (tables_stop m ep) = unat q + length T"
proof -
  have len: "unat (of_nat (length T) :: u16) = length T" using assms(3) by (simp add: unat_of_nat)
  show low: "tables_low m ep" using assms by (simp add: tables_low_def smbios_read_def len)
  show "unat (tables_stop m ep) = unat q + length T"
    using assms unat_tables_stop [OF low] by (simp add: smbios_read_def len)
qed

lemma same_tables_read:
  assumes m: "smbios_read m ep q A T" and m': "tables_start m' ep = q" "lduw_p m' (ep + 22) = of_nat (length T)"
    "load_bytes m' q (length T) = T"
    and bound: "unat q + length T + 260 < 2 ^ 32" "length T < 65536"
  shows "same_tables m m' ep"
proof -
  have "m' a = m a" if a: "unat q \<le> unat a" "unat a < unat q + length T" for a
  proof -
    define k where "k = unat (a - q)"
    have k: "a = q + of_nat k" "k < length T" using a by (simp_all add: k_def unat_sub_if')
    have "load_bytes m q (length T) = load_bytes m' q (length T)" using m m'(3) by (simp add: smbios_read_def)
    from arg_cong [OF this, of "\<lambda>bs. bs ! k"] show ?thesis using k by simp
  qed
  moreover have "tables_start m ep = q" using m by (simp add: smbios_read_def)
  ultimately show ?thesis using m m' smbios_read_low [OF m bound] by (simp add: same_tables_def smbios_read_def)
qed

text \<open>The walk stops at the structure put in front.\<close>

lemma find_type_0_image:
  assumes "load_bytes m p 46 = type_0_image" "tables_start m ep = p" "unat (lduw_p m (ep + 22)) = 46 + n"
    and "unat p + 46 + n < 2 ^ 32"
  shows "smbios_find_0 m ep None = Some True"
proof -
  have stop: "unat (p + ucast (lduw_p m (ep + 22))) = unat p + 46 + n"
    using assms(3,4) by (subst unat_add_less) simp_all
  have "m p = 0" "m (p + 1) = 24"
    using arg_cong [OF assms(1), of "\<lambda>bs. bs ! 0"] arg_cong [OF assms(1), of "\<lambda>bs. bs ! 1"]
    by (simp_all add: type_0_image_bytes)
  moreover have "unat (p + 4) = unat p + 4" "unat (p + 24) = unat p + 24"
    using assms(4) by (subst unat_add_less; simp)+
  ultimately have "smbios_next m ep None = Some p"
    using assms(2) stop by (simp add: smbios_next_def tables_start_def word_le_nat_alt)
  then show ?thesis using \<open>m p = 0\<close> by (subst smbios_find_0.simps) simp
qed

lemma smbios_checksums_tables:
  assumes "unat ep + 31 \<le> unat q" "unat q + n \<le> 2 ^ 32"
  shows "tables_start (smbios_checksums ep m) ep = tables_start m ep"
    "lduw_p (smbios_checksums ep m) (ep + 22) = lduw_p m (ep + 22)"
    "load_bytes (smbios_checksums ep m) q n = load_bytes m q n"
proof -
  obtain x y where eq: "smbios_checksums ep m = store_bytes (store_bytes m (ep + 4) [x]) (ep + 21) [y]"
    by (simp add: smbios_checksums_def Let_def)
  show "tables_start (smbios_checksums ep m) ep = tables_start m ep"
    "lduw_p (smbios_checksums ep m) (ep + 22) = lduw_p m (ep + 22)"
    unfolding eq by (simp_all add: tables_start_def mem_simps apart_def unsigned_minus_1_eq_mask mask_eq_exp_minus_1
        del: store_bytes.simps)
  have "unat (ep + 4) = unat ep + 4" "unat (ep + 21) = unat ep + 21"
    using assms(1) unat_bound [of q] by (subst unat_add_less; simp)+
  then have "apart (ep + 4) 1 q n" "apart (ep + 21) 1 q n" using assms by (intro apart_interval; simp)+
  then show "load_bytes (smbios_checksums ep m) q n = load_bytes m q n"
    unfolding eq by (simp add: load_store_apart del: store_bytes.simps)
qed

lemma smbios_checksums_anchor:
  obtains c1 c2 where "anchor_at (smbios_checksums ep m) ep = (anchor_at m ep)\<lparr>ep_checksum := c1, ep_intermediate_checksum := c2\<rparr>"
  unfolding smbios_checksums_def Let_def anchor_store by blast

lemma below_outside:
  assumes "unat a < unat p" "unat p + i + k \<le> 2 ^ 32"
  shows "\<not> inside a (p + of_nat i) k"
proof (cases "k = 0")
  case False
  then have "unat (p + of_nat i) = unat p + i" using assms by (subst unat_add_less) (simp_all add: unat_of_nat)
  then show ?thesis using assms by (subst inside_interval) simp_all
qed (simp add: inside_def)

lemma smbios_checksums_below:
  assumes "unat a < unat ep" "unat ep + 31 \<le> 2 ^ 32"
  shows "smbios_checksums ep m a = m a"
  using below_outside [OF assms(1), of 4 1] below_outside [OF assms(1), of 21 1] assms(2)
  by (auto simp: smbios_checksums_def Let_def inside_def)

lemma smbios_add_type_0_below:
  assumes "unat a < unat ep" "unat ep + 31 + 46 \<le> unat q"
  shows "smbios_add_type_0 ep q m a = m a"
proof -
  have ep: "unat ep + 31 \<le> 2 ^ 32" using assms unat_bound [of q] by simp
  have "unat (q - 46) = unat q - 46" using assms by (subst unat_sub_le) simp_all
  then have "\<not> inside a (q - 46) 46" using assms unat_bound [of q] by (subst inside_interval) simp_all
  then have "smbios_new_type_0 (q - 46) ''qboot'' ''0.1'' ''11/11/2019'' m a = m a"
    unfolding smbios_new_type_0_writes by (rule write_fields_outside [OF type_0_fields_fit])
  moreover have "stw_p (ep + 28) x m a = m a" "stl_p (ep + 24) y m a = m a" "stw_p (ep + 22) x m a = m a" "stw_p (ep + 8) x m a = m a" for x y m
    using below_outside [OF assms(1), of 28 2] below_outside [OF assms(1), of 24 4] below_outside [OF assms(1), of 22 2]
      below_outside [OF assms(1), of 8 2] ep by (simp_all add: stw_p_at stl_p_at)
  ultimately show ?thesis by (simp add: smbios_add_type_0_def Let_def t0_len_eq)
qed

lemma extract_smbios_effect:
  fixes len :: u16 and s :: "'d machine"
  assumes "fw_cfg_device env sel off E"
    and "unat (dma_desc env) + 16 \<le> unat (files s)"
    and "unat (files s) + 64 * length (file_table s) \<le> unat (fseg_base s)"
    and "index_of (file_named (chars ''etc/smbios/smbios-anchor'')) (file_table s) = Some i"
    and "index_of (file_named (chars ''etc/smbios/smbios-tables'')) (file_table s) = Some j"
    and "file_size (file_table s ! i) = 31" and "file_size (file_table s ! j) = ucast len"
    and "A = entry_bytes E (file_select (file_table s ! i)) 0 31" and "len = le_word (take 2 (drop 22 A))"
    and "T = entry_bytes E (file_select (file_table s ! j)) 0 (unat len)"
    and "unat (fseg_base s) + unat len + 512 \<le> 2 ^ 32" and "unat len + 46 < 2 ^ 16" and "22 \<le> unat (A ! 5)"
  shows "\<exists>s' ep q has. extract_smbios env s = Ret () s' \<and>
    unat (fseg_base s) \<le> unat ep \<and> unat ep mod 16 = 0 \<and>
    sum_list (load_bytes (mem s') ep 16) = 0 \<and>
    sum_list (load_bytes (mem s') (ep + 16) (unat (A ! 5) - 16)) = 0 \<and>
    load_bytes (mem s') q (unat len) = T \<and> smbios_find_0 (tables_only ep q len (mem s')) ep None = Some has \<and>
    load_bytes (mem s') (tables_start (mem s') ep) (unat (lduw_p (mem s') (ep + 22)))
      = (if has then T else type_0_image @ T) \<and>
    smbios_find_0 (mem s') ep None = Some True \<and>
    (\<exists>c1 c2. anchor_at (mem s') ep = (dec_entry_point A)\<lparr>ep_checksum := c1, ep_intermediate_checksum := c2,
       ep_structure_table_address := if has then q else q - 46,
       ep_structure_table_length := if has then len else len + 46,
       ep_number_of_structures := ep_number_of_structures (dec_entry_point A) + (if has then 0 else 1),
       ep_max_structure_size := (if has then id else max 46) (ep_max_structure_size (dec_entry_point A))\<rparr>) \<and>
    s' = s\<lparr>mem := mem s', dev := dev s', fseg_base := q + ucast len\<rparr> \<and>
    unat q + unat len \<le> unat (fseg_base s) + unat len + 110 \<and> unat ep + 31 \<le> unat (tables_start (mem s') ep) \<and>
    unat (tables_start (mem s') ep) + unat (lduw_p (mem s') (ep + 22)) = unat q + unat len \<and>
    (\<forall>a. unat a < unat (fseg_base s) \<longrightarrow> \<not> inside a (dma_desc env) 16 \<longrightarrow> mem s' a = mem s a)"
proof -
  have lenT: "length T = unat len" "of_nat (length T) = len" using assms(10) by simp_all
  obtain ep q m t where run: "extract_smbios env s = (case smbios_find_0 m ep None of None \<Rightarrow> Hang
      | Some found \<Rightarrow> Ret () (t\<lparr>mem := smbios_checksums ep (if found then m else smbios_add_type_0 ep q m)\<rparr>))"
    and read: "smbios_read m ep q A T" and ep: "unat (fseg_base s) \<le> unat ep" "unat ep mod 16 = 0"
    and place: "unat ep + 31 + 46 \<le> unat q" "unat q + unat len + 260 < 2 ^ 32"
    and t: "t = s\<lparr>mem := mem t, dev := dev t, fseg_base := q + ucast len\<rparr>" "unat q + unat len \<le> unat (fseg_base s) + unat len + 110"
    and out: "\<And>a. unat a < unat (fseg_base s) \<Longrightarrow> \<not> inside a (dma_desc env) 16 \<Longrightarrow> m a = mem s a"
    by (rule fw_cfg_port.extract_smbios_reads [OF fw_cfg_port.intro [OF assms(1)] assms(2-11)]) (rule that; assumption)
  note bound = place(2) [folded lenT(1)]
  have small: "length T < 65536" "length T + 46 < 65536" using assms(12) lenT by simp_all
  have low: "tables_low m ep" by (rule smbios_read_low(1) [OF read bound small(1)])
  obtain has where has: "smbios_find_0 m ep None = Some has" using smbios_find_0_from [OF low, where hdr = None and k = 0] by simp
  define m1 where "m1 = (if has then m else smbios_add_type_0 ep q m)"
  let ?m = "smbios_checksums ep m1"
  note added = smbios_add_type_0_result [OF read small(2) place(1) bound]
  have m1: "m1 (ep + 5) = A ! 5" "load_bytes m1 q (length T) = T"
    using read added by (simp_all add: m1_def smbios_read_def)
  have sums: "sum_list (load_bytes ?m ep 16) = 0" "sum_list (load_bytes ?m (ep + 16) (unat (A ! 5) - 16)) = 0"
    using smbios_checksums_result [of m1 ep] assms(13) by (simp_all add: m1(1))
  have keep: "tables_start ?m ep = tables_start m1 ep" "lduw_p ?m (ep + 22) = lduw_p m1 (ep + 22)"
    "\<And>p n. unat ep + 31 \<le> unat p \<Longrightarrow> unat p + n \<le> 2 ^ 32 \<Longrightarrow> load_bytes ?m p n = load_bytes m1 p n"
    using smbios_checksums_tables [of ep q 0] place smbios_checksums_tables(3) by simp_all
  have T: "load_bytes ?m q (length T) = T" using keep(3) [of q "length T"] place lenT m1(2) by simp
  have "apart (ep + 22) 2 q (length T)" "apart (ep + 24) 4 q (length T)"
    using place bound by (intro apart_interval; simp add: unat_add_less)+
  then have "load_bytes (tables_only ep q len ?m) q (length T) = T"
    using T by (simp add: tables_only_def stw_p_def stl_p_def load_store_apart)
  then have "same_tables m (tables_only ep q len ?m) ep"
    using same_tables_read [OF read _ _ _ bound small(1), of "tables_only ep q len ?m"] lenT(2)
    by (simp add: tables_only_def tables_start_def mem_simps apart_def)
  then have "smbios_find_0 (tables_only ep q len ?m) ep None = smbios_find_0 m ep None"
    using low by (rule smbios_find_0_cong)
  moreover have "load_bytes ?m (tables_start ?m ep) (unat (lduw_p ?m (ep + 22))) = (if has then T else type_0_image @ T) \<and>
    smbios_find_0 ?m ep None = Some True"
  proof (cases has)
    case True
    then have fields: "tables_start ?m ep = q" "lduw_p ?m (ep + 22) = len"
      unfolding keep(1,2) using read lenT True by (simp_all add: m1_def smbios_read_def)
    then have "same_tables m ?m ep"
      using same_tables_read [OF read _ _ T bound small(1)] lenT(2) by simp
    then show ?thesis using smbios_find_0_cong [OF _ low] has True fields T lenT by simp
  next
    case False
    have q46: "unat (q - 46) = unat q - 46" using place by (subst unat_sub_le) simp_all
    have fields: "tables_start ?m ep = q - 46" "lduw_p ?m (ep + 22) = len + 46"
      unfolding keep(1,2) using False added lenT by (simp_all add: m1_def)
    have n: "unat (len + 46) = 46 + unat len" using assms(12) by (simp add: unat_word_ariths)
    have image: "load_bytes ?m (q - 46) 46 = type_0_image"
      using keep(3) [of "q - 46" 46] added(1) False place q46 by (simp add: m1_def)
    then have "load_bytes ?m (q - 46) (46 + unat len) = type_0_image @ T"
      using T lenT by (simp add: load_bytes_append)
    moreover have "smbios_find_0 ?m ep None = Some True"
      using image fields n place q46 by (intro find_type_0_image [where p = "q - 46" and n = "unat len"]) simp_all
    ultimately show ?thesis using False fields n by simp
  qed
  moreover have "\<exists>c1 c2. anchor_at ?m ep = (dec_entry_point A)\<lparr>ep_checksum := c1, ep_intermediate_checksum := c2,
       ep_structure_table_address := if has then q else q - 46,
       ep_structure_table_length := if has then len else len + 46,
       ep_number_of_structures := ep_number_of_structures (dec_entry_point A) + (if has then 0 else 1),
       ep_max_structure_size := (if has then id else max 46) (ep_max_structure_size (dec_entry_point A))\<rparr>"
  proof -
    obtain c1 c2 where sum: "anchor_at ?m ep = (anchor_at m1 ep)\<lparr>ep_checksum := c1, ep_intermediate_checksum := c2\<rparr>"
      by (rule smbios_checksums_anchor)
    have "ep_structure_table_length (dec_entry_point A) = len" by (simp add: dec_entry_point_def assms(9))
    then show ?thesis using read added(6) lenT unfolding sum
      by (intro exI [of _ c1] exI [of _ c2]; cases "dec_entry_point A"; cases has) (simp_all add: m1_def smbios_read_def max.commute)
  qed
  moreover have "unat ep + 31 \<le> unat (tables_start ?m ep)" "unat (tables_start ?m ep) + unat (lduw_p ?m (ep + 22)) = unat q + unat len"
  proof -
    have q46: "unat (q - 46) = unat q - 46" using place by (subst unat_sub_le) simp_all
    have n: "unat (len + 46) = unat len + 46" using assms(12) by (simp add: unat_word_ariths)
    show "unat ep + 31 \<le> unat (tables_start ?m ep)"
      unfolding keep(1) using read added(4) place q46 by (auto simp: m1_def smbios_read_def)
    show "unat (tables_start ?m ep) + unat (lduw_p ?m (ep + 22)) = unat q + unat len"
      unfolding keep(1,2) using read added(4,5) place q46 n lenT by (auto simp: m1_def smbios_read_def)
  qed
  moreover have "?m a = mem s a" if "unat a < unat (fseg_base s)" "\<not> inside a (dma_desc env) 16" for a
  proof -
    have below: "unat a < unat ep" using that ep by simp
    have "?m a = m1 a" by (rule smbios_checksums_below [OF below]) (use place in simp)
    also have "\<dots> = m a" using smbios_add_type_0_below [OF below place(1)] place by (simp add: m1_def)
    finally show ?thesis using out that by simp
  qed
  moreover have "t\<lparr>mem := ?m\<rparr> = s\<lparr>mem := ?m, dev := dev t, fseg_base := q + ucast len\<rparr>" by (subst t(1)) simp
  ultimately show ?thesis using run has ep sums T lenT t(2)
    by (intro exI [of _ "t\<lparr>mem := ?m\<rparr>"] exI [of _ ep] exI [of _ q] exI [of _ has]) (simp add: m1_def)
qed

text \<open>
  C14: What extract_smbios publishes. When the device offers the anchor file, 31 bytes long, and the tables
  file, as long as the anchor says, and the F-segment has room, extract_smbios returns; the anchor is at a
  16-byte aligned address of the F-segment; both its checksums are good; what it points to are the device's
  tables when these have a structure of type 0 and otherwise these with one put in front; so the walk from
  the anchor now always finds a structure of type 0. The anchor is the device's, field by field, but for the
  checksums, the address and length of the tables, and, when a structure has been put in front, the number of
  structures and the size of the largest.
\<close>

theorem extract_smbios_publishes:
  fixes len :: u16
  assumes "fw_cfg_device env sel off E"
    and "unat (dma_desc env) + 16 \<le> unat (files s)"
    and "unat (files s) + 64 * length (file_table s) \<le> unat (fseg_base s)"
    and "index_of (file_named (chars ''etc/smbios/smbios-anchor'')) (file_table s) = Some i"
    and "index_of (file_named (chars ''etc/smbios/smbios-tables'')) (file_table s) = Some j"
    and "file_size (file_table s ! i) = 31" and "file_size (file_table s ! j) = ucast len"
    and "A = entry_bytes E (file_select (file_table s ! i)) 0 31" and "len = le_word (take 2 (drop 22 A))"
    and "T = entry_bytes E (file_select (file_table s ! j)) 0 (unat len)"
    and "unat (fseg_base s) + unat len + 512 \<le> 2 ^ 32" and "unat len + 46 < 2 ^ 16" and "22 \<le> unat (A ! 5)"
  shows "\<exists>s' ep q has. extract_smbios env s = Ret () s' \<and>
    unat (fseg_base s) \<le> unat ep \<and> unat ep mod 16 = 0 \<and>
    sum_list (load_bytes (mem s') ep 16) = 0 \<and>
    sum_list (load_bytes (mem s') (ep + 16) (unat (A ! 5) - 16)) = 0 \<and>
    load_bytes (mem s') q (unat len) = T \<and> smbios_find_0 (tables_only ep q len (mem s')) ep None = Some has \<and>
    load_bytes (mem s') (tables_start (mem s') ep) (unat (lduw_p (mem s') (ep + 22)))
      = (if has then T else type_0_image @ T) \<and>
    smbios_find_0 (mem s') ep None = Some True \<and>
    (\<exists>c1 c2. anchor_at (mem s') ep = (dec_entry_point A)\<lparr>ep_checksum := c1, ep_intermediate_checksum := c2,
       ep_structure_table_address := if has then q else q - 46,
       ep_structure_table_length := if has then len else len + 46,
       ep_number_of_structures := ep_number_of_structures (dec_entry_point A) + (if has then 0 else 1),
       ep_max_structure_size := (if has then id else max 46) (ep_max_structure_size (dec_entry_point A))\<rparr>)"
  by (rule ex_forward [OF extract_smbios_effect [OF assms]], (erule ex_forward)+, elim conjE, intro conjI; assumption)

definition demo_smbios :: "(string \<times> u8 list) list" where
  "demo_smbios = [(''etc/smbios/smbios-anchor'',
      [0x5f, 0x53, 0x4d, 0x5f, 0, 31, 2, 8, 0, 0, 0, 0, 0, 0, 0, 0,
       0x5f, 0x44, 0x4d, 0x49, 0x5f, 0, 6, 0, 0, 0, 0, 0, 1, 0, 0x28]),
    (''etc/smbios/smbios-tables'', [127, 4, 0, 0, 0, 0])]"

lemma demo_smbios_good: "good_files demo_smbios"
  by (simp add: good_files_def demo_smbios_def chars_def)

theorem extract_smbios_publishes_witness:
  "\<exists>s' ep. extract_smbios (ref_env (contents demo_smbios)) (loaded_machine demo_smbios) = Ret () s' \<and>
     sum_list (load_bytes (mem s') ep 16) = 0 \<and> smbios_find_0 (mem s') ep None = Some True"
proof -
  let ?s = "loaded_machine demo_smbios" and ?E = "contents demo_smbios"
  let ?anchor = "snd (demo_smbios ! 0)" and ?tables = "snd (demo_smbios ! 1)"
  note table = loaded_file_table [OF demo_smbios_good]
  have n: "length demo_smbios = 2" "length ?anchor = 31" "length ?tables = 6" by (simp_all add: demo_smbios_def)
  have i: "index_of (file_named (chars ''etc/smbios/smbios-anchor'')) (file_table ?s) = Some 0"
    "index_of (file_named (chars ''etc/smbios/smbios-tables'')) (file_table ?s) = Some 1"
    by (intro loaded_file_index [OF demo_smbios_good]; simp add: demo_smbios_def)+
  have E0: "entry_bytes ?E (file_select (file_table ?s ! 0)) 0 31 = ?anchor"
    and E1: "entry_bytes ?E (file_select (file_table ?s ! 1)) 0 (unat (6 :: u16)) = ?tables"
    using make_dir_entry(2) [OF demo_smbios_good, of 0] make_dir_entry(2) [OF demo_smbios_good, of 1] n by (simp_all add: table)
  have sizes: "file_size (file_table ?s ! 0) = 31" "file_size (file_table ?s ! 1) = ucast (6 :: u16)"
    using make_dir_entry(1) [OF demo_smbios_good] n by (simp_all add: table)
  have fields: "6 = (le_word (take 2 (drop 22 ?anchor)) :: u16)" "22 \<le> unat (?anchor ! 5)"
    by (simp_all add: demo_smbios_def)
  have low: "unat (dma_desc (ref_env ?E)) + 16 \<le> unat (files ?s)" by (simp add: loaded_machine_def)
  have room: "unat (files ?s) + 64 * length (file_table ?s) \<le> unat (fseg_base ?s)"
    "unat (fseg_base ?s) + unat (6 :: u16) + 512 \<le> 2 ^ 32" "unat (6 :: u16) + 46 < 2 ^ 16"
    by (simp_all add: table n) (simp_all add: loaded_machine_def n)
  from extract_smbios_publishes [OF ref_device low room(1) i sizes E0 [symmetric] fields(1) refl room(2,3) fields(2)]
  show ?thesis by blast
qed

end
