(* ===== verification/Pci.thy ===== *)
theory Pci
  imports Reference
begin

text \<open>
  PCI: configuration space access (include/pci.h), the enumeration of the buses, the assignment of bus
  numbers and interrupt lines, and the BIOS32 header (pci.c).
\<close>

section \<open>Configuration space access (include/pci.h)\<close>

definition pci_config_address :: "u16 \<Rightarrow> u32 \<Rightarrow> u32" where
  "pci_config_address bdf a = 0x80000000 OR push_bit 8 (ucast bdf) OR (a AND 0xfc)"

definition pci_config_writel :: "'d env \<Rightarrow> u16 \<Rightarrow> u32 \<Rightarrow> u32 \<Rightarrow> ('d, unit) fw" where
  "pci_config_writel env bdf a val =
     andthen (outl env 0xcf8 (pci_config_address bdf a)) (outl env 0xcfc val)"

definition pci_config_writew :: "'d env \<Rightarrow> u16 \<Rightarrow> u32 \<Rightarrow> u16 \<Rightarrow> ('d, unit) fw" where
  "pci_config_writew env bdf a val =
     andthen (outl env 0xcf8 (pci_config_address bdf a)) (outw env (0xcfc OR ucast (a AND 2)) val)"

definition pci_config_writeb :: "'d env \<Rightarrow> u16 \<Rightarrow> u32 \<Rightarrow> u8 \<Rightarrow> ('d, unit) fw" where
  "pci_config_writeb env bdf a val =
     andthen (outl env 0xcf8 (pci_config_address bdf a)) (outb env (0xcfc OR ucast (a AND 3)) val)"

definition pci_config_readl :: "'d env \<Rightarrow> u16 \<Rightarrow> u32 \<Rightarrow> ('d, u32) fw" where
  "pci_config_readl env bdf a =
     andthen (outl env 0xcf8 (pci_config_address bdf a)) (inl env 0xcfc)"

definition pci_config_readw :: "'d env \<Rightarrow> u16 \<Rightarrow> u32 \<Rightarrow> ('d, u16) fw" where
  "pci_config_readw env bdf a =
     andthen (outl env 0xcf8 (pci_config_address bdf a)) (inw env (0xcfc OR ucast (a AND 2)))"

definition pci_config_readb :: "'d env \<Rightarrow> u16 \<Rightarrow> u32 \<Rightarrow> ('d, u8) fw" where
  "pci_config_readb env bdf a =
     andthen (outl env 0xcf8 (pci_config_address bdf a)) (inb env (0xcfc OR ucast (a AND 3)))"

abbreviation (input) PCI_VENDOR_ID where "PCI_VENDOR_ID \<equiv> 0x00"
abbreviation (input) PCI_CLASS_DEVICE where "PCI_CLASS_DEVICE \<equiv> 0x0a"
abbreviation (input) PCI_HEADER_TYPE where "PCI_HEADER_TYPE \<equiv> 0x0e"
abbreviation (input) PCI_PRIMARY_BUS where "PCI_PRIMARY_BUS \<equiv> 0x18"
abbreviation (input) PCI_SECONDARY_BUS where "PCI_SECONDARY_BUS \<equiv> 0x19"
abbreviation (input) PCI_SUBORDINATE_BUS where "PCI_SUBORDINATE_BUS \<equiv> 0x1a"
abbreviation (input) PCI_INTERRUPT_LINE where "PCI_INTERRUPT_LINE \<equiv> 0x3c"
abbreviation (input) PCI_INTERRUPT_PIN where "PCI_INTERRUPT_PIN \<equiv> 0x3d"
abbreviation (input) PCI_BRIDGE_CONTROL where "PCI_BRIDGE_CONTROL \<equiv> 0x3e"
abbreviation (input) PCI_CLASS_STORAGE_IDE where "PCI_CLASS_STORAGE_IDE \<equiv> 0x0101"
abbreviation (input) PCI_CLASS_BRIDGE_PCI where "PCI_CLASS_BRIDGE_PCI \<equiv> 0x0604"
abbreviation (input) PCI_HEADER_TYPE_BRIDGE where "PCI_HEADER_TYPE_BRIDGE \<equiv> 1"
abbreviation (input) PCI_HEADER_TYPE_MULTI_FUNCTION where "PCI_HEADER_TYPE_MULTI_FUNCTION \<equiv> 0x80"
abbreviation (input) PCI_BRIDGE_CTL_SERR where "PCI_BRIDGE_CTL_SERR \<equiv> 0x02"

text \<open>Vendor and device id, as one 32-bit register: Intel 82441 (i440FX), Q35 MCH, 82371SB, 82371AB.\<close>

abbreviation (input) ID_INTEL_82441 where "ID_INTEL_82441 \<equiv> 0x12378086"
abbreviation (input) ID_INTEL_Q35_MCH where "ID_INTEL_Q35_MCH \<equiv> 0x29c08086"
abbreviation (input) ID_INTEL_82371SB_1 where "ID_INTEL_82371SB_1 \<equiv> 0x70108086"
abbreviation (input) ID_INTEL_82371AB where "ID_INTEL_82371AB \<equiv> 0x71118086"

section \<open>Enumeration (pci.c)\<close>

text \<open>Functions \<open>f\<close> and up of device \<open>d\<close> on the current bus, \<open>k\<close> of them left.\<close>

primrec pci_functions :: "'d env \<Rightarrow> (u32 \<Rightarrow> u32 \<Rightarrow> u8 \<Rightarrow> ('d, unit) fw) \<Rightarrow> nat \<Rightarrow> nat \<Rightarrow> nat \<Rightarrow> ('d, unit) fw" where
  "pci_functions env fn d f 0 = ret ()"
| "pci_functions env fn d f (Suc k) =
     bind get_state (\<lambda>s. let bdf = ucast (bus s) * 256 + of_nat d * 8 + of_nat f in
     bind (pci_config_readl env (ucast bdf) PCI_VENDOR_ID) (\<lambda>devid.
     let vendor = (ucast (devid AND 0xFFFF) :: u16) in
     if vendor + 1 \<le> 1 then (if f = 0 then ret () else pci_functions env fn d (Suc f) k)
     else bind (pci_config_readb env (ucast bdf) PCI_HEADER_TYPE) (\<lambda>typ.
       andthen (fn bdf devid typ)
       (if f = 0 \<and> typ AND PCI_HEADER_TYPE_MULTI_FUNCTION = 0 then ret ()
        else pci_functions env fn d (Suc f) k))))"

definition pci_foreach :: "'d env \<Rightarrow> (u32 \<Rightarrow> u32 \<Rightarrow> u8 \<Rightarrow> ('d, unit) fw) \<Rightarrow> ('d, unit) fw" where
  "pci_foreach env fn = for_each [0..<32] (\<lambda>d. pci_functions env fn d 0 8)"

definition do_setup_pci_irq :: "'d env \<Rightarrow> u32 \<Rightarrow> int \<Rightarrow> ('d, unit) fw" where
  "do_setup_pci_irq env bdf pin =
     (let d = uint (drop_bit 3 bdf AND 0x1f) in
      bind (pci_config_readb env (ucast bdf) PCI_INTERRUPT_LINE) (\<lambda>irq.
      if irq \<noteq> 0 then ret ()
      else bind get_state (\<lambda>s.
        let lnk = uint (addend s) + pin;
            lnk = (if use_i440fx_routing s then lnk + (d - 1) else if d \<le> 24 then lnk + d else lnk);
            lnk = lnk AND 3;
            irq = (if lnk AND 2 \<noteq> 0 then 11 else 10)
        in pci_config_writeb env (ucast bdf) PCI_INTERRUPT_LINE irq)))"

definition do_setup_pci :: "'d env \<Rightarrow> u32 \<Rightarrow> u32 \<Rightarrow> u8 \<Rightarrow> ('d, unit) fw" where
  "do_setup_pci env bdf devid typ =
     bind (pci_config_readb env (ucast bdf) PCI_INTERRUPT_PIN) (\<lambda>pin.
     andthen (when_do (pin \<noteq> 0) (do_setup_pci_irq env bdf (uint pin)))
     (andthen (when_do (typ AND PCI_HEADER_TYPE_BRIDGE \<noteq> 0)
        (bind (pci_config_readw env (ucast bdf) PCI_BRIDGE_CONTROL) (\<lambda>ctl.
         pci_config_writew env (ucast bdf) PCI_BRIDGE_CONTROL (ctl OR PCI_BRIDGE_CTL_SERR))))
     (bind (pci_config_readw env (ucast bdf) PCI_CLASS_DEVICE) (\<lambda>cls.
      if cls = PCI_CLASS_STORAGE_IDE then
        andthen (pci_config_writel env (ucast bdf) 0x10 0x1f0)
        (andthen (pci_config_writel env (ucast bdf) 0x14 0x3f4)
        (andthen (pci_config_writel env (ucast bdf) 0x18 0x170)
        (andthen (pci_config_writel env (ucast bdf) 0x1c 0x374)
        (when_do (devid = ID_INTEL_82371SB_1 \<or> devid = ID_INTEL_82371AB)
          (andthen (pci_config_writew env (ucast bdf) 0x40 0x8000)
          (pci_config_writew env (ucast bdf) 0x42 0x8000))))))
      else if cls = PCI_CLASS_BRIDGE_PCI then
        bind get_state (\<lambda>s.
        andthen (pci_config_writeb env (ucast bdf) PCI_PRIMARY_BUS (bus s))
        (andthen (pci_config_writeb env (ucast bdf) PCI_SUBORDINATE_BUS 0)
        (andthen (pci_config_writeb env (ucast bdf) PCI_SECONDARY_BUS (bridge_head s))
        (andthen (update (\<lambda>s. s\<lparr>bridge_head := ucast (bdf AND 0xFF)\<rparr>))
        (update (\<lambda>s. s\<lparr>bridge_count := bridge_count s + 1\<rparr>))))))
      else ret ()))))"

text \<open>
  The recursion goes down the tree of buses. \<open>n\<close> bounds its depth; beyond it the result is \<open>Hang\<close>. The
  loop goes through the bridges of one bus: \<open>k\<close> of them are left, \<open>next_head\<close> is the device and function
  number of the next one.
\<close>

primrec bridge_loop :: "'d env \<Rightarrow> ('d, unit) fw \<Rightarrow> u8 \<Rightarrow> u8 \<Rightarrow> nat \<Rightarrow> ('d, unit) fw" where
  "bridge_loop env setup_bus save_bus next_head 0 = ret ()"
| "bridge_loop env setup_bus save_bus next_head (Suc k) =
     (let bdf = ucast save_bus * 256 + ucast next_head :: u32 in
      bind (pci_config_readb env (ucast bdf) PCI_SECONDARY_BUS) (\<lambda>next_head.
      andthen (update (\<lambda>s. s\<lparr>max_bus := max_bus s + 1, bus := max_bus s + 1\<rparr>))
      (andthen (bind get_state (\<lambda>s. pci_config_writeb env (ucast bdf) PCI_SECONDARY_BUS (bus s)))
      (andthen (pci_config_writeb env (ucast bdf) PCI_SUBORDINATE_BUS 255)
      (andthen (update (\<lambda>s. s\<lparr>addend := addend s + ucast (drop_bit 3 bdf AND 0x1f)\<rparr>))
      (andthen setup_bus
      (andthen (update (\<lambda>s. s\<lparr>addend := addend s - ucast (drop_bit 3 bdf AND 0x1f)\<rparr>))
      (andthen (bind get_state (\<lambda>s. pci_config_writeb env (ucast bdf) PCI_SUBORDINATE_BUS (max_bus s)))
      (bridge_loop env setup_bus save_bus next_head k)))))))))"

primrec do_setup_pci_bus :: "nat \<Rightarrow> 'd env \<Rightarrow> ('d, unit) fw" where
  "do_setup_pci_bus 0 env = (\<lambda>_. Hang)"
| "do_setup_pci_bus (Suc n) env =
     andthen (update (\<lambda>s. s\<lparr>bridge_head := 0xFF\<rparr>))
     (andthen (update (\<lambda>s. s\<lparr>bridge_count := 0\<rparr>))
     (andthen (pci_foreach env (do_setup_pci env))
     (bind get_state (\<lambda>s.
      bridge_loop env (do_setup_pci_bus n env) (bus s) (bridge_head s) (nat (sint (bridge_count s)))))))"

section \<open>BIOS32 (pci.c)\<close>

text \<open>The header is a char array; \<open>bios32[10]\<close> is set so that the bytes up to it add up to 0.\<close>

definition setup_bios32 :: "'d env \<Rightarrow> ('d, unit) fw" where
  "setup_bios32 env =
     bind (malloc_fseg_align 16 16) (\<lambda>p.
     andthen (on_mem (\<lambda>m. store_bytes m p (chars ''_32_'')))
     (andthen (on_mem (\<lambda>m. store_bytes m (p + 4) (le_bytes 4 (bios32_entry env))))
     (andthen (on_mem (\<lambda>m. m(p + 8 := 0)))
     (andthen (on_mem (\<lambda>m. m(p + 9 := 1)))
     (andthen (on_mem (memset (p + 10) 0 6))
     (for_each [0..<10] (\<lambda>i. on_mem (\<lambda>m. m(p + 10 := m (p + 10) - m (p + of_nat i))))))))))"

definition setup_pci :: "nat \<Rightarrow> 'd env \<Rightarrow> ('d, unit) fw" where
  "setup_pci n env =
     bind (pci_config_readl env 0 0) (\<lambda>devid.
     andthen
       (if devid = ID_INTEL_82441 then update (\<lambda>s. s\<lparr>use_i440fx_routing := True\<rparr>)
        else if devid = ID_INTEL_Q35_MCH then update (\<lambda>s. s\<lparr>use_i440fx_routing := False\<rparr>)
        else panic)
     (andthen (do_setup_pci_bus n env)
     (setup_bios32 env)))"

end
