(* ===== verification/Hwsetup.thy ===== *)
theory Hwsetup
  imports Pci
begin

text \<open>
  hwsetup.c: the chipset is put into the state the rest of the firmware expects, and the firmware is
  copied from ROM into the RAM of the F-segment. This code runs from ROM, so it keeps no static state.
\<close>

section \<open>Chipset registers\<close>

definition setup_piix :: "'d env \<Rightarrow> ('d, unit) fw" where
  "setup_piix env = (let bdf = push_bit 3 1 in
     andthen (pci_config_writeb env bdf 0x60 10)
     (andthen (pci_config_writeb env bdf (0x60 + 1) 10)
     (andthen (pci_config_writeb env bdf (0x60 + 2) 11)
     (pci_config_writeb env bdf (0x60 + 3) 11))))"

definition setup_piix_pm :: "'d env \<Rightarrow> ('d, unit) fw" where
  "setup_piix_pm env = (let bdf = push_bit 3 1 OR 3 in
     andthen (pci_config_writel env bdf 0x40 0x601)
     (andthen (pci_config_writeb env bdf 0x80 0x01)
     (andthen (pci_config_writel env bdf 0x90 0x701)
     (pci_config_writeb env bdf 0xd2 0x09))))"

definition setup_ich9 :: "'d env \<Rightarrow> ('d, unit) fw" where
  "setup_ich9 env = (let bdf = push_bit 3 0x1f in
     andthen (pci_config_writeb env bdf 0x60 10)
     (andthen (pci_config_writeb env bdf (0x60 + 1) 10)
     (andthen (pci_config_writeb env bdf (0x60 + 2) 11)
     (andthen (pci_config_writeb env bdf (0x60 + 3) 11)
     (andthen (pci_config_writeb env bdf 0x68 10)
     (andthen (pci_config_writeb env bdf (0x68 + 1) 10)
     (andthen (pci_config_writeb env bdf (0x68 + 2) 11)
     (pci_config_writeb env bdf (0x68 + 3) 11))))))))"

definition setup_ich9_pm :: "'d env \<Rightarrow> ('d, unit) fw" where
  "setup_ich9_pm env = (let bdf = push_bit 3 0x1f in
     andthen (pci_config_writel env bdf 0x40 0x601)
     (pci_config_writeb env bdf 0x44 0x80))"

definition setup_pic :: "'d env \<Rightarrow> ('d, unit) fw" where
  "setup_pic env =
     andthen (outb env 0x20 0x11)
     (andthen (outb env 0xa0 0x11)
     (andthen (outb env 0x21 8)
     (andthen (outb env 0xa1 0x70)
     (andthen (outb env 0x21 0x04)
     (andthen (outb env 0xa1 0x02)
     (andthen (outb env 0x21 0x01)
     (andthen (outb env 0xa1 0x01)
     (andthen (outb env 0x21 (NOT (push_bit 2 1)))
     (andthen (outb env 0xa1 (NOT 0))
     (andthen (outb env 0x4d0 0)
     (outb env 0x4d1 0x0c)))))))))))"

definition setup_pam :: "'d env \<Rightarrow> u16 \<Rightarrow> u32 \<Rightarrow> ('d, unit) fw" where
  "setup_pam env bdf pambase =
     andthen (for_each [0..<6] (\<lambda>i. let pam = pambase + 1 + of_nat i in pci_config_writeb env bdf pam 0x33))
     (pci_config_writeb env bdf pambase 0x30)"

section \<open>Shadowing\<close>

text \<open>
  While it runs, the F-segment may be mapped to ROM: a store to it then has no effect, and a load sees the ROM.
  \<open>setup_hw\<close> finds out by changing \<open>rom_check\<close> and reading it back, and lets the chipset map RAM. The value is
  an 8-bit one, its successor is computed as an int and cut when it is stored. \<open>rom_copy\<close> is \<open>memcpy\<close> by loads and
  stores the chipset sees.
\<close>

definition rom_load :: "'d env \<Rightarrow> addr \<Rightarrow> ('d, u8) fw" where
  "rom_load env p s = Ret (io_read env (dev s) (mem s) p) s"

definition try_store :: "'d env \<Rightarrow> addr \<Rightarrow> u8 \<Rightarrow> ('d, unit) fw" where
  "try_store env p v = bind get_state (\<lambda>s. when_do (io_writable env (dev s) p) (on_mem (\<lambda>m. m(p := v))))"

definition rom_copy :: "'d env \<Rightarrow> addr \<Rightarrow> addr \<Rightarrow> u32 \<Rightarrow> ('d, unit) fw" where
  "rom_copy env dest src n =
     bind get_state (\<lambda>s. on_mem (\<lambda>m a.
       if io_writable env (dev s) a
       then store_bytes m dest (map (\<lambda>i. io_read env (dev s) m (src + of_nat i)) [0..<unat n]) a
       else m a))"

definition setup_hw :: "'d env \<Rightarrow> ('d, bool) fw" where
  "setup_hw env =
     (let bios_start = stext env + 0xfff00000; init_start = sinit env + 0xfff00000;
          finish = (\<lambda>pambase.
            bind (rom_load env (rom_check env)) (\<lambda>rom_check_value.
            andthen (try_store env (rom_check env) (rom_check_value + 1))
            (bind (rom_load env (rom_check env)) (\<lambda>v.
            andthen (when_do (v = rom_check_value) (setup_pam env 0 pambase))
            (andthen (rom_copy env (stext env) bios_start (edata env - stext env))
            (andthen (rom_copy env (sinit env) init_start (einit env - sinit env))
            (andthen (setup_pic env)
            (ret True))))))))
      in bind (pci_config_readl env 0 0) (\<lambda>devid.
         if devid = ID_INTEL_82441 then andthen (setup_piix env) (andthen (setup_piix_pm env) (finish 0x59))
         else if devid = ID_INTEL_Q35_MCH then andthen (setup_ich9 env) (andthen (setup_ich9_pm env) (finish 0x90))
         else ret False))"

section \<open>MMCONFIG\<close>

definition setup_q35_mmconfig :: "'d env \<Rightarrow> ('d, unit) fw" where
  "setup_q35_mmconfig env =
     (let a = (0xb0000000 :: u64);
          upper = ucast (drop_bit 32 a);
          lower = ucast (a AND 0xffffffff) OR 1
      in andthen (pci_config_writel env 0 0x60 0)
         (andthen (pci_config_writel env 0 (0x60 + 4) upper)
         (pci_config_writel env 0 0x60 lower)))"

definition setup_mmconfig :: "'d env \<Rightarrow> ('d, bool) fw" where
  "setup_mmconfig env =
     bind (pci_config_readl env 0 0) (\<lambda>devid.
     if devid = ID_INTEL_Q35_MCH then andthen (setup_q35_mmconfig env) (ret True)
     else ret False)"

end
