(* ===== verification/Qboot.thy ===== *)
theory Qboot
  imports Acpi Boot Mptable Smbios Hwsetup
begin

text \<open>
  \<open>main\<close> of main.c: the order in which the components run. \<open>n\<close> bounds the depth of the tree of PCI buses.
\<close>

definition main :: "nat \<Rightarrow> 'd env \<Rightarrow> ('d, unit) fw" where
  "main n env =
     bind (setup_hw env) (\<lambda>have_pci.
     bind (setup_mmconfig env) (\<lambda>mmconfig.
     andthen (update (\<lambda>s. s\<lparr>have_mmconfig := mmconfig\<rparr>))
     (andthen (when_do have_pci (setup_pci n env))
     (andthen (setup_idt env)
     (andthen (fw_cfg_setup env)
     (andthen (extract_acpi env)
     (andthen (extract_e820 env)
     (andthen (setup_mptable env)
     (andthen (extract_smbios env)
     (andthen (boot_from_fwcfg env)
     panic))))))))))"

end
