(* ===== verification/Bootspec.thy ===== *)
theory Bootspec
  imports Qboot Structs
begin

text \<open>
  What the boot protocols promise: the memory maps the PVH and multiboot kernels get are the E820 map, and
  control comes back from booting only when there is nothing to boot.
\<close>

section \<open>Filling in a table\<close>

text \<open>A loop whose body keeps an invariant of the number of rounds made, the bound being fixed by it.\<close>

lemma count_loop_invariant:
  assumes "\<And>i s. I i s \<Longrightarrow> bound s = n"
    and "\<And>i s. i < n \<Longrightarrow> I i s \<Longrightarrow> \<exists>s'. p i s = Ret () s' \<and> I (Suc i) s'"
    and "n \<le> i + k" "i \<le> n" "I i s"
  shows "\<exists>s'. count_loop k i bound p s = Ret () s' \<and> I n s'"
  using assms(3-5)
proof (induction k arbitrary: i s)
  case 0
  then show ?case using assms(1) by auto
next
  case (Suc k)
  show ?case
  proof (cases "i < n")
    case True
    with assms(2) Suc.prems obtain s' where "p i s = Ret () s'" "I (Suc i) s'" by blast
    with Suc.IH [of "Suc i" s'] Suc.prems True assms(1) show ?thesis by (auto simp: andthen_apply)
  next
    case False
    then show ?thesis using assms(1) Suc.prems by auto
  qed
qed

lemma for_below_invariant:
  assumes "\<And>i s. I i s \<Longrightarrow> bound s = n"
    and "\<And>i s. i < n \<Longrightarrow> I i s \<Longrightarrow> \<exists>s'. p i s = Ret () s' \<and> I (Suc i) s'"
    and "n \<le> 2 ^ 31" "I 0 s"
  shows "\<exists>s'. for_below bound p s = Ret () s' \<and> I n s'"
  unfolding for_below_def by (rule count_loop_invariant [where I = I and n = n]) (use assms in simp_all)

lemma store_next:
  assumes "load_bytes m p n = as @ rs" "length as + length cs \<le> n" "n \<le> 2 ^ 32"
  shows "load_bytes (store_bytes m (p + of_nat (length as)) cs) p n = as @ cs @ drop (length cs) rs"
  using load_store_within [of "length as" cs n m p] assms by (simp add: splice_def)

text \<open>Entry \<open>i\<close> of the E820 map, as the loops read it.\<close>

lemma e820_entry_fields:
  assumes "i < unat (e820_nr_map s)"
  shows "e820_map s ! i = \<lparr>entry_addr = ldq_p (mem s) (e820_entry_at s (of_nat i)),
    entry_size = ldq_p (mem s) (e820_entry_at s (of_nat i) + 8), entry_type = ldl_p (mem s) (e820_entry_at s (of_nat i) + 16)\<rparr>"
proof -
  let ?p = "e820_entry_at s (of_nat i)"
  have at: "e820 s + 4 + of_nat (i * 20) = ?p" by (simp add: e820_entry_at_def mult.commute)
  have "load_bytes (mem s) ?p (8 + (8 + 4)) = load_bytes (mem s) ?p 8 @ load_bytes (mem s) (?p + 8) 8 @ load_bytes (mem s) (?p + 16) 4"
    unfolding load_bytes_append by (simp add: add.commute)
  then have "load_bytes (mem s) ?p 20 = load_bytes (mem s) ?p 8 @ load_bytes (mem s) (?p + 8) 8 @ load_bytes (mem s) (?p + 16) 4"
    by simp
  then show ?thesis using assms at
    by (simp add: e820_map_def nth_load_array dec_entry_def ldq_p_def ldl_p_def del: load_bytes.simps)
qed

text \<open>A state with the same map: memory may differ outside the bytes of the map.\<close>

definition map_kept :: "'d machine \<Rightarrow> mem \<Rightarrow> bool" where
  "map_kept s m \<longleftrightarrow> (\<forall>a. inside a (e820 s) (4 + 20 * unat (e820_nr_map s)) \<longrightarrow> m a = mem s a)"

lemma map_kept_store:
  assumes "map_kept s m" "apart q (length bs) (e820 s) (4 + 20 * unat (e820_nr_map s))"
  shows "map_kept s (store_bytes m q bs)"
  using assms store_bytes_apart [OF assms(2)] by (simp add: map_kept_def)

lemma map_kept_reads:
  assumes "map_kept s m" "4 + 20 * unat (e820_nr_map s) < 2 ^ 32" "s' = s\<lparr>mem := m\<rparr>"
  shows "e820_nr_map s' = e820_nr_map s" "e820_map s' = e820_map s"
  using e820_map_cong(1,2) [of s' s] assms by (auto simp: map_kept_def)

section \<open>The PVH memory map\<close>

definition memmap_of :: "e820entry \<Rightarrow> hvm_memmap_table_entry" where
  "memmap_of e = \<lparr>memmap_addr = entry_addr e, memmap_size = entry_size e, memmap_type = entry_type e, memmap_reserved = 0\<rparr>"

definition enc_memmap :: "e820entry \<Rightarrow> u8 list" where
  "enc_memmap e = enc_memmap_entry (memmap_of e)"

lemma enc_memmap_bytes: "enc_memmap e = enc_entry e @ [0, 0, 0, 0]"
  by (simp add: enc_memmap_def memmap_of_def enc_memmap_entry_def enc_entry_def le_bytes_4)

lemma length_enc_memmap [simp]: "length (enc_memmap e) = 24"
  by (simp add: enc_memmap_bytes enc_entry_def)

lemma length_concat_memmap: "length (concat (map enc_memmap es)) = 24 * length es"
  by (induction es) simp_all

lemma pvh_entry_step:
  assumes m: "map_kept s m" and i: "i < unat (e820_nr_map s)" and small: "4 + 20 * unat (e820_nr_map s) < 2 ^ 32"
    and q: "apart (p + 24 * of_nat i) 24 (e820 s) (4 + 20 * unat (e820_nr_map s))"
  shows "pvh_entry p i (s\<lparr>mem := m\<rparr>)
    = Ret () (s\<lparr>mem := store_bytes m (p + 24 * of_nat i) (enc_entry (e820_map s ! i))\<rparr>)"
proof -
  let ?q = "p + 24 * of_nat i" and ?s = "s\<lparr>mem := m\<rparr>" and ?e = "e820_entry_at s (of_nat i)"
  let ?x = "e820_map s ! i"
  define m1 where "m1 = store_bytes m ?q (le_bytes 8 (entry_addr ?x))"
  define m2 where "m2 = store_bytes m1 (?q + 8) (le_bytes 8 (entry_size ?x))"
  have q8: "apart ?q 8 (e820 s) (4 + 20 * unat (e820_nr_map s))" "apart (?q + 8) 8 (e820 s) (4 + 20 * unat (e820_nr_map s))"
    using apart_sub [OF q, of 0 8] apart_sub [OF q, of 8 8] by simp_all
  have k1: "map_kept s m1" unfolding m1_def by (rule map_kept_store) (use m q8 in simp_all)
  have k2: "map_kept s m2" unfolding m2_def by (rule map_kept_store) (use k1 q8 in simp_all)
  have read: "?x = \<lparr>entry_addr = ldq_p m' ?e, entry_size = ldq_p m' (?e + 8), entry_type = ldl_p m' (?e + 16)\<rparr>" if "map_kept s m'" for m'
    using e820_entry_fields [of i "s\<lparr>mem := m'\<rparr>"] map_kept_reads [OF that small refl] i by (simp add: e820_entry_at_def)
  have "ldq_p m ?e = entry_addr ?x" "ldq_p m1 (?e + 8) = entry_size ?x" "ldl_p m2 (?e + 16) = entry_type ?x"
    using read [OF m] read [OF k1] read [OF k2] by (metis e820entry.select_convs)+
  moreover have "e820_entry_at ?s (of_nat i) = ?e" by (simp add: e820_entry_at_def)
  ultimately have "pvh_entry p i ?s = Ret () (s\<lparr>mem := store_bytes m2 (?q + 16) (le_bytes 4 (entry_type ?x))\<rparr>)"
    by (simp add: pvh_entry_def prog_simps Let_def stq_p_def stl_p_def m1_def m2_def)
  moreover have "store_bytes m2 (?q + 16) (le_bytes 4 (entry_type ?x)) = store_bytes m ?q (enc_entry ?x)"
    by (simp add: m2_def m1_def enc_entry_def store_bytes_append add.assoc)
  ultimately show ?thesis by simp
qed

lemma pvh_entries:
  assumes "map_kept s m" and small: "4 + 20 * unat (e820_nr_map s) < 2 ^ 32" "24 * unat (e820_nr_map s) < 2 ^ 32"
    and away: "apart p (24 * unat (e820_nr_map s)) (e820 s) (4 + 20 * unat (e820_nr_map s))"
    and "load_bytes m p (24 * unat (e820_nr_map s)) = replicate (24 * unat (e820_nr_map s)) 0"
  shows "\<exists>m'. for_below (\<lambda>s. unat (e820_nr_map s)) (pvh_entry p) (s\<lparr>mem := m\<rparr>) = Ret () (s\<lparr>mem := m'\<rparr>) \<and>
    load_bytes m' p (24 * unat (e820_nr_map s)) = concat (map enc_memmap (e820_map s)) \<and> map_kept s m' \<and>
    (\<forall>a. \<not> inside a p (24 * unat (e820_nr_map s)) \<longrightarrow> m' a = m a)"
proof -
  let ?n = "unat (e820_nr_map s)" and ?es = "e820_map s"
  have len: "length ?es = ?n" by (simp add: e820_map_def)
  define I where "I i t \<longleftrightarrow> (\<exists>m'. t = s\<lparr>mem := m'\<rparr> \<and> map_kept s m' \<and>
      load_bytes m' p (24 * ?n) = concat (map enc_memmap (take i ?es)) @ replicate (24 * (?n - i)) 0 \<and>
      (\<forall>a. \<not> inside a p (24 * ?n) \<longrightarrow> m' a = m a))" for i t
  have step: "\<exists>t'. pvh_entry p i t = Ret () t' \<and> I (Suc i) t'" if i: "i < ?n" and It: "I i t" for i t
  proof -
    obtain m' where m': "t = s\<lparr>mem := m'\<rparr>" "map_kept s m'"
      "load_bytes m' p (24 * ?n) = concat (map enc_memmap (take i ?es)) @ replicate (24 * (?n - i)) 0"
      "\<forall>a. \<not> inside a p (24 * ?n) \<longrightarrow> m' a = m a" using It unfolding I_def by blast
    let ?q = "p + 24 * of_nat i" and ?bs = "enc_entry (?es ! i)"
    have q: "?q = p + of_nat (24 * i)" by simp
    have lbs: "length ?bs = 20" by (simp add: enc_entry_def)
    have within: "apart ?q 24 (e820 s) (4 + 20 * ?n)" unfolding q by (rule apart_sub [OF away]) (use i in simp)
    have "apart ?q (length ?bs) (e820 s) (4 + 20 * ?n)" by (rule apart_mono [OF within]) (simp_all add: lbs)
    then have kept: "map_kept s (store_bytes m' ?q ?bs)" by (rule map_kept_store [OF m'(2)])
    have "length (concat (map enc_memmap (take i ?es))) = 24 * i" using i len by (simp add: length_concat_memmap)
    then have "load_bytes (store_bytes m' ?q ?bs) p (24 * ?n)
        = concat (map enc_memmap (take i ?es)) @ ?bs @ drop 20 (replicate (24 * (?n - i)) 0)"
      using store_next [OF m'(3), of ?bs] i small(2) lbs by simp
    moreover have "drop 20 (replicate (24 * (?n - i)) 0) = [0, 0, 0, 0] @ replicate (24 * (?n - Suc i)) (0 :: u8)"
    proof -
      have "24 * (?n - i) = 20 + (4 + 24 * (?n - Suc i))" using i by simp
      then show ?thesis by (simp add: replicate_add numeral_eq_Suc)
    qed
    ultimately have bytes: "load_bytes (store_bytes m' ?q ?bs) p (24 * ?n)
        = concat (map enc_memmap (take (Suc i) ?es)) @ replicate (24 * (?n - Suc i)) 0"
      using i len by (simp add: take_Suc_conv_app_nth enc_memmap_bytes)
    have "\<forall>a. \<not> inside a p (24 * ?n) \<longrightarrow> store_bytes m' ?q ?bs a = m a"
    proof (intro allI impI)
      fix a assume a: "\<not> inside a p (24 * ?n)"
      then have "\<not> inside a ?q 20" using inside_sub [of a p "24 * i" 20 "24 * ?n"] i small(2) by auto
      then show "store_bytes m' ?q ?bs a = m a" using m'(4) a lbs by (simp add: store_bytes_outside [where n = 20])
    qed
    then have "I (Suc i) (s\<lparr>mem := store_bytes m' ?q ?bs\<rparr>)" unfolding I_def using kept bytes by blast
    then show ?thesis using pvh_entry_step [OF m'(2) i small(1) within] m'(1) by blast
  qed
  have "I 0 (s\<lparr>mem := m\<rparr>)" unfolding I_def using assms(1,5) by (intro exI [of _ m]) simp
  moreover have bound: "unat (e820_nr_map t) = ?n" if "I i t" for i t
    using that map_kept_reads(1) [OF _ small(1)] unfolding I_def by metis
  moreover have "?n \<le> 2 ^ 31" using small(2) by simp
  ultimately obtain t where "for_below (\<lambda>s. unat (e820_nr_map s)) (pvh_entry p) (s\<lparr>mem := m\<rparr>) = Ret () t" "I ?n t"
    using for_below_invariant [where I = I and n = ?n and p = "pvh_entry p" and bound = "\<lambda>s. unat (e820_nr_map s)", OF _ step] by blast
  then show ?thesis unfolding I_def using len by auto
qed

text \<open>
  With room on the heap, below the E820 map and the start_info structure, pvh_e820_setup takes from the heap
  just the table, fills it with the entries of the E820 map in their order (the reserved word of each is 0), and
  sets the two fields of start_info that name it; the rest of memory stays as it was.
\<close>

lemma pvh_e820_setup_result:
  assumes n: "n = unat (e820_nr_map s)" "24 * n < 2 ^ 32" and room: "heap_fits (24 * e820_nr_map s) 16 s"
    and e820: "unat (malloc_top s) \<le> unat (e820 s)" "unat (e820 s) + 4 + 20 * n < 2 ^ 32"
    and info: "unat (malloc_top s) \<le> unat (start_info env)" "unat (start_info env) + 56 \<le> 2 ^ 32"
    and other: "apart (start_info env) 56 (e820 s) (4 + 20 * n)"
  shows "\<exists>p m. pvh_e820_setup env s = Ret () (s\<lparr>malloc_top := p, mem := m\<rparr>) \<and> unat p + 24 * n \<le> unat (malloc_top s) \<and>
    unat (malloc_top s) < unat p + 24 * n + 16 \<and> load_bytes m p (24 * n) = concat (map enc_memmap (e820_map s)) \<and>
    start_info_at m (start_info env) = (start_info_at (mem s) (start_info env))
      \<lparr>si_memmap_paddr := ucast p, si_memmap_entries := e820_nr_map s\<rparr> \<and>
    e820_map (s\<lparr>mem := m\<rparr>) = e820_map s \<and>
    (\<forall>a. \<not> inside a p (24 * n) \<longrightarrow> \<not> inside a (start_info env) 56 \<longrightarrow> m a = mem s a)"
proof -
  let ?sz = "24 * e820_nr_map s" and ?S = "start_info env"
  have sz: "unat ?sz = 24 * n" using n(2) unfolding n(1) by (simp add: unat_mult_lem [THEN iffD1])
  obtain p where p: "malloc ?sz s = Ret p (s\<lparr>malloc_top := p\<rparr>)" by (simp add: malloc_def malloc_align_apply)
  have top: "unat p + 24 * n \<le> unat (malloc_top s)" "unat (malloc_top s) < unat p + 24 * n + 16"
    using malloc_align_bounds(1,5) [OF room, of p] p sz by (simp_all add: malloc_def)
  have away: "apart p (24 * n) (e820 s) (4 + 20 * n)" by (rule apart_interval) (use top e820 in linarith)+
  have away': "apart p (24 * n) ?S 56" by (rule apart_interval) (use top info in linarith)+
  let ?s = "s\<lparr>malloc_top := p\<rparr>"
  define m0 where "m0 = memset p 0 ?sz (mem s)"
  have m0: "m0 = store_bytes (mem s) p (replicate (24 * n) 0)" by (simp add: m0_def store_whole sz)
  have nr: "e820_nr_map ?s = e820_nr_map s" "e820 ?s = e820 s" "e820_map ?s = e820_map s"
    by (simp_all add: e820_nr_map_def e820_map_def)
  have small: "4 + 20 * unat (e820_nr_map ?s) < 2 ^ 32" using e820(2) n(1) nr(1) by simp
  have k0: "map_kept ?s m0" unfolding m0
    by (rule map_kept_store) (use away n(1) nr in \<open>simp_all add: map_kept_def\<close>)
  have zero: "load_bytes m0 p (24 * n) = replicate (24 * n) 0" unfolding m0 using n(2) by (simp add: load_store_same)
  obtain m1 where m1: "for_below (\<lambda>s. unat (e820_nr_map s)) (pvh_entry p) (?s\<lparr>mem := m0\<rparr>) = Ret () (?s\<lparr>mem := m1\<rparr>)"
    "load_bytes m1 p (24 * n) = concat (map enc_memmap (e820_map s))" "map_kept ?s m1"
    "\<forall>a. \<not> inside a p (24 * n) \<longrightarrow> m1 a = m0 a"
    using pvh_entries [OF k0 small] zero away n nr by auto
  define m where "m = stl_p (?S + 48) (e820_nr_map s) (stq_p (?S + 40) (ucast p) m1)"
  have S: "apart (?S + 40) 8 q k" "apart (?S + 48) 4 q k" if "apart ?S 56 q k" for q k
    using apart_sub [OF that, of 40 8] apart_sub [OF that, of 48 4] by simp_all
  have k2: "map_kept ?s (stq_p (?S + 40) (ucast p) m1)" unfolding stq_p_def
    by (rule map_kept_store [OF m1(3)]) (use S(1) [OF other] n(1) nr in simp)
  have k3: "map_kept ?s m" unfolding m_def stl_p_def
    by (rule map_kept_store [OF k2]) (use S(2) [OF other] n(1) nr in simp)
  have run: "pvh_e820_setup env s = Ret () (s\<lparr>malloc_top := p, mem := m\<rparr>)"
    using m1(1) map_kept_reads(1) [OF k2 small refl] nr(1)
    by (simp add: pvh_e820_setup_def prog_simps Let_def p m0_def [symmetric] m_def)
  have "load_bytes m p (24 * n) = load_bytes m1 p (24 * n)"
    unfolding m_def stl_p_def stq_p_def using S [OF away' [unfolded apart_commute [of p]]] by (simp add: load_store_apart)
  moreover have "start_info_at m ?S = (start_info_at (mem s) ?S)\<lparr>si_memmap_paddr := ucast p, si_memmap_entries := e820_nr_map s\<rparr>"
  proof -
    have "start_info_at m1 ?S = start_info_at m0 ?S"
      using m1(4) away' by (auto simp: start_info_at_def apart_not_inside intro!: arg_cong [where f = dec_start_info] load_bytes_cong)
    also have "\<dots> = start_info_at (mem s) ?S" using away' by (simp add: m0 struct_apart)
    finally show ?thesis by (simp add: m_def start_info_store)
  qed
  moreover have "e820_map (s\<lparr>mem := m\<rparr>) = e820_map s"
    using map_kept_reads(2) [OF k3 small refl] nr by (simp add: e820_map_def e820_nr_map_def)
  moreover have "m a = mem s a" if "\<not> inside a p (24 * n)" "\<not> inside a ?S 56" for a
  proof -
    have "\<not> inside a (?S + 40) 8" "\<not> inside a (?S + 48) 4"
      using that(2) inside_sub [of a ?S 40 8 56] inside_sub [of a ?S 48 4 56] by auto
    then show ?thesis using m1(4) that(1) n(2)
      by (simp add: m_def stl_p_def stq_p_def m0 store_bytes_outside [where n = 4] store_bytes_outside [where n = 8]
          store_bytes_outside [where n = "24 * n"])
  qed
  ultimately show ?thesis using run top m1(2) by (intro exI [of _ p] exI [of _ m]) auto
qed

section \<open>The multiboot memory map\<close>

definition mmap_of :: "e820entry \<Rightarrow> mb_mmap_entry" where
  "mmap_of e = \<lparr>mmap_size = 20, mmap_base_addr = entry_addr e, mmap_length = entry_size e, mmap_type = entry_type e\<rparr>"

definition enc_mbmap :: "e820entry \<Rightarrow> u8 list" where
  "enc_mbmap e = enc_mmap_entry (mmap_of e)"

lemma enc_mbmap_bytes: "enc_mbmap e = le_bytes 4 (20 :: u32) @ enc_entry e"
  by (simp add: enc_mbmap_def mmap_of_def enc_mmap_entry_def enc_entry_def)

lemma length_enc_mbmap [simp]: "length (enc_mbmap e) = 24"
  by (simp add: enc_mbmap_bytes enc_entry_def)

lemma length_concat_mbmap: "length (concat (map enc_mbmap es)) = 24 * length es"
  by (induction es) simp_all

text \<open>One round, with the table at \<open>M\<close> and \<open>i\<close> entries in it.\<close>

lemma mb_entry_step:
  assumes m: "map_kept s m" and i: "i < unat (e820_nr_map s)" and small: "4 + 20 * unat (e820_nr_map s) < 2 ^ 32"
    and at: "ldl_p m (mb + 48) = M" "ldl_p m (mb + 44) = 24 * of_nat i"
    and q: "apart (M + 24 * of_nat i) 24 (e820 s) (4 + 20 * unat (e820_nr_map s))" "apart (M + 24 * of_nat i) 24 (mb + 44) 8"
  shows "mb_entry mb i (s\<lparr>mem := m\<rparr>) = Ret () (s\<lparr>mem :=
    stl_p (mb + 44) (24 * of_nat (Suc i)) (store_bytes m (M + 24 * of_nat i) (enc_mbmap (e820_map s ! i)))\<rparr>)"
proof -
  let ?q = "M + 24 * of_nat i" and ?s = "s\<lparr>mem := m\<rparr>" and ?e = "e820_entry_at s (of_nat i)"
  let ?x = "e820_map s ! i" and ?len = "4 + 20 * unat (e820_nr_map s)"
  define m1 where "m1 = store_bytes m ?q (le_bytes 4 (20 :: u32))"
  define m2 where "m2 = store_bytes m1 (?q + 4) (le_bytes 8 (entry_addr ?x))"
  define m3 where "m3 = store_bytes m2 (?q + 12) (le_bytes 8 (entry_size ?x))"
  have q8: "apart ?q 4 (e820 s) ?len" "apart (?q + 4) 8 (e820 s) ?len" "apart (?q + 12) 8 (e820 s) ?len"
    using apart_sub [OF q(1), of 0 4] apart_sub [OF q(1), of 4 8] apart_sub [OF q(1), of 12 8] by simp_all
  have k1: "map_kept s m1" unfolding m1_def by (rule map_kept_store) (use m q8 in simp_all)
  have k2: "map_kept s m2" unfolding m2_def by (rule map_kept_store) (use k1 q8 in simp_all)
  have k3: "map_kept s m3" unfolding m3_def by (rule map_kept_store) (use k2 q8 in simp_all)
  have read: "?x = \<lparr>entry_addr = ldq_p m' ?e, entry_size = ldq_p m' (?e + 8), entry_type = ldl_p m' (?e + 16)\<rparr>" if "map_kept s m'" for m'
    using e820_entry_fields [of i "s\<lparr>mem := m'\<rparr>"] map_kept_reads [OF that small refl] i by (simp add: e820_entry_at_def)
  have f: "ldq_p m1 ?e = entry_addr ?x" "ldq_p m2 (?e + 8) = entry_size ?x" "ldl_p m3 (?e + 16) = entry_type ?x"
    using read [OF k1] read [OF k2] read [OF k3] by (metis e820entry.select_convs)+
  define m4 where "m4 = store_bytes m3 (?q + 20) (le_bytes 4 (entry_type ?x))"
  have m4: "m4 = store_bytes m ?q (enc_mbmap ?x)"
    by (simp add: m4_def m3_def m2_def m1_def enc_mbmap_bytes enc_entry_def store_bytes_append add.assoc)
  have "apart ?q 24 (mb + 44) 4" by (rule apart_mono [OF q(2)]) simp_all
  then have len: "ldl_p m4 (mb + 44) = 24 * of_nat i" unfolding m4 using at(2) by (simp add: ldl_store_apart)
  have e: "e820_entry_at (s\<lparr>mem := x\<rparr>) (of_nat i) = ?e" for x by (simp add: e820_entry_at_def)
  have "mb_entry mb i ?s = Ret () (s\<lparr>mem := stl_p (mb + 44) (ldl_p m4 (mb + 44) + 24) m4\<rparr>)"
    by (simp add: mb_entry_def prog_simps Let_def at e stq_p_def [of "?q + _"] stl_p_def [of ?q] stl_p_def [of "?q + 20"]
        m1_def [symmetric] f m2_def [symmetric] m3_def [symmetric] m4_def)
  moreover have "24 * of_nat i + 24 = (24 * of_nat (Suc i) :: u32)" by simp
  ultimately have "mb_entry mb i ?s = Ret () (s\<lparr>mem := stl_p (mb + 44) (24 * of_nat (Suc i)) m4\<rparr>)" by (simp only: len)
  then show ?thesis by (simp only: m4)
qed

text \<open>The whole loop, run from a length of 0.\<close>

lemma mb_entries:
  assumes kept: "map_kept s m" and small: "4 + 20 * unat (e820_nr_map s) < 2 ^ 32" "24 * unat (e820_nr_map s) < 2 ^ 32"
    and M: "M = ldl_p m (mb + 48)" and zero: "ldl_p m (mb + 44) = 0"
    and away: "apart M (24 * unat (e820_nr_map s)) (e820 s) (4 + 20 * unat (e820_nr_map s))"
      "apart M (24 * unat (e820_nr_map s)) (mb + 44) 8" "apart (mb + 44) 4 (e820 s) (4 + 20 * unat (e820_nr_map s))"
  shows "\<exists>m'. for_below (\<lambda>s. unat (e820_nr_map s)) (mb_entry mb) (s\<lparr>mem := m\<rparr>) = Ret () (s\<lparr>mem := m'\<rparr>) \<and>
    load_bytes m' M (24 * unat (e820_nr_map s)) = concat (map enc_mbmap (e820_map s)) \<and> map_kept s m' \<and>
    ldl_p m' (mb + 44) = 24 * e820_nr_map s \<and>
    (\<forall>a. \<not> inside a M (24 * unat (e820_nr_map s)) \<longrightarrow> \<not> inside a (mb + 44) 4 \<longrightarrow> m' a = m a)"
proof -
  let ?n = "unat (e820_nr_map s)" and ?es = "e820_map s"
  have len: "length ?es = ?n" by (simp add: e820_map_def)
  define I where "I i t \<longleftrightarrow> (\<exists>m' rs. t = s\<lparr>mem := m'\<rparr> \<and> map_kept s m' \<and>
      load_bytes m' M (24 * ?n) = concat (map enc_mbmap (take i ?es)) @ rs \<and>
      ldl_p m' (mb + 48) = M \<and> ldl_p m' (mb + 44) = 24 * of_nat i \<and>
      (\<forall>a. \<not> inside a M (24 * ?n) \<longrightarrow> \<not> inside a (mb + 44) 4 \<longrightarrow> m' a = m a))" for i t
  have field: "apart (mb + 44) 4 M (24 * ?n)" "apart M (24 * ?n) (mb + 44) 4" "apart M (24 * ?n) (mb + 48) 4"
    "apart (mb + 44) 4 (mb + 48) 4"
  proof -
    show "apart M (24 * ?n) (mb + 44) 4" by (rule apart_mono [OF away(2)]) simp_all
    then show "apart (mb + 44) 4 M (24 * ?n)" by (simp add: apart_commute)
    show "apart M (24 * ?n) (mb + 48) 4"
      using apart_sub [of "mb + 44" 8 M "24 * ?n" 4 4] away(2) by (simp add: apart_commute add.commute)
    show "apart (mb + 44) 4 (mb + 48) 4" by (simp add: apart_def)
  qed
  have step: "\<exists>t'. mb_entry mb i t = Ret () t' \<and> I (Suc i) t'" if i: "i < ?n" and It: "I i t" for i t
  proof -
    obtain m' rs where m': "t = s\<lparr>mem := m'\<rparr>" "map_kept s m'"
      "load_bytes m' M (24 * ?n) = concat (map enc_mbmap (take i ?es)) @ rs"
      "ldl_p m' (mb + 48) = M" "ldl_p m' (mb + 44) = 24 * of_nat i"
      "\<forall>a. \<not> inside a M (24 * ?n) \<longrightarrow> \<not> inside a (mb + 44) 4 \<longrightarrow> m' a = m a" using It unfolding I_def by blast
    let ?q = "M + 24 * of_nat i" and ?bs = "enc_mbmap (?es ! i)"
    have q: "?q = M + of_nat (24 * i)" by simp
    have sub: "apart ?q 24 r k" if "apart M (24 * ?n) r k" for r k
      unfolding q by (rule apart_sub [OF that]) (use i in simp)
    define m1 where "m1 = store_bytes m' ?q ?bs"
    define m2 where "m2 = stl_p (mb + 44) (24 * of_nat (Suc i)) m1"
    have run: "mb_entry mb i (s\<lparr>mem := m'\<rparr>) = Ret () (s\<lparr>mem := m2\<rparr>)"
      unfolding m2_def m1_def by (rule mb_entry_step [OF m'(2) i small(1) m'(4,5) sub [OF away(1)] sub [OF away(2)]])
    have "map_kept s m1" unfolding m1_def by (rule map_kept_store [OF m'(2)]) (use sub [OF away(1)] in simp)
    then have kept2: "map_kept s m2" unfolding m2_def stl_p_def by (rule map_kept_store) (use away(3) in simp)
    have "length (concat (map enc_mbmap (take i ?es))) = 24 * i" using i len by (simp add: length_concat_mbmap)
    then have "load_bytes m1 M (24 * ?n) = concat (map enc_mbmap (take i ?es)) @ ?bs @ drop 24 rs"
      using store_next [OF m'(3), of ?bs] i small(2) by (simp add: m1_def)
    then have bytes: "load_bytes m2 M (24 * ?n) = concat (map enc_mbmap (take (Suc i) ?es)) @ drop 24 rs"
      unfolding m2_def stl_p_def using field(1) i len by (simp add: load_store_apart take_Suc_conv_app_nth)
    have ptr: "ldl_p m2 (mb + 48) = M" "ldl_p m2 (mb + 44) = 24 * of_nat (Suc i)"
      using sub [OF field(3)] field(4) m'(4) by (simp_all add: m2_def m1_def ldl_store_apart ldl_stl_same)
    have "\<forall>a. \<not> inside a M (24 * ?n) \<longrightarrow> \<not> inside a (mb + 44) 4 \<longrightarrow> m2 a = m a"
    proof (intro allI impI)
      fix a assume a: "\<not> inside a M (24 * ?n)" "\<not> inside a (mb + 44) 4"
      then have "\<not> inside a ?q 24" using inside_sub [of a M "24 * i" 24 "24 * ?n"] i small(2) by auto
      then show "m2 a = m a" using m'(6) a
        by (simp add: m2_def m1_def stl_p_def store_bytes_outside [where n = 24] store_bytes_outside [where n = 4])
    qed
    then have "I (Suc i) (s\<lparr>mem := m2\<rparr>)" unfolding I_def using kept2 bytes ptr by blast
    then show ?thesis using run m'(1) by blast
  qed
  have "I 0 (s\<lparr>mem := m\<rparr>)" unfolding I_def using kept M zero by (intro exI [of _ m] exI [of _ "load_bytes m M (24 * ?n)"]) simp
  moreover have bound: "unat (e820_nr_map t) = ?n" if "I i t" for i t
    using that map_kept_reads(1) [OF _ small(1)] unfolding I_def by metis
  moreover have "?n \<le> 2 ^ 31" using small(2) by simp
  ultimately obtain t where "for_below (\<lambda>s. unat (e820_nr_map s)) (mb_entry mb) (s\<lparr>mem := m\<rparr>) = Ret () t" "I ?n t"
    using for_below_invariant [where I = I and n = ?n and p = "mb_entry mb" and bound = "\<lambda>s. unat (e820_nr_map s)", OF _ step] by blast
  then obtain m' rs where t: "for_below (\<lambda>s. unat (e820_nr_map s)) (mb_entry mb) (s\<lparr>mem := m\<rparr>) = Ret () (s\<lparr>mem := m'\<rparr>)"
    "map_kept s m'" "load_bytes m' M (24 * ?n) = concat (map enc_mbmap ?es) @ rs" "ldl_p m' (mb + 44) = 24 * of_nat ?n"
    "\<forall>a. \<not> inside a M (24 * ?n) \<longrightarrow> \<not> inside a (mb + 44) 4 \<longrightarrow> m' a = m a" unfolding I_def using len by auto
  moreover have "rs = []" using arg_cong [OF t(3), of length] len by (simp add: length_concat_mbmap)
  ultimately show ?thesis by (intro exI [of _ m']) simp
qed

section \<open>A multiboot kernel\<close>

text \<open>Regions of memory none of which meets another.\<close>

primrec separate :: "(addr \<times> nat) list \<Rightarrow> bool" where
  "separate [] = True"
| "separate (r # rs) \<longleftrightarrow> (\<forall>r' \<in> set rs. apart (fst r) (snd r) (fst r') (snd r')) \<and> separate rs"

text \<open>The number in entry \<open>e\<close> of the device.\<close>

definition entry_word :: "(u16 \<Rightarrow> nat \<Rightarrow> u8) \<Rightarrow> u16 \<Rightarrow> u32" where
  "entry_word E e = le_word (entry_bytes E e 0 4)"

context fw_cfg_port
begin

lemma read_select_word:
  "\<exists>d. read_select env e s = Ret (entry_word E e) (s\<lparr>dev := d\<rparr>)"
  by (auto simp: read_select_def andthen_apply entry_word_def)

text \<open>An entry is read to a region away from the descriptor.\<close>

lemma entry_loaded:
  assumes "apart buf (unat len) (dma_desc env) 16"
  shows "\<exists>m d. fw_cfg_read_entry env e buf len s = Ret () (s\<lparr>mem := m, dev := d\<rparr>) \<and>
    load_bytes m buf (unat len) = entry_bytes E (ucast e) 0 (unat len) \<and>
    (\<forall>a. \<not> inside a buf (unat len) \<longrightarrow> \<not> inside a (dma_desc env) 16 \<longrightarrow> m a = mem s a)"
proof -
  let ?bs = "entry_bytes E (ucast e) 0 (unat len)"
  obtain t where t: "fw_cfg_read_entry env e buf len s = Ret () t" "delivered env buf ?bs s t"
    using fw_cfg_read_entry_delivers [OF assms, of e s] by blast
  obtain m d where md: "t = s\<lparr>mem := m, dev := d\<rparr>" "\<And>a. \<not> inside a (dma_desc env) 16 \<Longrightarrow> m a = store_bytes (mem s) buf ?bs a"
    using t(2) by (rule deliveredE) blast
  have len: "unat len \<le> 2 ^ 32" using unat_bound [of len] by simp
  have "load_bytes m buf (unat len) = load_bytes (store_bytes (mem s) buf ?bs) buf (unat len)"
    using assms by (intro load_bytes_cong md(2)) (simp add: apart_not_inside apart_commute)
  then have "load_bytes m buf (unat len) = ?bs" using len by (simp add: load_store_same)
  moreover have "m a = mem s a" if "\<not> inside a buf (unat len)" "\<not> inside a (dma_desc env) 16" for a
    using md(2) that len by (simp add: store_bytes_outside [where n = "unat len"])
  ultimately show ?thesis using t(1) md(1) by (intro exI [of _ m] exI [of _ d]) simp
qed

end

lemma load_outside:
  assumes "\<And>a. \<not> inside a p n \<Longrightarrow> \<not> inside a q k \<Longrightarrow> m' a = m a" "apart p n r l" "apart q k r l"
  shows "load_bytes m' r l = load_bytes m r l"
  using assms by (intro load_bytes_cong) (simp add: apart_not_inside)

lemma map_kept_outside:
  assumes "map_kept s m" "\<And>a. \<not> inside a p n \<Longrightarrow> \<not> inside a q k \<Longrightarrow> m' a = m a"
    and "apart p n (e820 s) (4 + 20 * unat (e820_nr_map s))" "apart q k (e820 s) (4 + 20 * unat (e820_nr_map s))"
  shows "map_kept s m'"
  unfolding map_kept_def
proof (intro allI impI)
  fix a assume "inside a (e820 s) (4 + 20 * unat (e820_nr_map s))"
  then obtain i where "i < 4 + 20 * unat (e820_nr_map s)" "a = e820 s + of_nat i" by (rule insideE)
  then show "m' a = mem s a" using assms apart_not_inside \<open>inside a _ _\<close> by (metis map_kept_def)
qed

text \<open>The block filled in by the firmware, from memory \<open>m\<close> with the block loaded at \<open>B\<close>.\<close>

definition mb_block :: "addr \<Rightarrow> u32 \<Rightarrow> mem \<Rightarrow> mem" where
  "mb_block B low m = stl_p (B + 44) 0 (stl_p (B + 8) (drop_bit 10 (low - 1048576)) (stl_p (B + 4) 639 m))"

lemma mb_block_filled:
  assumes kept: "map_kept s m" and small: "4 + 20 * unat (e820_nr_map s) < 2 ^ 32" "24 * unat (e820_nr_map s) < 2 ^ 32"
    and M: "ldl_p m (B + 48) = M" and bs: "52 \<le> bs"
    and away: "apart B bs M (24 * unat (e820_nr_map s))" "apart B bs (e820 s) (4 + 20 * unat (e820_nr_map s))"
      "apart M (24 * unat (e820_nr_map s)) (e820 s) (4 + 20 * unat (e820_nr_map s))"
  shows "\<exists>m'. for_below (\<lambda>s. unat (e820_nr_map s)) (mb_entry B) (s\<lparr>mem := mb_block B low m\<rparr>) = Ret () (s\<lparr>mem := m'\<rparr>) \<and>
    load_bytes m' M (24 * unat (e820_nr_map s)) = concat (map enc_mbmap (e820_map s)) \<and>
    ldl_p m' (B + 4) = 639 \<and> ldl_p m' (B + 8) = drop_bit 10 (low - 1048576) \<and> ldl_p m' (B + 48) = M \<and>
    ldl_p m' (B + 44) = 24 * e820_nr_map s \<and>
    (\<forall>q l. apart B bs q l \<longrightarrow> apart M (24 * unat (e820_nr_map s)) q l \<longrightarrow> load_bytes m' q l = load_bytes m q l)"
proof -
  let ?n = "unat (e820_nr_map s)" and ?m = "mb_block B low m"
  have inB: "apart (B + of_nat i) k q l" if "apart B bs q l" "i + k \<le> 52" for i k q l
    by (rule apart_sub [OF that(1)]) (use that(2) bs in simp)
  note inB4 = inB [of _ _ 4 4, simplified] inB [of _ _ 8 4, simplified] inB [of _ _ 44 4, simplified] inB [of _ _ 44 8, simplified]
  have k: "map_kept s ?m" unfolding mb_block_def stl_p_def
    by (intro map_kept_store kept) (use inB4 away(2) in simp_all)
  have M3: "M = ldl_p ?m (B + 48)" "ldl_p ?m (B + 44) = 0"
    using M by (simp_all add: mb_block_def ldl_store_apart ldl_stl_same apart_def)
  have "apart M (24 * ?n) (B + 44) 8" using inB4(4) [OF away(1)] by (simp add: apart_commute)
  from mb_entries [OF k small M3 away(3) this inB4(3) [OF away(2)]]
  obtain m' where m': "for_below (\<lambda>s. unat (e820_nr_map s)) (mb_entry B) (s\<lparr>mem := ?m\<rparr>) = Ret () (s\<lparr>mem := m'\<rparr>)"
    "load_bytes m' M (24 * ?n) = concat (map enc_mbmap (e820_map s))" "ldl_p m' (B + 44) = 24 * e820_nr_map s"
    "\<And>a. \<not> inside a M (24 * ?n) \<Longrightarrow> \<not> inside a (B + 44) 4 \<Longrightarrow> m' a = ?m a" by auto
  have keep: "load_bytes m' q l = load_bytes m q l" if "apart B bs q l" "apart M (24 * ?n) q l" for q l
    using load_outside [OF m'(4) that(2) inB4(3) [OF that(1)]] inB4(1-3) [OF that(1)]
    by (simp add: mb_block_def stl_p_def load_store_apart)
  have inM: "apart M (24 * ?n) (B + of_nat i) k" if "i + k \<le> 52" for i k
    using inB [OF away(1) that] by (simp add: apart_commute)
  have fld: "ldl_p m' (B + of_nat i) = ldl_p ?m (B + of_nat i)" if "i + 4 \<le> 52" "apart (B + 44) 4 (B + of_nat i) 4" for i
    using load_outside [OF m'(4) inM [OF that(1)] that(2)] by (simp add: ldl_p_def)
  have "ldl_p m' (B + 4) = 639" "ldl_p m' (B + 8) = drop_bit 10 (low - 1048576)" "ldl_p m' (B + 48) = M"
    using fld [of 4] fld [of 8] fld [of 48] M3(1)
    by (simp_all add: apart_def mb_block_def ldl_store_apart ldl_stl_same)
  then show ?thesis using m' keep by blast
qed

text \<open>The kernel and the information block are loaded; the E820 map stays.\<close>

lemma mb_loaded:
  fixes E :: "u16 \<Rightarrow> nat \<Rightarrow> u8"
  assumes "fw_cfg_device env sel off E"
    and n: "n = unat (e820_nr_map s)"
    and K: "K = entry_word E FW_CFG_KERNEL_ADDR" "ks = entry_word E FW_CFG_KERNEL_SIZE" "ks \<noteq> 0"
    and B: "B = entry_word E FW_CFG_INITRD_ADDR" "bs = entry_word E FW_CFG_INITRD_SIZE" "52 \<le> unat bs"
    and M: "M = le_word (entry_bytes E FW_CFG_INITRD_DATA 48 4)"
    and away: "separate [(K, unat ks), (B, unat bs), (e820 s, 4 + 20 * n), (dma_desc env, 16)]"
  obtains m d where "boot_multiboot_from_fw_cfg env s = andthen (for_below (\<lambda>s. unat (e820_nr_map s)) (mb_entry B))
      (bind (read_select env FW_CFG_KERNEL_ENTRY) (\<lambda>kernel_entry s. Handoff (Jump32 0x2badb002 B kernel_entry) s))
      (s\<lparr>mem := mb_block B (lowmem s) m, dev := d\<rparr>)"
    "load_bytes m K (unat ks) = entry_bytes E FW_CFG_KERNEL_DATA 0 (unat ks)" "ldl_p m (B + 48) = M" "map_kept s m"
proof -
  note word = fw_cfg_port.read_select_word [OF fw_cfg_port.intro [OF assms(1)]] and load = fw_cfg_port.entry_loaded [OF fw_cfg_port.intro [OF assms(1)]]
  let ?R = "4 + 20 * n"
  have ap: "apart K (unat ks) B (unat bs)" "apart B (unat bs) K (unat ks)" "apart K (unat ks) (e820 s) ?R" "apart K (unat ks) (dma_desc env) 16"
    "apart (dma_desc env) 16 K (unat ks)" "apart B (unat bs) (e820 s) ?R" "apart B (unat bs) (dma_desc env) 16" "apart (dma_desc env) 16 (e820 s) ?R"
    using away by (simp_all add: apart_commute)
  obtain d1 where r1: "read_select env FW_CFG_KERNEL_SIZE s = Ret ks (s\<lparr>dev := d1\<rparr>)" using word K(2) by blast
  obtain d2 where r2: "read_select env FW_CFG_KERNEL_ADDR (s\<lparr>dev := d1\<rparr>) = Ret K (s\<lparr>dev := d2\<rparr>)"
    using word [of FW_CFG_KERNEL_ADDR "s\<lparr>dev := d1\<rparr>"] K(1) by auto
  obtain m1 d3 where l1: "fw_cfg_read_entry env FW_CFG_KERNEL_DATA K ks (s\<lparr>dev := d2\<rparr>) = Ret () (s\<lparr>mem := m1, dev := d3\<rparr>)"
    "load_bytes m1 K (unat ks) = entry_bytes E FW_CFG_KERNEL_DATA 0 (unat ks)"
    "\<And>a. \<not> inside a K (unat ks) \<Longrightarrow> \<not> inside a (dma_desc env) 16 \<Longrightarrow> m1 a = mem s a"
    using load [OF ap(4), of FW_CFG_KERNEL_DATA "s\<lparr>dev := d2\<rparr>"] by auto
  obtain d4 where r3: "read_select env FW_CFG_INITRD_SIZE (s\<lparr>mem := m1, dev := d3\<rparr>) = Ret bs (s\<lparr>mem := m1, dev := d4\<rparr>)"
    using word [of FW_CFG_INITRD_SIZE "s\<lparr>mem := m1, dev := d3\<rparr>"] B(2) by auto
  obtain d5 where r4: "read_select env FW_CFG_INITRD_ADDR (s\<lparr>mem := m1, dev := d4\<rparr>) = Ret B (s\<lparr>mem := m1, dev := d5\<rparr>)"
    using word [of FW_CFG_INITRD_ADDR "s\<lparr>mem := m1, dev := d4\<rparr>"] B(1) by auto
  obtain m2 d6 where l2: "fw_cfg_read_entry env FW_CFG_INITRD_DATA B bs (s\<lparr>mem := m1, dev := d5\<rparr>) = Ret () (s\<lparr>mem := m2, dev := d6\<rparr>)"
    "load_bytes m2 B (unat bs) = entry_bytes E FW_CFG_INITRD_DATA 0 (unat bs)"
    "\<And>a. \<not> inside a B (unat bs) \<Longrightarrow> \<not> inside a (dma_desc env) 16 \<Longrightarrow> m2 a = m1 a"
    using load [OF ap(7), of FW_CFG_INITRD_DATA "s\<lparr>mem := m1, dev := d5\<rparr>"] by auto
  have kernel: "load_bytes m2 K (unat ks) = entry_bytes E FW_CFG_KERNEL_DATA 0 (unat ks)"
    using load_outside [OF l2(3) ap(2,5)] l1(2) by simp
  have table: "ldl_p m2 (B + 48) = M"
  proof -
    have "load_bytes m2 (B + of_nat 48) 4 = take 4 (drop 48 (entry_bytes E FW_CFG_INITRD_DATA 0 (unat bs)))"
      using load_bytes_sub [of 48 4 "unat bs" m2 B] B(3) l2(2) by simp
    also have "\<dots> = entry_bytes E FW_CFG_INITRD_DATA 48 4"
      using B(3) by (intro nth_equalityI) (simp_all add: entry_bytes_def)
    finally show ?thesis by (simp add: ldl_p_def M)
  qed
  have "map_kept s (mem s)" by (simp add: map_kept_def)
  then have "map_kept s m1"
    using map_kept_outside [of s "mem s" K "unat ks" "dma_desc env" 16 m1] l1(3) ap(3,8) unfolding n by blast
  then have "map_kept s m2"
    using map_kept_outside [of s m1 B "unat bs" "dma_desc env" 16 m2] l2(3) ap(6,8) unfolding n by blast
  have swap: "s\<lparr>dev := d6, mem := x\<rparr> = s\<lparr>mem := x, dev := d6\<rparr>" for x by (cases s) simp
  have "bs \<noteq> 0" using B(3) by auto
  then have "boot_multiboot_from_fw_cfg env s = andthen (for_below (\<lambda>s. unat (e820_nr_map s)) (mb_entry B))
      (bind (read_select env FW_CFG_KERNEL_ENTRY) (\<lambda>kernel_entry s. Handoff (Jump32 0x2badb002 B kernel_entry) s))
      (s\<lparr>mem := mb_block B (lowmem s) m2, dev := d6\<rparr>)"
    using K(3) by (simp add: boot_multiboot_from_fw_cfg_def prog_simps r1 r2 l1(1) r3 r4 l2(1) mb_block_def swap)
  then show thesis using kernel table \<open>map_kept s m2\<close> by (rule that)
qed

text \<open>
  C35: A multiboot kernel. With the kernel, the information block (the "initrd" of the device), the memory map
  the block points to, the E820 map and the DMA descriptor in separate places, boot_multiboot_from_fw_cfg hands
  over to the entry point of the kernel with the block in ebx: the kernel is in memory as the device has it,
  and the block gives 639 KiB of low memory, the memory above 1 MiB, and a memory map with the entries of the
  E820 map in their order.
\<close>

theorem multiboot_handover:
  fixes E :: "u16 \<Rightarrow> nat \<Rightarrow> u8"
  assumes "fw_cfg_device env sel off E"
    and n: "n = unat (e820_nr_map s)" "24 * n < 2 ^ 32"
    and K: "K = entry_word E FW_CFG_KERNEL_ADDR" "ks = entry_word E FW_CFG_KERNEL_SIZE" "ks \<noteq> 0"
    and B: "B = entry_word E FW_CFG_INITRD_ADDR" "bs = entry_word E FW_CFG_INITRD_SIZE" "52 \<le> unat bs"
    and M: "M = le_word (entry_bytes E FW_CFG_INITRD_DATA 48 4)"
    and away: "separate [(K, unat ks), (B, unat bs), (M, 24 * n), (e820 s, 4 + 20 * n), (dma_desc env, 16)]"
  shows "\<exists>t. boot_multiboot_from_fw_cfg env s = Handoff (Jump32 0x2badb002 B (entry_word E FW_CFG_KERNEL_ENTRY)) t \<and>
    load_bytes (mem t) K (unat ks) = entry_bytes E FW_CFG_KERNEL_DATA 0 (unat ks) \<and>
    ldl_p (mem t) (B + 4) = 639 \<and> ldl_p (mem t) (B + 8) = drop_bit 10 (lowmem s - 0x100000) \<and>
    ldl_p (mem t) (B + 48) = M \<and> ldl_p (mem t) (B + 44) = 24 * e820_nr_map s \<and>
    load_bytes (mem t) M (24 * n) = concat (map enc_mbmap (e820_map s))"
proof -
  have ap: "apart B (unat bs) M (24 * n)" "apart B (unat bs) (e820 s) (4 + 20 * n)" "apart M (24 * n) (e820 s) (4 + 20 * n)"
    "apart B (unat bs) K (unat ks)" "apart M (24 * n) K (unat ks)"
    using away by (simp_all add: apart_commute)
  have away': "separate [(K, unat ks), (B, unat bs), (e820 s, 4 + 20 * n), (dma_desc env, 16)]" using away by simp
  obtain m d where m: "boot_multiboot_from_fw_cfg env s = andthen (for_below (\<lambda>s. unat (e820_nr_map s)) (mb_entry B))
      (bind (read_select env FW_CFG_KERNEL_ENTRY) (\<lambda>kernel_entry s. Handoff (Jump32 0x2badb002 B kernel_entry) s))
      (s\<lparr>mem := mb_block B (lowmem s) m, dev := d\<rparr>)"
    "load_bytes m K (unat ks) = entry_bytes E FW_CFG_KERNEL_DATA 0 (unat ks)" "ldl_p m (B + 48) = M" "map_kept s m"
    by (rule mb_loaded [OF assms(1) n(1) K B M away'])
  define s6 where "s6 = s\<lparr>dev := d\<rparr>"
  have s6: "e820 s6 = e820 s" "e820_nr_map s6 = e820_nr_map s" "e820_map s6 = e820_map s" "map_kept s6 m"
    using m(4) by (simp_all add: s6_def e820_nr_map_def e820_map_def map_kept_def)
  have small: "4 + 20 * unat (e820_nr_map s6) < 2 ^ 32" "24 * unat (e820_nr_map s6) < 2 ^ 32"
    using n unfolding s6 by simp_all
  obtain m4 where m4: "for_below (\<lambda>s. unat (e820_nr_map s)) (mb_entry B) (s6\<lparr>mem := mb_block B (lowmem s) m\<rparr>) = Ret () (s6\<lparr>mem := m4\<rparr>)"
    "load_bytes m4 M (24 * n) = concat (map enc_mbmap (e820_map s))"
    "ldl_p m4 (B + 4) = 639" "ldl_p m4 (B + 8) = drop_bit 10 (lowmem s - 0x100000)" "ldl_p m4 (B + 48) = M"
    "ldl_p m4 (B + 44) = 24 * e820_nr_map s"
    "\<And>q l. apart B (unat bs) q l \<Longrightarrow> apart M (24 * n) q l \<Longrightarrow> load_bytes m4 q l = load_bytes m q l"
    using mb_block_filled [OF s6(4) small m(3) B(3), of "lowmem s"] ap(1-3) unfolding s6 n(1) by auto
  obtain d7 where r5: "read_select env FW_CFG_KERNEL_ENTRY (s\<lparr>mem := m4, dev := d\<rparr>) = Ret (entry_word E FW_CFG_KERNEL_ENTRY) (s\<lparr>mem := m4, dev := d7\<rparr>)"
    using fw_cfg_port.read_select_word [OF fw_cfg_port.intro [OF assms(1)], of FW_CFG_KERNEL_ENTRY "s\<lparr>mem := m4, dev := d\<rparr>"] by auto
  have swap: "s6\<lparr>mem := x\<rparr> = s\<lparr>mem := x, dev := d\<rparr>" for x by (cases s) (simp add: s6_def)
  have "boot_multiboot_from_fw_cfg env s = Handoff (Jump32 0x2badb002 B (entry_word E FW_CFG_KERNEL_ENTRY)) (s\<lparr>mem := m4, dev := d7\<rparr>)"
    using m4(1) by (simp add: m(1) andthen_apply bind_apply swap r5)
  then show ?thesis using m4(2-6) m4(7) [OF ap(4,5)] m(2) by simp
qed

text \<open>A kernel of 8 bytes at 1 MiB, the block at 0x40000, the map at 0x50000.\<close>

definition mb_contents :: "u16 \<Rightarrow> nat \<Rightarrow> u8" where
  "mb_contents e i =
     (let bs = (if e = FW_CFG_KERNEL_ADDR then le_bytes 4 (0x100000 :: u32)
        else if e = FW_CFG_KERNEL_SIZE then le_bytes 4 (8 :: u32)
        else if e = FW_CFG_INITRD_ADDR then le_bytes 4 (0x40000 :: u32)
        else if e = FW_CFG_INITRD_SIZE then le_bytes 4 (52 :: u32)
        else if e = FW_CFG_KERNEL_ENTRY then le_bytes 4 (0x100004 :: u32)
        else if e = FW_CFG_INITRD_DATA then replicate 48 0 @ le_bytes 4 (0x50000 :: u32)
        else []) in if i < length bs then bs ! i else 0x90)"

lemma mb_contents_words:
  "entry_word mb_contents FW_CFG_KERNEL_ADDR = 0x100000" "entry_word mb_contents FW_CFG_KERNEL_SIZE = 8"
  "entry_word mb_contents FW_CFG_INITRD_ADDR = 0x40000" "entry_word mb_contents FW_CFG_INITRD_SIZE = 52"
  "entry_word mb_contents FW_CFG_KERNEL_ENTRY = 0x100004"
  "(le_word (entry_bytes mb_contents FW_CFG_INITRD_DATA 48 4) :: u32) = 0x50000"
  by code_simp+

theorem multiboot_handover_witness:
  "\<exists>t. boot_multiboot_from_fw_cfg (ref_env mb_contents) demo_map = Handoff (Jump32 0x2badb002 0x40000 0x100004) t \<and>
     load_bytes (mem t) 0x50000 48 = enc_mbmap demo_ram @ enc_mbmap demo_ram"
proof -
  let ?E = "ref_env mb_contents"
  note demo = demo_map_entries and words = mb_contents_words
  have n: "2 = unat (e820_nr_map demo_map)" "24 * (2 :: nat) < 2 ^ 32" by (simp_all add: demo)
  have apart: "separate [(0x100000, unat (8 :: u32)), (0x40000, unat (52 :: u32)), (0x50000, 24 * 2), (e820 demo_map, 4 + 20 * 2), (dma_desc ?E, 16)]"
    by (simp add: demo apart_def)
  from multiboot_handover [OF ref_device n words(1) [symmetric] words(2) [symmetric] _ words(3) [symmetric] words(4) [symmetric] _ words(6) [symmetric] apart]
  show ?thesis by (auto simp: demo words)
qed

section \<open>The choice of a protocol\<close>

text \<open>What boot_from_fwcfg reads first.\<close>

definition offered_args :: "(u16 \<Rightarrow> nat \<Rightarrow> u8) \<Rightarrow> linuxboot_args" where
  "offered_args E = \<lparr>setup_addr = entry_word E FW_CFG_SETUP_ADDR, cmdline_addr = 0, kernel_addr = 0, initrd_addr = 0,
     setup_size = 0, kernel_size = 0, cmdline_size = entry_word E FW_CFG_CMDLINE_SIZE,
     vmlinuz_size = entry_word E FW_CFG_KERNEL_SIZE + entry_word E FW_CFG_SETUP_SIZE,
     initrd_size = entry_word E FW_CFG_INITRD_SIZE\<rparr>"

context fw_cfg_port
begin

lemma boot_reads:
  "\<exists>d. boot_from_fwcfg env s = (if vmlinuz_size (offered_args E) = 0 then ret ()
     else boot_kernel env (entry_word E FW_CFG_KERNEL_SIZE) (offered_args E)) (s\<lparr>dev := d\<rparr>)"
proof -
  note word = read_select_word
  let ?w = "entry_word E"
  obtain d1 where r1: "read_select env FW_CFG_CMDLINE_SIZE s = Ret (?w FW_CFG_CMDLINE_SIZE) (s\<lparr>dev := d1\<rparr>)" using word by blast
  obtain d2 where r2: "read_select env FW_CFG_INITRD_SIZE (s\<lparr>dev := d1\<rparr>) = Ret (?w FW_CFG_INITRD_SIZE) (s\<lparr>dev := d2\<rparr>)"
    using word [of FW_CFG_INITRD_SIZE "s\<lparr>dev := d1\<rparr>"] by auto
  obtain d3 where r3: "read_select env FW_CFG_KERNEL_SIZE (s\<lparr>dev := d2\<rparr>) = Ret (?w FW_CFG_KERNEL_SIZE) (s\<lparr>dev := d3\<rparr>)"
    using word [of FW_CFG_KERNEL_SIZE "s\<lparr>dev := d2\<rparr>"] by auto
  obtain d4 where r4: "read_select env FW_CFG_SETUP_SIZE (s\<lparr>dev := d3\<rparr>) = Ret (?w FW_CFG_SETUP_SIZE) (s\<lparr>dev := d4\<rparr>)"
    using word [of FW_CFG_SETUP_SIZE "s\<lparr>dev := d3\<rparr>"] by auto
  obtain d5 where r5: "read_select env FW_CFG_SETUP_ADDR (s\<lparr>dev := d4\<rparr>) = Ret (?w FW_CFG_SETUP_ADDR) (s\<lparr>dev := d5\<rparr>)"
    using word [of FW_CFG_SETUP_ADDR "s\<lparr>dev := d4\<rparr>"] by auto
  show ?thesis unfolding boot_from_fwcfg_def offered_args_def Let_def
      bind_run [of "read_select env FW_CFG_CMDLINE_SIZE", OF r1] bind_run [of "read_select env FW_CFG_INITRD_SIZE", OF r2]
      bind_run [of "read_select env FW_CFG_KERNEL_SIZE", OF r3] bind_run [of "read_select env FW_CFG_SETUP_SIZE", OF r4]
      bind_run [of "read_select env FW_CFG_SETUP_ADDR", OF r5]
    by (rule exI [of _ d5]) simp
qed

end

end
