(* ===== verification/Pvhspec.thy ===== *)
theory Pvhspec
  imports Bootspec
begin

text \<open>
  The PVH protocol from end to end: what a kernel finds in the start information, the module list, the command
  line and the memory map when boot_pvh_from_fw_cfg hands over to it.
\<close>

section \<open>Where memory changes\<close>

definition changes :: "mem \<Rightarrow> mem \<Rightarrow> (addr \<times> nat) list \<Rightarrow> bool" where
  "changes m m' rs \<longleftrightarrow> (\<forall>a. (\<forall>r \<in> set rs. \<not> inside a (fst r) (snd r)) \<longrightarrow> m' a = m a)"

lemma changes_trans: "changes m m' rs \<Longrightarrow> changes m' m'' qs \<Longrightarrow> changes m m'' (rs @ qs)"
  by (auto simp: changes_def)

lemma changes_within:
  assumes "i + length bs \<le> n" "n \<le> 2 ^ 32"
  shows "changes m (store_bytes m (p + of_nat i) bs) [(p, n)]"
  unfolding changes_def
proof (intro allI impI)
  fix a assume "\<forall>r \<in> set [(p, n)]. \<not> inside a (fst r) (snd r)"
  then have "\<not> inside a (p + of_nat i) (length bs)" using inside_sub [of a p i "length bs" n] assms by auto
  then show "store_bytes m (p + of_nat i) bs a = m a" using assms by (simp add: store_bytes_outside)
qed

lemma changes_again: "changes m m' rs \<Longrightarrow> changes m' m'' rs \<Longrightarrow> changes m m'' rs"
  by (simp add: changes_def)

lemma changes_at:
  assumes "changes m m' rs" "\<forall>r \<in> set rs. apart (fst r) (snd r) q l" "i < l"
  shows "m' (q + of_nat i) = m (q + of_nat i)"
  using assms apart_not_inside unfolding changes_def by blast

lemma changes_load:
  "changes m m' rs \<Longrightarrow> \<forall>r \<in> set rs. apart (fst r) (snd r) q l \<Longrightarrow> load_bytes m' q l = load_bytes m q l"
  by (intro load_bytes_cong) (rule changes_at)

lemma changes_map:
  assumes "changes (mem s) (mem t) rs" "e820 t = e820 s" "4 + 20 * unat (e820_nr_map s) < 2 ^ 32"
    and "\<forall>r \<in> set rs. apart (fst r) (snd r) (e820 s) (4 + 20 * unat (e820_nr_map s))"
  shows "e820_nr_map t = e820_nr_map s" "e820_map t = e820_map s"
proof -
  have "mem t a = mem s a" if "inside a (e820 s) (4 + 20 * unat (e820_nr_map s))" for a
  proof -
    obtain i where "i < 4 + 20 * unat (e820_nr_map s)" "a = e820 s + of_nat i" using \<open>inside a _ _\<close> by (rule insideE)
    then show ?thesis using changes_at [OF assms(1,4)] by simp
  qed
  then have "map_kept s (mem t)" by (simp add: map_kept_def)
  from map_kept_reads [OF this assms(3) refl] show "e820_nr_map t = e820_nr_map s" "e820_map t = e820_map s"
    using assms(2) by (simp_all add: e820_nr_map_def e820_map_def)
qed

lemma changes_start_info:
  "changes m m' rs \<Longrightarrow> \<forall>r \<in> set rs. apart (fst r) (snd r) p 56 \<Longrightarrow> start_info_at m' p = start_info_at m p"
  by (simp add: start_info_at_def changes_load)

lemma modlist_fields:
  "mod_paddr (dec_modlist_entry (load_bytes m p 32)) = ldq_p m p"
  "mod_size (dec_modlist_entry (load_bytes m p 32)) = ldq_p m (p + 8)"
  using load_bytes_sub [of 0 8 32 m p] load_bytes_sub [of 8 8 32 m p]
  by (simp_all add: dec_modlist_entry_def ldq_p_def)

lemma malloc_result:
  assumes "unat n \<le> unat (malloc_top s)"
  obtains p where "malloc n s = Ret p (s\<lparr>malloc_top := p\<rparr>)" "unat p + unat n \<le> unat (malloc_top s)"
    "unat (malloc_top s) < unat p + unat n + 16"
proof -
  have fits: "heap_fits n 16 s" using assms by (simp add: heap_fits_def)
  obtain p where run: "malloc_align n 16 s = Ret p (s\<lparr>malloc_top := p\<rparr>)" by (simp add: malloc_align_apply)
  from malloc_align_bounds(1,5) [OF fits run] show ?thesis
    by (intro that [of p]) (simp_all add: malloc_def run)
qed


text \<open>What follows the module list, up to the jump.\<close>

definition pvh_jump :: "'d env \<Rightarrow> ('d, unit) fw" where
  "pvh_jump env = bind (read_select env FW_CFG_KERNEL_SIZE) (\<lambda>sz. if sz = 0 then panic
     else bind (read_select env FW_CFG_KERNEL_ENTRY) (\<lambda>kernel_entry s. Handoff (Jump32 0x2badb002 (start_info env) kernel_entry) s))"

text \<open>The fixed fields of the start information.\<close>

definition pvh_fixed :: "addr \<Rightarrow> mem \<Rightarrow> mem" where
  "pvh_fixed S m = stl_p (S + 52) 0 (stl_p (S + 12) 0 (stl_p (S + 8) 0 (stl_p (S + 4) 1 (stl_p S XEN_HVM_START_MAGIC_VALUE m))))"

lemma pvh_fixed_info:
  "start_info_at (pvh_fixed S m) S = (start_info_at m S)\<lparr>si_magic := XEN_HVM_START_MAGIC_VALUE, si_version := 1, si_flags := 0,
     si_nr_modules := 0, si_reserved := 0\<rparr>"
  by (simp add: pvh_fixed_def start_info_store)

lemma pvh_fixed_changes: "changes m (pvh_fixed S m) [(S, 56)]"
proof -
  have stl: "changes m (stl_p (S + of_nat i) v m) [(S, 56)]" if "i + 4 \<le> 56" for i v m
    unfolding stl_p_def by (rule changes_within) (use that in simp_all)
  have step: "changes m (stl_p (S + of_nat i) v x) [(S, 56)]" if "changes m x [(S, 56)]" "i + 4 \<le> 56" for i v x
    by (rule changes_again [OF that(1) stl [OF that(2)]])
  show ?thesis unfolding pvh_fixed_def
    by (rule step [where i = 52, simplified] step [where i = 12, simplified] step [where i = 8, simplified]
        step [where i = 4, simplified] stl [where i = 0, simplified])+
qed

context fw_cfg_port
begin

lemma select_word:
  obtains t where "read_select env e s = Ret (entry_word E e) t" "mem t = mem s" "e820 t = e820 s" "malloc_top t = malloc_top s"
  using read_select_word [of e s] by fastforce

lemma read_entry_changes:
  assumes "apart buf (unat len) (dma_desc env) 16"
  obtains t where "fw_cfg_read_entry env e buf len s = Ret () t"
    "load_bytes (mem t) buf (unat len) = entry_bytes E (ucast e) 0 (unat len)"
    "changes (mem s) (mem t) [(buf, unat len), (dma_desc env, 16)]" "e820 t = e820 s" "malloc_top t = malloc_top s"
  using entry_loaded [OF assms, of e s] unfolding changes_def by fastforce

lemma pvh_ramdisk_result:
  assumes "apart I (unat bs) (dma_desc env) 16" and I: "I = entry_word E FW_CFG_INITRD_ADDR"
    and rd: "apart (ramdisk_mod env) 32 I (unat bs)" "apart (ramdisk_mod env) 32 (start_info env) 56"
    and si: "apart I (unat bs) (start_info env) 56" "apart (dma_desc env) 16 (start_info env) 56"
  obtains t where "pvh_ramdisk env bs s = Ret () t"
    "load_bytes (mem t) I (unat bs) = entry_bytes E FW_CFG_INITRD_DATA 0 (unat bs)"
    "ldq_p (mem t) (ramdisk_mod env) = ucast I" "ldq_p (mem t) (ramdisk_mod env + 8) = ucast bs"
    "start_info_at (mem t) (start_info env)
      = (start_info_at (mem s) (start_info env))\<lparr>si_nr_modules := 1, si_modlist_paddr := ucast (ramdisk_mod env)\<rparr>"
    "changes (mem s) (mem t) [(I, unat bs), (dma_desc env, 16), (ramdisk_mod env, 32), (start_info env, 56)]"
    "e820 t = e820 s" "malloc_top t = malloc_top s"
proof -
  let ?R = "ramdisk_mod env" and ?S = "start_info env"
  obtain t1 where r1: "read_select env FW_CFG_INITRD_ADDR s = Ret I t1" "mem t1 = mem s" "e820 t1 = e820 s" "malloc_top t1 = malloc_top s"
    unfolding I by (rule select_word)
  obtain t2 where r2: "fw_cfg_read_entry env FW_CFG_INITRD_DATA I bs t1 = Ret () t2"
    "load_bytes (mem t2) I (unat bs) = entry_bytes E (ucast (FW_CFG_INITRD_DATA :: u32)) 0 (unat bs)"
    "changes (mem t1) (mem t2) [(I, unat bs), (dma_desc env, 16)]" "e820 t2 = e820 t1" "malloc_top t2 = malloc_top t1"
    by (rule read_entry_changes [OF assms(1)])
  define m2 where "m2 = stq_p (?R + 8) (ucast bs) (stq_p ?R (ucast I) (mem t2))"
  define m3 where "m3 = stl_p (?S + 12) 1 (stq_p (?S + 16) (ucast ?R) m2)"
  have R: "apart (?R + of_nat i) 8 q l" if "apart ?R 32 q l" "i + 8 \<le> 32" for i q l
    by (rule apart_sub [OF that])
  have S: "apart (?S + of_nat i) k q l" if "apart ?S 56 q l" "i + k \<le> 56" for i k q l
    by (rule apart_sub [OF that])
  have stores: "load_bytes m3 q l = load_bytes (mem t2) q l" if "apart ?R 32 q l" "apart ?S 56 q l" for q l
    using R [OF that(1), of 0] R [OF that(1), of 8] S [OF that(2), of 16 8] S [OF that(2), of 12 4]
    by (simp add: m3_def m2_def stq_p_def stl_p_def load_store_apart)
  have "load_bytes m3 I (unat bs) = load_bytes (mem t2) I (unat bs)" by (rule stores [OF rd(1) si(1) [unfolded apart_commute [of I]]])
  then have initrd: "load_bytes m3 I (unat bs) = entry_bytes E FW_CFG_INITRD_DATA 0 (unat bs)" using r2(2) by simp
  have SR: "apart (?S + of_nat i) k (?R + of_nat j) 8" if "i + k \<le> 56" "j + 8 \<le> 32" for i k j
    using R [OF rd(2) that(2)] S [of "?R + of_nat j" 8 i k] that(1) by (simp add: apart_commute)
  have m2R: "ldq_p m2 ?R = ucast I" "ldq_p m2 (?R + 8) = ucast bs"
    by (simp_all add: m2_def ldq_stq_same) (simp add: stq_p_def ldq_p_def load_store_apart apart_def load_store_same le_word_le_bytes)
  have "ldq_p m3 (?R + of_nat j) = ldq_p m2 (?R + of_nat j)" if "j + 8 \<le> 32" for j
    using SR [of 16 8 j] SR [of 12 4 j] that by (simp add: m3_def ldq_p_def stq_p_def stl_p_def load_store_apart)
  from this [of 0] this [of 8] have module: "ldq_p m3 ?R = ucast I" "ldq_p m3 (?R + 8) = ucast bs" using m2R by simp_all
  have "start_info_at m2 ?S = start_info_at (mem t2) ?S"
    using R [OF rd(2), of 0] R [OF rd(2), of 8] by (simp add: m2_def stq_p_def struct_apart)
  also have "\<dots> = start_info_at (mem s) ?S"
    using changes_start_info [OF r2(3), of ?S] si by (simp add: r1(2))
  finally have info: "start_info_at m3 ?S = (start_info_at (mem s) ?S)\<lparr>si_nr_modules := 1, si_modlist_paddr := ucast ?R\<rparr>"
    by (simp add: m3_def start_info_store)
  have "changes (mem t2) m2 [(?R, 32)]"
    using changes_within [of 0 "le_bytes 8 (ucast I :: u64)" 32 "mem t2" ?R]
      changes_within [of 8 "le_bytes 8 (ucast bs :: u64)" 32 "stq_p ?R (ucast I) (mem t2)" ?R]
    by (auto simp: m2_def stq_p_def intro: changes_again)
  moreover have "changes m2 m3 [(?S, 56)]"
    using changes_within [of 16 "le_bytes 8 (ucast ?R :: u64)" 56 m2 ?S]
      changes_within [of 12 "le_bytes 4 (1 :: u32)" 56 "stq_p (?S + 16) (ucast ?R) m2" ?S]
    by (auto simp: m3_def stq_p_def stl_p_def intro: changes_again)
  ultimately have "changes (mem t2) m3 [(?R, 32), (?S, 56)]" using changes_trans by fastforce
  from changes_trans [OF r2(3) this] have "changes (mem s) m3 [(I, unat bs), (dma_desc env, 16), (?R, 32), (?S, 56)]"
    by (simp add: r1(2))
  moreover have "pvh_ramdisk env bs s = Ret () (t2\<lparr>mem := m3\<rparr>)"
    by (simp add: pvh_ramdisk_def prog_simps r1(1) r2(1) m3_def m2_def)
  ultimately show ?thesis using initrd module info r1 r2 by (intro that [of "t2\<lparr>mem := m3\<rparr>"]) simp_all
qed

lemma pvh_command_line:
  assumes L: "L = entry_word E FW_CFG_CMDLINE_SIZE" and "unat (dma_desc env) + 16 \<le> b"
    and room: "b + unat L + 16 \<le> unat (malloc_top s)" and S: "unat (malloc_top s) \<le> unat (start_info env)" "unat (start_info env) + 56 < 2 ^ 32"
  obtains t c where "boot_pvh_from_fw_cfg env s = bind (read_select env FW_CFG_INITRD_SIZE) (\<lambda>sz.
      andthen (when_do (sz \<noteq> 0) (pvh_ramdisk env sz)) (andthen (pvh_e820_setup env) (pvh_jump env))) t"
    "start_info_at (mem t) (start_info env) = (start_info_at (mem s) (start_info env))\<lparr>si_magic := XEN_HVM_START_MAGIC_VALUE,
      si_version := 1, si_flags := 0, si_nr_modules := 0, si_reserved := 0, si_cmdline_paddr := ucast c\<rparr>"
    "load_bytes (mem t) c (unat L) = entry_bytes E FW_CFG_CMDLINE_DATA 0 (unat L)"
    "changes (mem s) (mem t) [(start_info env, 56), (c, unat L), (dma_desc env, 16)]" "e820 t = e820 s"
    "malloc_top t = c" "unat c + unat L \<le> unat (malloc_top s)" "unat (malloc_top s) < unat c + unat L + 16"
proof -
  let ?S = "start_info env" and ?D = "dma_desc env"
  define s1 where "s1 = s\<lparr>mem := pvh_fixed ?S (mem s)\<rparr>"
  obtain t1 where r1: "read_select env FW_CFG_CMDLINE_SIZE s1 = Ret L t1" "mem t1 = mem s1" "e820 t1 = e820 s1" "malloc_top t1 = malloc_top s1"
    unfolding L by (rule select_word)
  have top: "malloc_top t1 = malloc_top s" using r1(4) by (simp add: s1_def)
  obtain c where c: "malloc L t1 = Ret c (t1\<lparr>malloc_top := c\<rparr>)" "unat c + unat L \<le> unat (malloc_top s)"
    "unat (malloc_top s) < unat c + unat L + 16"
    by (rule malloc_result [of L t1]) (use room top in simp_all)
  have apart: "apart c (unat L) ?D 16" "apart c (unat L) ?S 56" "apart ?D 16 ?S 56"
    using apart_interval [of ?D 16 c "unat L"] apart_interval [of c "unat L" ?S 56] apart_interval [of ?D 16 ?S 56] c(2,3) S room assms(2)
      unat_bound [of "malloc_top s"] by (simp_all add: apart_commute [of c _ ?D])
  obtain t2 where r2: "fw_cfg_read_entry env FW_CFG_CMDLINE_DATA c L (t1\<lparr>malloc_top := c\<rparr>) = Ret () t2"
    "load_bytes (mem t2) c (unat L) = entry_bytes E (ucast (FW_CFG_CMDLINE_DATA :: u32)) 0 (unat L)"
    "changes (mem s1) (mem t2) [(c, unat L), (?D, 16)]" "e820 t2 = e820 s" "malloc_top t2 = c"
    by (rule read_entry_changes [OF apart(1), of FW_CFG_CMDLINE_DATA "t1\<lparr>malloc_top := c\<rparr>"]) (use r1 in \<open>auto simp: s1_def\<close>)
  define m where "m = stq_p (?S + 24) (ucast c) (mem t2)"
  have within: "apart (?S + 24) 8 q l" if "apart ?S 56 q l" for q l using apart_sub [OF that, of 24 8] by simp
  have m: "changes (mem t2) m [(?S, 56)]"
    using changes_within [of 24 "le_bytes 8 (ucast c :: u64)" 56 "mem t2" ?S] by (simp add: m_def stq_p_def)
  have "start_info_at (mem t2) ?S = start_info_at (mem s1) ?S"
    by (rule changes_start_info [OF r2(3)]) (use apart in simp)
  then have info: "start_info_at m ?S = (start_info_at (mem s1) ?S)\<lparr>si_cmdline_paddr := ucast c\<rparr>" by (simp add: m_def start_info_store)
  have "changes (mem s) m [(?S, 56), (c, unat L), (?D, 16)]"
    using pvh_fixed_changes [of "mem s" ?S] r2(3) m by (simp add: s1_def changes_def)
  moreover have "load_bytes m c (unat L) = entry_bytes E FW_CFG_CMDLINE_DATA 0 (unat L)"
    using changes_load [OF m, of c "unat L"] apart(2) r2(2) by (simp add: apart_commute)
  moreover have "boot_pvh_from_fw_cfg env s = bind (read_select env FW_CFG_INITRD_SIZE) (\<lambda>sz.
      andthen (when_do (sz \<noteq> 0) (pvh_ramdisk env sz)) (andthen (pvh_e820_setup env) (pvh_jump env))) (t2\<lparr>mem := m\<rparr>)"
    unfolding boot_pvh_from_fw_cfg_def pvh_jump_def
    by (simp add: andthen_apply bind_apply on_mem_def r1(1) [unfolded s1_def pvh_fixed_def] c(1) r2(1) m_def)
  ultimately show ?thesis using info c r2 by (intro that [of "t2\<lparr>mem := m\<rparr>" c]) (simp_all add: s1_def pvh_fixed_info)
qed

lemma pvh_ramdisk_when:
  assumes I: "I = entry_word E FW_CFG_INITRD_ADDR" and rs: "rs = (if bs = 0 then [] else [(I, unat bs)])"
    and away: "\<forall>r \<in> set rs. apart (fst r) (snd r) (dma_desc env) 16 \<and> apart (ramdisk_mod env) 32 (fst r) (snd r) \<and>
      apart (fst r) (snd r) (start_info env) 56"
    and "apart (ramdisk_mod env) 32 (start_info env) 56" "apart (dma_desc env) 16 (start_info env) 56"
  obtains t where "when_do (bs \<noteq> 0) (pvh_ramdisk env bs) s = Ret () t"
    "bs \<noteq> 0 \<Longrightarrow> load_bytes (mem t) I (unat bs) = entry_bytes E FW_CFG_INITRD_DATA 0 (unat bs)"
    "bs \<noteq> 0 \<Longrightarrow> ldq_p (mem t) (ramdisk_mod env) = ucast I \<and> ldq_p (mem t) (ramdisk_mod env + 8) = ucast bs"
    "start_info_at (mem t) (start_info env) = (let i = start_info_at (mem s) (start_info env) in
      i\<lparr>si_nr_modules := if bs = 0 then si_nr_modules i else 1,
        si_modlist_paddr := if bs = 0 then si_modlist_paddr i else ucast (ramdisk_mod env)\<rparr>)"
    "changes (mem s) (mem t) (rs @ [(dma_desc env, 16), (ramdisk_mod env, 32), (start_info env, 56)])"
    "e820 t = e820 s" "malloc_top t = malloc_top s"
proof (cases "bs = 0")
  case True
  then show ?thesis by (intro that [of s]) (simp_all add: when_do_def ret_def changes_def Let_def)
next
  case False
  with away have "apart I (unat bs) (dma_desc env) 16" "apart (ramdisk_mod env) 32 I (unat bs)" "apart I (unat bs) (start_info env) 56"
    by (simp_all add: rs)
  note away' = this
  show ?thesis
  proof (rule pvh_ramdisk_result [OF away'(1) I away'(2) assms(4) away'(3) assms(5), of s])
    fix t assume t: "pvh_ramdisk env bs s = Ret () t"
      "load_bytes (mem t) I (unat bs) = entry_bytes E FW_CFG_INITRD_DATA 0 (unat bs)"
      "ldq_p (mem t) (ramdisk_mod env) = ucast I" "ldq_p (mem t) (ramdisk_mod env + 8) = ucast bs"
      "start_info_at (mem t) (start_info env) = (start_info_at (mem s) (start_info env))
        \<lparr>si_nr_modules := 1, si_modlist_paddr := ucast (ramdisk_mod env)\<rparr>"
      "changes (mem s) (mem t) [(I, unat bs), (dma_desc env, 16), (ramdisk_mod env, 32), (start_info env, 56)]"
      "e820 t = e820 s" "malloc_top t = malloc_top s"
    then show ?thesis using False by (intro that [of t]) (simp_all add: when_do_def rs Let_def)
  qed
qed

end

section \<open>A PVH kernel\<close>

text \<open>The command line and the initrd are loaded; the map is untouched.\<close>

lemma pvh_loaded:
  fixes E :: "u16 \<Rightarrow> nat \<Rightarrow> u8"
  assumes "fw_cfg_device env sel off E"
    and n: "n = unat (e820_nr_map s)" and L: "L = entry_word E FW_CFG_CMDLINE_SIZE"
    and I: "I = entry_word E FW_CFG_INITRD_ADDR" "bs = entry_word E FW_CFG_INITRD_SIZE"
    and stack: "unat (dma_desc env) + 16 \<le> b" "unat (ramdisk_mod env) + 32 \<le> b" "apart (dma_desc env) 16 (ramdisk_mod env) 32"
    and heap: "b + unat L + 16 \<le> unat (malloc_top s)"
    and rs: "rs = [(start_info env, 56), (e820 s, 4 + 20 * n)] @ (if bs = 0 then [] else [(I, unat bs)])"
    and above: "list_all (\<lambda>(q, l). unat (malloc_top s) \<le> unat q \<and> unat q + l < 2 ^ 32) rs" "separate rs"
  obtains t c where "boot_pvh_from_fw_cfg env s = andthen (pvh_e820_setup env) (pvh_jump env) t"
    "start_info_at (mem t) (start_info env) = (start_info_at (mem s) (start_info env))\<lparr>si_magic := XEN_HVM_START_MAGIC_VALUE,
      si_version := 1, si_flags := 0, si_reserved := 0, si_cmdline_paddr := ucast c, si_nr_modules := if bs = 0 then 0 else 1,
      si_modlist_paddr := if bs = 0 then si_modlist_paddr (start_info_at (mem s) (start_info env)) else ucast (ramdisk_mod env)\<rparr>"
    "load_bytes (mem t) c (unat L) = entry_bytes E FW_CFG_CMDLINE_DATA 0 (unat L)"
    "bs \<noteq> 0 \<longrightarrow> load_bytes (mem t) I (unat bs) = entry_bytes E FW_CFG_INITRD_DATA 0 (unat bs) \<and>
      ldq_p (mem t) (ramdisk_mod env) = ucast I \<and> ldq_p (mem t) (ramdisk_mod env + 8) = ucast bs"
    "e820 t = e820 s" "e820_nr_map t = e820_nr_map s" "e820_map t = e820_map s" "malloc_top t = c"
    "unat c + unat L \<le> unat (malloc_top s)" "unat (malloc_top s) < unat c + unat L + 16"
proof -
  note port = fw_cfg_port.intro [OF assms(1)]
  let ?S = "start_info env" and ?D = "dma_desc env" and ?R = "ramdisk_mod env" and ?M = "4 + 20 * n"
  have S: "unat (malloc_top s) \<le> unat ?S" "unat ?S + 56 < 2 ^ 32" and M: "unat (malloc_top s) \<le> unat (e820 s)" "unat (e820 s) + ?M < 2 ^ 32"
    and SM: "apart ?S 56 (e820 s) ?M" "apart (e820 s) ?M ?S 56"
    using above by (simp_all add: rs apart_commute)
  have I': "unat (malloc_top s) \<le> unat I" "unat I + unat bs < 2 ^ 32" "apart I (unat bs) ?S 56" "apart I (unat bs) (e820 s) ?M" if "bs \<noteq> 0"
    using above that by (simp_all add: rs apart_commute)
  have low: "apart q l r k" if "unat q + l \<le> unat r" "unat r + k \<le> 2 ^ 32" for q l r k
    by (rule apart_interval [OF that])
  obtain t1 c where run: "boot_pvh_from_fw_cfg env s = bind (read_select env FW_CFG_INITRD_SIZE) (\<lambda>sz.
      andthen (when_do (sz \<noteq> 0) (pvh_ramdisk env sz)) (andthen (pvh_e820_setup env) (pvh_jump env))) t1"
    and info1: "start_info_at (mem t1) ?S = (start_info_at (mem s) ?S)\<lparr>si_magic := XEN_HVM_START_MAGIC_VALUE,
      si_version := 1, si_flags := 0, si_nr_modules := 0, si_reserved := 0, si_cmdline_paddr := ucast c\<rparr>"
    and cmd1: "load_bytes (mem t1) c (unat L) = entry_bytes E FW_CFG_CMDLINE_DATA 0 (unat L)"
    and ch1: "changes (mem s) (mem t1) [(?S, 56), (c, unat L), (?D, 16)]" and st1: "e820 t1 = e820 s" "malloc_top t1 = c"
    and c: "unat c + unat L \<le> unat (malloc_top s)" "unat (malloc_top s) < unat c + unat L + 16"
    by (rule fw_cfg_port.pvh_command_line [OF port L stack(1) _ S]) (use heap in \<open>auto intro: that\<close>)
  obtain t2 where r2: "read_select env FW_CFG_INITRD_SIZE t1 = Ret bs t2" "mem t2 = mem t1" "e820 t2 = e820 s" "malloc_top t2 = c"
    unfolding I(2) using fw_cfg_port.select_word [OF port, of FW_CFG_INITRD_SIZE t1] st1 by metis
  define ir where "ir = (if bs = 0 then [] else [(I, unat bs)])"
  have b: "b \<le> unat c" "unat c \<le> unat (malloc_top s)" using c heap by simp_all
  have D: "apart ?D 16 q l" "apart ?R 32 q l" if "b \<le> unat q" "unat q + l \<le> 2 ^ 32" for q l
    using that stack by (auto intro!: apart_interval)
  have SB: "b \<le> unat ?S" "unat ?S + 56 \<le> 2 ^ 32" "b \<le> unat (e820 s)" "unat (e820 s) + ?M \<le> 2 ^ 32" using S M b by simp_all
  have cS: "apart c (unat L) ?S 56" "apart c (unat L) (e820 s) ?M" "apart ?S 56 c (unat L)"
    using low [of c "unat L" ?S 56] low [of c "unat L" "e820 s" ?M] c(1) S M by (simp_all add: apart_commute)
  obtain t3 where r3: "when_do (bs \<noteq> 0) (pvh_ramdisk env bs) t2 = Ret () t3"
    "bs \<noteq> 0 \<Longrightarrow> load_bytes (mem t3) I (unat bs) = entry_bytes E FW_CFG_INITRD_DATA 0 (unat bs)"
    "bs \<noteq> 0 \<Longrightarrow> ldq_p (mem t3) ?R = ucast I \<and> ldq_p (mem t3) (?R + 8) = ucast bs"
    "start_info_at (mem t3) ?S = (let i = start_info_at (mem t2) ?S in
      i\<lparr>si_nr_modules := if bs = 0 then si_nr_modules i else 1,
        si_modlist_paddr := if bs = 0 then si_modlist_paddr i else ucast ?R\<rparr>)"
    "changes (mem t2) (mem t3) (ir @ [(?D, 16), (?R, 32), (?S, 56)])" "e820 t3 = e820 t2" "malloc_top t3 = malloc_top t2"
  proof (rule fw_cfg_port.pvh_ramdisk_when [OF port I(1) ir_def _ D(2) [OF SB(1,2)] D(1) [OF SB(1,2)], of t2])
    show "\<forall>r \<in> set ir. apart (fst r) (snd r) ?D 16 \<and> apart ?R 32 (fst r) (snd r) \<and> apart (fst r) (snd r) ?S 56"
      using I' D [of I "unat bs"] b by (auto simp: ir_def apart_commute)
  qed (rule that; assumption)
  have ch: "changes (mem s) (mem t3) ([(?S, 56), (c, unat L), (?D, 16)] @ ir @ [(?D, 16), (?R, 32), (?S, 56)])"
    using changes_trans [OF ch1, of "mem t3"] r3(5) r2(2) by simp
  have eM: "e820 t3 = e820 s" "malloc_top t3 = c" using r3(6,7) r2(3,4) by simp_all
  have small: "4 + 20 * unat (e820_nr_map s) < 2 ^ 32" using M(2) n by simp
  have clear: "\<forall>r \<in> set ([(?S, 56), (c, unat L), (?D, 16)] @ ir @ [(?D, 16), (?R, 32), (?S, 56)]).
      apart (fst r) (snd r) (e820 s) (4 + 20 * unat (e820_nr_map s))"
    using SM(1) cS(2) D [OF SB(3,4)] I'(4) unfolding n [symmetric] by (auto simp: ir_def)
  note map3 = changes_map [OF ch eM(1) small clear]
  have cmd: "load_bytes (mem t3) c (unat L) = entry_bytes E FW_CFG_CMDLINE_DATA 0 (unat L)"
  proof -
    have "unat c + unat L \<le> 2 ^ 32" using c(1) unat_bound [of "malloc_top s"] by simp
    then have "\<forall>r \<in> set (ir @ [(?D, 16), (?R, 32), (?S, 56)]). apart (fst r) (snd r) c (unat L)"
      using b(1) D [of c "unat L"] cS(3) low [of c "unat L" I "unat bs"] c(1) I'(1,2)
      by (auto simp: ir_def apart_commute)
    then show ?thesis using changes_load [OF r3(5)] cmd1 r2(2) by simp
  qed
  have "boot_pvh_from_fw_cfg env s = andthen (pvh_e820_setup env) (pvh_jump env) t3"
    by (simp add: run bind_apply andthen_apply r2(1) r3(1))
  moreover have "start_info_at (mem t3) ?S = (start_info_at (mem s) ?S)\<lparr>si_magic := XEN_HVM_START_MAGIC_VALUE,
      si_version := 1, si_flags := 0, si_reserved := 0, si_cmdline_paddr := ucast c, si_nr_modules := if bs = 0 then 0 else 1,
      si_modlist_paddr := if bs = 0 then si_modlist_paddr (start_info_at (mem s) ?S) else ucast ?R\<rparr>"
    unfolding r3(4) r2(2) info1 Let_def by (cases "start_info_at (mem s) ?S") simp
  ultimately show ?thesis using cmd r3(2,3) eM map3 c by (intro that [of t3 c]) simp_all
qed

text \<open>The memory map is copied to a table on the heap, which ends at \<open>unat (malloc_top s)\<close>; what is above it stays.\<close>

lemma pvh_table:
  assumes n: "n = unat (e820_nr_map s)" and b: "b + 24 * n + 16 \<le> unat (malloc_top s)"
    and S: "unat (malloc_top s) \<le> unat (start_info env)" "unat (start_info env) + 56 \<le> 2 ^ 32"
    and M: "unat (malloc_top s) \<le> unat (e820 s)" "unat (e820 s) + (4 + 20 * n) < 2 ^ 32"
    and SM: "apart (start_info env) 56 (e820 s) (4 + 20 * n)"
  obtains p m where "pvh_e820_setup env s = Ret () (s\<lparr>malloc_top := p, mem := m\<rparr>)" "b \<le> unat p" "unat p + 24 * n \<le> unat (malloc_top s)"
    "load_array 24 dec_memmap_entry m p n = map memmap_of (e820_map s)"
    "start_info_at m (start_info env) = (start_info_at (mem s) (start_info env))
      \<lparr>si_memmap_paddr := ucast p, si_memmap_entries := e820_nr_map s\<rparr>"
    "changes (mem s) m [(p, 24 * n), (start_info env, 56)]"
proof -
  have sz: "24 * n < 2 ^ 32" using b unat_bound [of "malloc_top s"] by simp
  then have "unat (24 * e820_nr_map s) = 24 * n" unfolding n by (simp add: unat_mult_lem [THEN iffD1])
  then have fits: "heap_fits (24 * e820_nr_map s) 16 s" using b by (simp add: heap_fits_def)
  obtain p m where r: "pvh_e820_setup env s = Ret () (s\<lparr>malloc_top := p, mem := m\<rparr>)" "unat p + 24 * n \<le> unat (malloc_top s)"
      "unat (malloc_top s) < unat p + 24 * n + 16" "load_bytes m p (24 * n) = concat (map enc_memmap (e820_map s))"
      "start_info_at m (start_info env) = (start_info_at (mem s) (start_info env))
        \<lparr>si_memmap_paddr := ucast p, si_memmap_entries := e820_nr_map s\<rparr>"
      "changes (mem s) m [(p, 24 * n), (start_info env, 56)]"
    using pvh_e820_setup_result [OF n sz fits, of env] S M SM by (fastforce simp: changes_def)
  have "load_array 24 dec_memmap_entry m p n = map memmap_of (e820_map s)"
    using hvm_memmap_table_entry_struct.load_array_bytes [of "map memmap_of (e820_map s)" m p] r(4)
    by (simp add: n e820_map_def o_def enc_memmap_def [abs_def])
  with r b show ?thesis by (intro that [of m p]) simp_all
qed

text \<open>
  C34: A PVH kernel. With the stack below the heap, room on the heap for the command line and the memory map, and
  the start information, the E820 map and the initrd above the heap and apart, boot_pvh_from_fw_cfg hands
  over to the entry point of the kernel with the start information in ebx. It has the magic number and version
  1, names the command line, which is in memory as the device has it, and the memory map, which has the entries
  of the E820 map in their order; its rsdp_paddr is what was there. The initrd, if there is one, is in memory as
  the device has it, as the only module.
\<close>

theorem pvh_handover:
  fixes E :: "u16 \<Rightarrow> nat \<Rightarrow> u8"
  assumes "fw_cfg_device env sel off E"
    and n: "n = unat (e820_nr_map s)" and L: "L = entry_word E FW_CFG_CMDLINE_SIZE"
    and I: "I = entry_word E FW_CFG_INITRD_ADDR" "bs = entry_word E FW_CFG_INITRD_SIZE"
    and kernel: "entry_word E FW_CFG_KERNEL_SIZE \<noteq> 0"
    and stack: "unat (dma_desc env) + 16 \<le> b" "unat (ramdisk_mod env) + 32 \<le> b" "apart (dma_desc env) 16 (ramdisk_mod env) 32"
    and heap: "b + unat L + 24 * n + 32 \<le> unat (malloc_top s)"
    and rs: "rs = [(start_info env, 56), (e820 s, 4 + 20 * n)] @ (if bs = 0 then [] else [(I, unat bs)])"
    and above: "list_all (\<lambda>(q, l). unat (malloc_top s) \<le> unat q \<and> unat q + l < 2 ^ 32) rs" "separate rs"
  shows "\<exists>t c p. boot_pvh_from_fw_cfg env s
      = Handoff (Jump32 0x2badb002 (start_info env) (entry_word E FW_CFG_KERNEL_ENTRY)) t \<and>
    start_info_at (mem t) (start_info env) = \<lparr>si_magic = 0x336ec578, si_version = 1, si_flags = 0,
      si_nr_modules = if bs = 0 then 0 else 1,
      si_modlist_paddr = if bs = 0 then si_modlist_paddr (start_info_at (mem s) (start_info env)) else ucast (ramdisk_mod env),
      si_cmdline_paddr = ucast c, si_rsdp_paddr = si_rsdp_paddr (start_info_at (mem s) (start_info env)),
      si_memmap_paddr = ucast p, si_memmap_entries = e820_nr_map s, si_reserved = 0\<rparr> \<and>
    load_bytes (mem t) c (unat L) = entry_bytes E FW_CFG_CMDLINE_DATA 0 (unat L) \<and>
    load_array 24 dec_memmap_entry (mem t) p n = map memmap_of (e820_map s) \<and>
    (bs \<noteq> 0 \<longrightarrow> load_bytes (mem t) I (unat bs) = entry_bytes E FW_CFG_INITRD_DATA 0 (unat bs) \<and>
      mod_paddr (dec_modlist_entry (load_bytes (mem t) (ramdisk_mod env) 32)) = ucast I \<and>
      mod_size (dec_modlist_entry (load_bytes (mem t) (ramdisk_mod env) 32)) = ucast bs)"
proof -
  note port = fw_cfg_port.intro [OF assms(1)]
  let ?S = "start_info env" and ?R = "ramdisk_mod env"
  have S: "unat (malloc_top s) \<le> unat ?S" "unat ?S + 56 < 2 ^ 32" "unat (malloc_top s) \<le> unat (e820 s)" "unat (e820 s) + (4 + 20 * n) < 2 ^ 32"
      "apart ?S 56 (e820 s) (4 + 20 * n)"
    using above by (simp_all add: rs)
  have heap': "b + unat L + 16 \<le> unat (malloc_top s)" using heap by simp
  obtain t c where t: "boot_pvh_from_fw_cfg env s = andthen (pvh_e820_setup env) (pvh_jump env) t"
    "start_info_at (mem t) ?S = (start_info_at (mem s) ?S)\<lparr>si_magic := XEN_HVM_START_MAGIC_VALUE,
      si_version := 1, si_flags := 0, si_reserved := 0, si_cmdline_paddr := ucast c, si_nr_modules := if bs = 0 then 0 else 1,
      si_modlist_paddr := if bs = 0 then si_modlist_paddr (start_info_at (mem s) ?S) else ucast ?R\<rparr>"
    "load_bytes (mem t) c (unat L) = entry_bytes E FW_CFG_CMDLINE_DATA 0 (unat L)"
    "bs \<noteq> 0 \<longrightarrow> load_bytes (mem t) I (unat bs) = entry_bytes E FW_CFG_INITRD_DATA 0 (unat bs) \<and>
      ldq_p (mem t) ?R = ucast I \<and> ldq_p (mem t) (?R + 8) = ucast bs"
    "e820 t = e820 s" "e820_nr_map t = e820_nr_map s" "e820_map t = e820_map s" "malloc_top t = c"
    "unat c + unat L \<le> unat (malloc_top s)" "unat (malloc_top s) < unat c + unat L + 16"
    by (rule pvh_loaded [OF assms(1) n L I stack heap' rs above])
  have room: "n = unat (e820_nr_map t)" "b + 24 * n + 16 \<le> unat (malloc_top t)" "unat (malloc_top t) \<le> unat ?S" "unat ?S + 56 \<le> 2 ^ 32"
      "unat (malloc_top t) \<le> unat (e820 t)" "unat (e820 t) + (4 + 20 * n) < 2 ^ 32" "apart ?S 56 (e820 t) (4 + 20 * n)"
    using n heap S t(5,6,8-10) by simp_all
  obtain p m where r: "pvh_e820_setup env t = Ret () (t\<lparr>malloc_top := p, mem := m\<rparr>)" "b \<le> unat p" "unat p + 24 * n \<le> unat (malloc_top t)"
    "load_array 24 dec_memmap_entry m p n = map memmap_of (e820_map t)"
    "start_info_at m ?S = (start_info_at (mem t) ?S)\<lparr>si_memmap_paddr := ucast p, si_memmap_entries := e820_nr_map t\<rparr>"
    "changes (mem t) m [(p, 24 * n), (?S, 56)]"
    by (rule pvh_table [OF room])
  have keep: "load_bytes m q l = load_bytes (mem t) q l" if "apart p (24 * n) q l" "apart ?S 56 q l" for q l
    using changes_load [OF r(6)] that by simp
  have "apart p (24 * n) q l" if "unat c \<le> unat q" "unat q + l \<le> 2 ^ 32" for q l
    using that r(3) t(8) by (intro apart_interval) simp_all
  moreover have "apart ?S 56 c (unat L)" using apart_interval [of c "unat L" ?S 56] t(9) S(1,2) by (simp add: apart_commute)
  ultimately have cmd: "load_bytes m c (unat L) = load_bytes (mem t) c (unat L)"
    "bs \<noteq> 0 \<Longrightarrow> load_bytes m I (unat bs) = load_bytes (mem t) I (unat bs)"
    using above t(9) unat_bound [of "malloc_top s"] by (auto intro!: keep simp: rs)
  have "apart ?R 32 p (24 * n)" "apart ?R 32 ?S 56"
    using stack(2) r(2,3) room(2-4) unat_bound [of "malloc_top t"] by (auto intro!: apart_interval)
  then have module: "load_bytes m ?R 32 = load_bytes (mem t) ?R 32" by (intro keep) (simp_all add: apart_commute)
  let ?t = "t\<lparr>malloc_top := p, mem := m\<rparr>"
  obtain t4 where r4: "read_select env FW_CFG_KERNEL_SIZE ?t = Ret (entry_word E FW_CFG_KERNEL_SIZE) t4" "mem t4 = m"
    by (rule fw_cfg_port.select_word [OF port, of FW_CFG_KERNEL_SIZE ?t]) (rule that; simp)
  obtain t5 where r5: "read_select env FW_CFG_KERNEL_ENTRY t4 = Ret (entry_word E FW_CFG_KERNEL_ENTRY) t5" "mem t5 = m"
    by (rule fw_cfg_port.select_word [OF port, of FW_CFG_KERNEL_ENTRY t4]) (rule that; simp add: r4(2))
  have "boot_pvh_from_fw_cfg env s = Handoff (Jump32 0x2badb002 ?S (entry_word E FW_CFG_KERNEL_ENTRY)) t5"
    using kernel by (simp add: t(1) pvh_jump_def bind_apply andthen_apply r(1) r4(1) r5(1))
  then show ?thesis
    using t(3,4,6,7) r(4) r5(2) cmd modlist_fields [of m ?R] modlist_fields [of "mem t" ?R] module
    by (intro exI [of _ t5] exI [of _ c] exI [of _ p]) (simp add: r(5) t(2))
qed


text \<open>A kernel of 8 bytes that QEMU has loaded, with a command line and an initrd of 16 bytes at 16 MiB.\<close>

definition pvh_contents :: "u16 \<Rightarrow> nat \<Rightarrow> u8" where
  "pvh_contents e i =
     (let bs = (if e = FW_CFG_CMDLINE_SIZE then le_bytes 4 (6 :: u32)
        else if e = FW_CFG_CMDLINE_DATA then chars ''quiet'' @ [0]
        else if e = FW_CFG_INITRD_ADDR then le_bytes 4 (0x1000000 :: u32)
        else if e = FW_CFG_INITRD_SIZE then le_bytes 4 (16 :: u32)
        else if e = FW_CFG_KERNEL_SIZE then le_bytes 4 (8 :: u32)
        else if e = FW_CFG_KERNEL_ENTRY then le_bytes 4 (0x100000 :: u32)
        else []) in if i < length bs then bs ! i else 0x42)"

lemma pvh_contents_words:
  "entry_word pvh_contents FW_CFG_CMDLINE_SIZE = 6" "entry_word pvh_contents FW_CFG_INITRD_ADDR = 0x1000000"
  "entry_word pvh_contents FW_CFG_INITRD_SIZE = 16" "entry_word pvh_contents FW_CFG_KERNEL_SIZE = 8"
  "entry_word pvh_contents FW_CFG_KERNEL_ENTRY = 0x100000"
  "entry_bytes pvh_contents FW_CFG_CMDLINE_DATA 0 6 = chars ''quiet'' @ [0]"
  by code_simp+

theorem pvh_handover_witness:
  "\<exists>t c. boot_pvh_from_fw_cfg (ref_env pvh_contents) (demo_map\<lparr>malloc_top := 0x90000\<rparr>) = Handoff (Jump32 0x2badb002 0xf7000 0x100000) t \<and>
     si_cmdline_paddr (start_info_at (mem t) 0xf7000) = ucast c \<and> load_bytes (mem t) c 6 = chars ''quiet'' @ [0] \<and>
     si_nr_modules (start_info_at (mem t) 0xf7000) = 1 \<and> mod_paddr (dec_modlist_entry (load_bytes (mem t) 0x7020 32)) = 0x1000000"
proof -
  let ?s = "demo_map\<lparr>malloc_top := 0x90000\<rparr>" and ?E = "ref_env pvh_contents"
  have s: "e820 ?s = 0x90000" "e820_nr_map ?s = 2" using demo_map_entries by (simp_all add: e820_nr_map_def)
  have n: "2 = unat (e820_nr_map ?s)" unfolding s by simp
  have k: "entry_word pvh_contents FW_CFG_KERNEL_SIZE \<noteq> 0" unfolding pvh_contents_words by simp
  have stack: "unat (dma_desc ?E) + 16 \<le> 0x8000" "unat (ramdisk_mod ?E) + 32 \<le> 0x8000" "apart (dma_desc ?E) 16 (ramdisk_mod ?E) 32"
    by (simp_all add: apart_def)
  have heap: "0x8000 + unat (6 :: u32) + 24 * 2 + 32 \<le> unat (malloc_top ?s)" by simp
  let ?rs = "[(start_info ?E, 56), (e820 ?s, 4 + 20 * 2)] @ (if (16 :: u32) = 0 then [] else [(0x1000000, unat (16 :: u32))])"
  have above: "list_all (\<lambda>(q, l). unat (malloc_top ?s) \<le> unat q \<and> unat q + l < 2 ^ 32) ?rs" "separate ?rs"
    unfolding s by (simp_all add: apart_def)
  from pvh_handover [OF ref_device n pvh_contents_words(1) [symmetric] pvh_contents_words(2) [symmetric] pvh_contents_words(3) [symmetric] k
      stack heap refl above]
  show ?thesis using pvh_contents_words(5,6) by auto
qed

end
