(* ===== verification/Bzspec.thy ===== *)
theory Bzspec
  imports Pvhspec
begin

text \<open>
  The bzImage protocol from end to end: what a kernel finds in memory and in its setup header when
  boot_from_fwcfg hands over to it.
\<close>

section \<open>The setup header\<close>

text \<open>What parse_bzimage decides depends on the header only.\<close>

lemma header_cong:
  assumes same: "\<And>i. i < 0x230 \<Longrightarrow> m (h + of_nat i) = m' (h + of_nat i)"
  shows "bzimage m h = bzimage m' h" "setup_addr args = h \<Longrightarrow> placed low args m = placed low args m'"
    "real_mode_base h m = real_mode_base h m'" "lduw_p m (h + 0x206) = lduw_p m' (h + 0x206)"
proof -
  have byte: "m (h + 0x211) = m' (h + 0x211)" "m (h + 0x1f1) = m' (h + 0x1f1)"
    using same [of "0x211"] same [of "0x1f1"] by simp_all
  have at: "load_bytes m (h + of_nat i) n = load_bytes m' (h + of_nat i) n" if "i + n \<le> 0x230" for i n
    by (rule load_bytes_cong) (use same that in \<open>simp add: add.assoc flip: of_nat_add\<close>)
  have word: "ldl_p m (h + 0x202) = ldl_p m' (h + 0x202)" "lduw_p m (h + 0x206) = lduw_p m' (h + 0x206)"
    "ldl_p m (h + 0x22c) = ldl_p m' (h + 0x22c)"
    using at [of "0x202" 4] at [of "0x206" 2] at [of "0x22c" 4] by (simp_all add: ldl_p_def lduw_p_def)
  show "bzimage m h = bzimage m' h" "lduw_p m (h + 0x206) = lduw_p m' (h + 0x206)" using word by (simp_all add: bzimage_def)
  have high: "loads_high h m = loads_high h m'" by (simp add: loads_high_def word byte)
  then show "real_mode_base h m = real_mode_base h m'" by (simp add: real_mode_base_def word)
  show "placed low args m = placed low args m'" if "setup_addr args = h"
    using that high by (simp add: placed_def Let_def initrd_limit_def setup_sectors_def word byte)
qed

lemma answer_cong:
  assumes "m a = m' a" "m (h + 0x211) = m' (h + 0x211)"
  shows "answer v200 v201 v202 cmdline base initrd n h m a = answer v200 v201 v202 cmdline base initrd n h m' a"
  using assms by (cases v200; cases v201; cases v202; simp add: answer_def Let_def stl_p_def stw_p_def store_bytes_at)

text \<open>The setup block as the device has it, at the place the device names.\<close>

definition setup_image :: "(u16 \<Rightarrow> nat \<Rightarrow> u8) \<Rightarrow> mem" where
  "setup_image E a = E FW_CFG_SETUP_DATA (unat (a - entry_word E FW_CFG_SETUP_ADDR))"

lemma setup_image_at: "i < 2 ^ 32 \<Longrightarrow> setup_image E (entry_word E FW_CFG_SETUP_ADDR + of_nat i) = E FW_CFG_SETUP_DATA i"
  by (simp add: setup_image_def unat_of_nat)

text \<open>Only memory and the devices differ.\<close>

definition only_mem :: "'d machine \<Rightarrow> 'd machine \<Rightarrow> bool" where
  "only_mem s t \<longleftrightarrow> t = s\<lparr>mem := mem t, dev := dev t\<rparr>"

lemma only_mem_step: "only_mem s (s\<lparr>mem := m, dev := d\<rparr>)" "only_mem s (s\<lparr>dev := d\<rparr>)" "only_mem s (s\<lparr>dev := d, mem := m\<rparr>)" "only_mem s s"
  by (simp_all add: only_mem_def)

lemma only_mem_trans: "only_mem r s \<Longrightarrow> only_mem s t \<Longrightarrow> only_mem r t"
  by (cases r; cases s; cases t) (simp add: only_mem_def)

lemma changes_mono: "changes m m' rs \<Longrightarrow> (\<And>a r. r \<in> set rs \<Longrightarrow> inside a (fst r) (snd r) \<Longrightarrow> \<exists>q \<in> set qs. inside a (fst q) (snd q)) \<Longrightarrow> changes m m' qs"
  unfolding changes_def by blast

context fw_cfg_port
begin

text \<open>A read that goes on where the last one ended.\<close>

lemma read_changes:
  assumes "apart buf (unat len) (dma_desc env) 16"
  obtains m d where "fw_cfg_read env buf len s = Ret () (s\<lparr>mem := m, dev := d\<rparr>)"
    "load_bytes m buf (unat len) = entry_bytes E (sel (dev s)) (off (dev s)) (unat len)"
    "changes (mem s) m [(buf, unat len), (dma_desc env, 16)]"
    "sel d = sel (dev s)" "off d = off (dev s) + unat len"
proof -
  let ?bs = "entry_bytes E (sel (dev s)) (off (dev s)) (unat len)"
  obtain t where t: "fw_cfg_read env buf len s = Ret () t" "delivered env buf ?bs s t"
    "sel (dev t) = sel (dev s)" "off (dev t) = off (dev s) + unat len"
    using fw_cfg_read_delivers [OF assms] by blast
  have len: "unat len \<le> 2 ^ 32" using unat_bound [of len] by simp
  have out: "mem t a = store_bytes (mem s) buf ?bs a" if "\<not> inside a (dma_desc env) 16" for a
    using t(2) that by (simp add: delivered_def)
  have "load_bytes (mem t) buf (unat len) = load_bytes (store_bytes (mem s) buf ?bs) buf (unat len)"
    using assms by (intro load_bytes_cong out) (simp add: apart_not_inside apart_commute)
  then have "load_bytes (mem t) buf (unat len) = ?bs" using len by (simp add: load_store_same)
  moreover have "changes (mem s) (mem t) [(buf, unat len), (dma_desc env, 16)]"
    unfolding changes_def using out len by (simp add: store_bytes_outside [where n = "unat len"])
  moreover have "t = s\<lparr>mem := mem t, dev := dev t\<rparr>" using t(2) by (simp add: delivered_def)
  ultimately show ?thesis using that [of "dev t" "mem t"] t(1,3,4) by simp
qed

lemma read_entry_only:
  assumes "apart buf (unat len) (dma_desc env) 16"
  obtains t where "fw_cfg_read_entry env e buf len s = Ret () t"
    "load_bytes (mem t) buf (unat len) = entry_bytes E (ucast e) 0 (unat len)"
    "changes (mem s) (mem t) [(buf, unat len), (dma_desc env, 16)]" "only_mem s t"
  using entry_loaded [OF assms, of e s] unfolding changes_def by (fastforce simp: only_mem_def)

text \<open>The rest of the setup block, the kernel, the command line and the initrd are read behind each other.\<close>

lemma load_bzimage_result:
  assumes at: "sel (dev s) = FW_CFG_SETUP_DATA" "off (dev s) = 8192" and n: "n = max 8192 (unat (setup_size args))"
    and away: "separate [(setup_addr args, n), (kernel_addr args, unat ks), (cmdline_addr args, unat (cmdline_size args)),
      (initrd_addr args, unat (initrd_size args)), (dma_desc env, 16)]"
  obtains t where "load_bzimage env ks args s = boot_bzimage args t"
    "load_bytes (mem t) (setup_addr args) 8192 = load_bytes (mem s) (setup_addr args) 8192"
    "load_bytes (mem t) (setup_addr args + 8192) (n - 8192) = entry_bytes E FW_CFG_SETUP_DATA 8192 (n - 8192)"
    "load_bytes (mem t) (kernel_addr args) (unat ks) = entry_bytes E FW_CFG_KERNEL_DATA 0 (unat ks)"
    "load_bytes (mem t) (cmdline_addr args) (unat (cmdline_size args)) = entry_bytes E FW_CFG_CMDLINE_DATA 0 (unat (cmdline_size args))"
    "load_bytes (mem t) (initrd_addr args) (unat (initrd_size args)) = entry_bytes E FW_CFG_INITRD_DATA 0 (unat (initrd_size args))"
    "only_mem s t" "changes (mem s) (mem t) [(setup_addr args, n), (kernel_addr args, unat ks), (cmdline_addr args, unat (cmdline_size args)),
      (initrd_addr args, unat (initrd_size args)), (dma_desc env, 16)]"
proof -
  let ?h = "setup_addr args" and ?K = "kernel_addr args" and ?C = "cmdline_addr args" and ?I = "initrd_addr args" and ?D = "dma_desc env"
  let ?cl = "unat (cmdline_size args)" and ?is = "unat (initrd_size args)" and ?more = "setup_size args - 8192"
  have ap: "apart ?K (unat ks) ?D 16" "apart ?C ?cl ?D 16" "apart ?I ?is ?D 16" "apart ?K (unat ks) ?h n" "apart ?C ?cl ?h n" "apart ?I ?is ?h n"
    "apart ?D 16 ?h n" "apart ?C ?cl ?K (unat ks)" "apart ?I ?is ?K (unat ks)" "apart ?I ?is ?C ?cl" "apart ?D 16 ?K (unat ks)" "apart ?D 16 ?C ?cl"
    using away by (simp_all add: apart_commute)
  have part: "apart q l (?h + of_nat i) k" if "apart q l ?h n" "i + k \<le> n" for q l i k
    using apart_sub [OF that(1) [unfolded apart_commute [of q]] that(2)] by (simp add: apart_commute)
  obtain s1 where s1: "when_do (setup_size args > HEADER_PEEK_SIZE)
       (fw_cfg_read env (?h + HEADER_PEEK_SIZE) (setup_size args - HEADER_PEEK_SIZE)) s = Ret () s1"
    "load_bytes (mem s1) (?h + 8192) (n - 8192) = entry_bytes E FW_CFG_SETUP_DATA 8192 (n - 8192)"
    "changes (mem s) (mem s1) [(?h + 8192, n - 8192), (?D, 16)]" "only_mem s s1"
  proof (cases "setup_size args > HEADER_PEEK_SIZE")
    case True
    then have len: "unat ?more = n - 8192" using n by (simp add: word_less_nat_alt unat_sub_if')
    have "apart (?h + 8192) (unat ?more) ?D 16"
      using part [OF ap(7), of 8192 "n - 8192"] n unfolding len by (simp add: apart_commute)
    then obtain m d where "fw_cfg_read env (?h + 8192) ?more s = Ret () (s\<lparr>mem := m, dev := d\<rparr>)"
      "load_bytes m (?h + 8192) (n - 8192) = entry_bytes E FW_CFG_SETUP_DATA 8192 (n - 8192)"
      "changes (mem s) m [(?h + 8192, n - 8192), (?D, 16)]"
      by (rule read_changes [where s = s]) (simp add: at len)
    then show ?thesis using True that [of "s\<lparr>mem := m, dev := d\<rparr>"] by (simp add: when_do_def only_mem_step)
  next
    case False
    then have "n = 8192" using n by (simp add: word_less_nat_alt)
    then show ?thesis using False that [of s] by (simp add: when_do_def changes_def entry_bytes_def only_mem_step)
  qed
  obtain s2 where s2: "fw_cfg_select env FW_CFG_KERNEL_DATA s1 = Ret () s2" "mem s2 = mem s1" "only_mem s1 s2"
    by (simp add: only_mem_step)
  obtain s3 where s3: "fw_cfg_read_entry env FW_CFG_KERNEL_DATA ?K ks s2 = Ret () s3"
    "load_bytes (mem s3) ?K (unat ks) = entry_bytes E FW_CFG_KERNEL_DATA 0 (unat ks)" "changes (mem s2) (mem s3) [(?K, unat ks), (?D, 16)]" "only_mem s2 s3"
    using read_entry_only [OF ap(1), of FW_CFG_KERNEL_DATA s2] by auto
  obtain s4 where s4: "fw_cfg_read_entry env FW_CFG_CMDLINE_DATA ?C (cmdline_size args) s3 = Ret () s4"
    "load_bytes (mem s4) ?C ?cl = entry_bytes E FW_CFG_CMDLINE_DATA 0 ?cl" "changes (mem s3) (mem s4) [(?C, ?cl), (?D, 16)]" "only_mem s3 s4"
    using read_entry_only [OF ap(2), of FW_CFG_CMDLINE_DATA s3] by auto
  obtain s5 where s5: "when_do (initrd_size args \<noteq> 0) (fw_cfg_read_entry env FW_CFG_INITRD_DATA ?I (initrd_size args)) s4 = Ret () s5"
    "load_bytes (mem s5) ?I ?is = entry_bytes E FW_CFG_INITRD_DATA 0 ?is" "changes (mem s4) (mem s5) [(?I, ?is), (?D, 16)]" "only_mem s4 s5"
  proof (cases "initrd_size args = 0")
    case True
    then show ?thesis using that [of s4] by (simp add: when_do_def changes_def entry_bytes_def only_mem_step)
  next
    case False
    obtain t where "fw_cfg_read_entry env FW_CFG_INITRD_DATA ?I (initrd_size args) s4 = Ret () t"
      "load_bytes (mem t) ?I ?is = entry_bytes E FW_CFG_INITRD_DATA 0 ?is" "changes (mem s4) (mem t) [(?I, ?is), (?D, 16)]" "only_mem s4 t"
      using read_entry_only [OF ap(3), of FW_CFG_INITRD_DATA s4] by auto
    then show ?thesis using False that [of t] by (simp add: when_do_def)
  qed
  have run: "load_bzimage env ks args s = boot_bzimage args s5"
    unfolding load_bzimage_def by (simp only: andthen_apply s1(1) s2(1) s3(1) s4(1) s5(1) outcome.case)
  have kept: "load_bytes (mem s5) (?h + of_nat i) k = load_bytes (mem s1) (?h + of_nat i) k" if "i + k \<le> n" for i k
    using changes_load [OF s3(3), of "?h + of_nat i" k] changes_load [OF s4(3), of "?h + of_nat i" k] changes_load [OF s5(3), of "?h + of_nat i" k]
      part [OF ap(4) that] part [OF ap(5) that] part [OF ap(6) that] part [OF ap(7) that] s2(2) by simp
  have head: "load_bytes (mem s1) ?h 8192 = load_bytes (mem s) ?h 8192"
  proof (rule changes_load [OF s1(3)])
    have "apart (?h + 8192) (n - 8192) ?h 8192" using n unat_bound [of "setup_size args"] by (auto simp: apart_def max_def)
    then show "\<forall>r \<in> set [(?h + 8192, n - 8192), (?D, 16)]. apart (fst r) (snd r) ?h 8192"
      using part [OF ap(7), of 0 8192] n by simp
  qed
  have "load_bytes (mem s5) ?h 8192 = load_bytes (mem s) ?h 8192"
    using kept [of 0 8192] n head by simp
  moreover have "load_bytes (mem s5) (?h + 8192) (n - 8192) = entry_bytes E FW_CFG_SETUP_DATA 8192 (n - 8192)"
    using kept [of 8192 "n - 8192"] n s1(2) by simp
  moreover have "load_bytes (mem s5) ?K (unat ks) = entry_bytes E FW_CFG_KERNEL_DATA 0 (unat ks)"
    using changes_load [OF s4(3), of ?K "unat ks"] changes_load [OF s5(3), of ?K "unat ks"] ap(8,9,11) s3(2) by simp
  moreover have "load_bytes (mem s5) ?C ?cl = entry_bytes E FW_CFG_CMDLINE_DATA 0 ?cl"
    using changes_load [OF s5(3), of ?C ?cl] ap(10,12) s4(2) by simp
  moreover have "only_mem s s5" using s1(4) s2(3) s3(4) s4(4) s5(4) by (blast intro: only_mem_trans)
  moreover have "changes (mem s) (mem s5) [(?h, n), (?K, unat ks), (?C, ?cl), (?I, ?is), (?D, 16)]"
  proof -
    have "inside a ?h n" if "inside a (?h + 8192) (n - 8192)" for a
      using inside_sub [of a ?h 8192 "n - 8192" n] that n unat_bound [of "setup_size args"] by (auto simp: max_def split: if_splits)
    then show ?thesis using s1(3) s3(3) s4(3) s5(3) unfolding changes_def s2(2) by simp blast
  qed
  ultimately show ?thesis using that [OF run] s5(2) by blast
qed

text \<open>The first 8 KiB of the setup block, and the answers written into them.\<close>

lemma boot_kernel_bzimage:
  fixes s :: "'d machine"
  defines "h \<equiv> entry_word E FW_CFG_SETUP_ADDR" and "img \<equiv> setup_image E"
  assumes args: "args = placed (lowmem s) (offered_args E) img" and bz: "bzimage img h"
    and stack: "apart h 8192 (dma_desc env) 16"
  obtains t where "boot_kernel env ks (offered_args E) s = load_bzimage env ks args t" "sel (dev t) = FW_CFG_SETUP_DATA" "off (dev t) = 8192"
    "\<And>i. i < 8192 \<Longrightarrow> mem t (h + of_nat i) = answer (lduw_p img (h + 0x206) \<ge> 0x200) (lduw_p img (h + 0x206) \<ge> 0x201)
       (lduw_p img (h + 0x206) \<ge> 0x202) (cmdline_addr args) (real_mode_base h img) (initrd_addr args) (initrd_size args) h img (h + of_nat i)"
    "only_mem s t" "changes (mem s) (mem t) [(h, 8192), (dma_desc env, 16)]"
proof -
  have off: "setup_addr (offered_args E) = h" "initrd_size args = initrd_size (offered_args E)"
    by (simp_all add: offered_args_def h_def args placed_def Let_def)
  let ?p = "lduw_p img (h + 0x206)"
  let ?ans = "answer (?p \<ge> 0x200) (?p \<ge> 0x201) (?p \<ge> 0x202) (cmdline_addr args) (real_mode_base h img) (initrd_addr args) (initrd_size args) h"
  define s1 where "s1 = s\<lparr>dev := cfg_select env FW_CFG_SETUP_DATA (mem s) (dev s)\<rparr>"
  obtain m d where r: "fw_cfg_read env h 8192 s1 = Ret () (s1\<lparr>mem := m, dev := d\<rparr>)"
    "load_bytes m h (unat (8192 :: u32)) = entry_bytes E (sel (dev s1)) (off (dev s1)) (unat (8192 :: u32))"
    "changes (mem s1) m [(h, unat (8192 :: u32)), (dma_desc env, 16)]" "sel d = sel (dev s1)" "off d = off (dev s1) + unat (8192 :: u32)"
    by (rule read_changes [of h 8192 s1]) (use stack in simp)
  have same: "m (h + of_nat i) = img (h + of_nat i)" if "i < 8192" for i
  proof -
    have "m (h + of_nat i) = load_bytes m h 8192 ! i" using that by simp
    also have "\<dots> = E FW_CFG_SETUP_DATA i" using that r(2) by (simp add: s1_def entry_bytes_def)
    finally show ?thesis using that by (simp add: img_def h_def setup_image_at)
  qed
  note cong = header_cong [of m h img, OF same]
  have parse: "parse_bzimage (lowmem s) (offered_args E) m = Some (args, ?ans m)"
    using bz cong(1,3,4) cong(2) [OF _ off(1), of "lowmem s"] off by (simp add: parse_bzimage_result Let_def args)
  let ?t = "s\<lparr>dev := d, mem := ?ans m\<rparr>"
  have "boot_kernel env ks (offered_args E) s = load_bzimage env ks args ?t"
    unfolding boot_kernel_def using r(1) parse
    by (simp add: andthen_apply s1_def [symmetric] off(1)) (simp add: s1_def prog_simps)
  moreover have "?ans m (h + of_nat i) = ?ans img (h + of_nat i)" if "i < 8192" for i
    by (rule answer_cong) (use same that same [of "0x211"] in simp_all)
  moreover have "changes (mem s) (?ans m) [(h, 8192), (dma_desc env, 16)]"
  proof -
    have "?ans m a = m a" if "\<not> inside a h 8192" for a
      by (rule answer_outside) (use that in \<open>auto simp: inside_def\<close>)
    then show ?thesis using r(3) by (simp add: changes_def s1_def)
  qed
  ultimately show ?thesis using that [of ?t] r(4,5) by (simp add: s1_def only_mem_step)
qed

end

lemma setup_behind_header:
  assumes head: "\<And>i. i < 8192 \<Longrightarrow> M (h + of_nat i) = answer v200 v201 v202 cmdline base initrd k h (setup_image E) (h + of_nat i)"
    and rest: "load_bytes M (h + 8192) (n - 8192) = entry_bytes E FW_CFG_SETUP_DATA 8192 (n - 8192)"
    and "n = max 8192 l" "h = entry_word E FW_CFG_SETUP_ADDR"
  shows "load_bytes M (h + 0x22c) (n - 0x22c) = entry_bytes E FW_CFG_SETUP_DATA 0x22c (n - 0x22c)"
proof -
  have n: "n - 0x22c = (8192 - 0x22c) + (n - 8192)" using assms(3) by simp
  have "load_bytes M (h + 0x22c) (8192 - 0x22c) = entry_bytes E FW_CFG_SETUP_DATA 0x22c (8192 - 0x22c)"
  proof (rule nth_equalityI)
    fix i assume "i < length (load_bytes M (h + 0x22c) (8192 - 0x22c))"
    then have i: "i < 8192 - 0x22c" by simp
    have "\<not> inside (h + of_nat (0x22c + i)) h 0x22c" using i by (simp add: inside_def unat_of_nat del: of_nat_add)
    then have "M (h + of_nat (0x22c + i)) = setup_image E (h + of_nat (0x22c + i))"
      using head [of "0x22c + i"] i by (simp add: answer_outside del: of_nat_add)
    also have "\<dots> = E FW_CFG_SETUP_DATA (0x22c + i)" unfolding assms(4) by (rule setup_image_at) (use i in simp)
    finally show "load_bytes M (h + 0x22c) (8192 - 0x22c) ! i = entry_bytes E FW_CFG_SETUP_DATA 0x22c (8192 - 0x22c) ! i"
      using i by (simp add: entry_bytes_def add.assoc)
  qed simp
  moreover have "h + 0x22c + of_nat (8192 - 0x22c) = h + 8192" "0x22c + (8192 - 0x22c) = (8192 :: nat)" by simp_all
  ultimately show ?thesis unfolding n load_bytes_append entry_bytes_append using rest by (simp only:)
qed

section \<open>A Linux kernel\<close>

lemma bzimage_boots:
  fixes E :: "u16 \<Rightarrow> nat \<Rightarrow> u8" and s :: "'d machine"
  defines "h \<equiv> entry_word E FW_CFG_SETUP_ADDR" and "ks \<equiv> unat (entry_word E FW_CFG_KERNEL_SIZE)"
    and "cl \<equiv> unat (entry_word E FW_CFG_CMDLINE_SIZE)" and "il \<equiv> unat (entry_word E FW_CFG_INITRD_SIZE)"
    and "protocol \<equiv> lduw_p (setup_image E) (entry_word E FW_CFG_SETUP_ADDR + 0x206)"
  assumes "fw_cfg_device env sel off E"
    and offered: "entry_word E FW_CFG_KERNEL_SIZE + entry_word E FW_CFG_SETUP_SIZE \<noteq> 0" "bzimage (setup_image E) h"
    and args: "args = placed (lowmem s) (offered_args E) (setup_image E)" and n: "n = max 8192 (unat (setup_size args))"
    and away: "separate [(h, n), (kernel_addr args, ks), (cmdline_addr args, cl), (initrd_addr args, il), (dma_desc env, 16)]"
  shows "\<exists>t. boot_from_fwcfg env s = Handoff (Jump16 (ucast (drop_bit 4 h)) (cmdline_addr args - h - 16)) t \<and>
    load_bytes (mem t) (h + 0x22c) (n - 0x22c) = entry_bytes E FW_CFG_SETUP_DATA 0x22c (n - 0x22c) \<and>
    load_bytes (mem t) (kernel_addr args) ks = entry_bytes E FW_CFG_KERNEL_DATA 0 ks \<and>
    load_bytes (mem t) (cmdline_addr args) cl = entry_bytes E FW_CFG_CMDLINE_DATA 0 cl \<and>
    load_bytes (mem t) (initrd_addr args) il = entry_bytes E FW_CFG_INITRD_DATA 0 il \<and>
    ldl_p (mem t) (h + 0x218) = initrd_addr args \<and> unat (ldl_p (mem t) (h + 0x21c)) = il \<and>
    (protocol \<ge> 0x200 \<longrightarrow> mem t (h + 0x210) = 0xB0) \<and>
    (protocol \<ge> 0x201 \<longrightarrow> mem t (h + 0x211) = E FW_CFG_SETUP_DATA 0x211 OR 0x80 \<and>
       lduw_p (mem t) (h + 0x224) = ucast (cmdline_addr args - real_mode_base h (setup_image E) - 0x200)) \<and>
    (if protocol \<ge> 0x202 then ldl_p (mem t) (h + 0x228) = cmdline_addr args
     else lduw_p (mem t) (h + 0x20) = 0xA33F \<and>
       lduw_p (mem t) (h + 0x22) = ucast (cmdline_addr args - real_mode_base h (setup_image E))) \<and>
    only_mem s t \<and> changes (mem s) (mem t) [(h, n), (kernel_addr args, ks), (cmdline_addr args, cl), (initrd_addr args, il), (dma_desc env, 16)]"
proof -
  note port = fw_cfg_port.intro [OF assms(6)]
  have f: "setup_addr args = h" "unat (cmdline_size args) = cl" "unat (initrd_size args) = il" "vmlinuz_size (offered_args E) \<noteq> 0"
    using offered(1) by (simp_all add: args placed_def offered_args_def Let_def h_def cl_def il_def)
  have stack: "apart h 8192 (dma_desc env) 16" using away n by (auto intro: apart_mono)
  obtain d where r1: "boot_from_fwcfg env s = boot_kernel env (entry_word E FW_CFG_KERNEL_SIZE) (offered_args E) (s\<lparr>dev := d\<rparr>)"
    using fw_cfg_port.boot_reads [OF port] f(4) by auto
  define A where "A = answer (protocol \<ge> 0x200) (protocol \<ge> 0x201) (protocol \<ge> 0x202) (cmdline_addr args)
    (real_mode_base h (setup_image E)) (initrd_addr args) (initrd_size args) h (setup_image E)"
  obtain s1 where s1: "boot_from_fwcfg env s = load_bzimage env (entry_word E FW_CFG_KERNEL_SIZE) args s1"
    "sel (dev s1) = FW_CFG_SETUP_DATA" "off (dev s1) = 8192" "\<And>i. i < 8192 \<Longrightarrow> mem s1 (h + of_nat i) = A (h + of_nat i)"
    "only_mem (s\<lparr>dev := d\<rparr>) s1" "changes (mem s) (mem s1) [(h, 8192), (dma_desc env, 16)]"
    unfolding r1 A_def h_def protocol_def
    by (rule fw_cfg_port.boot_kernel_bzimage [OF port, of args "s\<lparr>dev := d\<rparr>" "entry_word E FW_CFG_KERNEL_SIZE"])
      (use args offered(2) stack in \<open>simp_all add: h_def\<close>)
  obtain t where t: "load_bzimage env (entry_word E FW_CFG_KERNEL_SIZE) args s1 = boot_bzimage args t"
    "load_bytes (mem t) h 8192 = load_bytes (mem s1) h 8192"
    "load_bytes (mem t) (h + 8192) (n - 8192) = entry_bytes E FW_CFG_SETUP_DATA 8192 (n - 8192)"
    "load_bytes (mem t) (kernel_addr args) ks = entry_bytes E FW_CFG_KERNEL_DATA 0 ks"
    "load_bytes (mem t) (cmdline_addr args) cl = entry_bytes E FW_CFG_CMDLINE_DATA 0 cl"
    "load_bytes (mem t) (initrd_addr args) il = entry_bytes E FW_CFG_INITRD_DATA 0 il"
    "only_mem s1 t" "changes (mem s1) (mem t) [(h, n), (kernel_addr args, ks), (cmdline_addr args, cl), (initrd_addr args, il), (dma_desc env, 16)]"
    using fw_cfg_port.load_bzimage_result [OF port s1(2,3) n, of "entry_word E FW_CFG_KERNEL_SIZE"] away
    unfolding f(1-3) ks_def by metis
  have head: "mem t (h + of_nat i) = A (h + of_nat i)" if "i < 8192" for i
    using arg_cong [OF t(2), of "\<lambda>bs. bs ! i"] s1(4) [OF that] that by simp
  have behind: "load_bytes (mem t) (h + 0x22c) (n - 0x22c) = entry_bytes E FW_CFG_SETUP_DATA 0x22c (n - 0x22c)"
    by (rule setup_behind_header [OF head [unfolded A_def] t(3) n]) (simp_all add: h_def)
  have word: "ldl_p (mem t) (h + of_nat i) = ldl_p A (h + of_nat i)" "lduw_p (mem t) (h + of_nat i) = lduw_p A (h + of_nat i)"
    if "i < 0x22c" for i
    unfolding ldl_p_def lduw_p_def
    by (rule arg_cong [of _ _ le_word], rule load_bytes_cong, use head [of "i + _"] that in \<open>simp add: add.assoc flip: of_nat_add\<close>)+
  have byte: "setup_image E (h + 0x211) = E FW_CFG_SETUP_DATA 0x211" using setup_image_at [of "0x211" E] by (simp add: h_def)
  note words = word [of "0x218"] word [of "0x21c"] word [of "0x224"] word [of "0x228"] word [of "0x20"] word [of "0x22"] head [of "0x210"] head [of "0x211"]
  have "boot_from_fwcfg env s = Handoff (Jump16 (ucast (drop_bit 4 h)) (cmdline_addr args - h - 16)) t"
    using s1(1) t(1) by (simp add: boot_bzimage_def f)
  moreover have "only_mem s t" using only_mem_trans [OF only_mem_step(2) only_mem_trans [OF s1(5) t(7)]] .
  moreover have "changes (mem s) (mem t) [(h, n), (kernel_addr args, ks), (cmdline_addr args, cl), (initrd_addr args, il), (dma_desc env, 16)]"
    using s1(6) t(8) n unfolding changes_def by (auto simp: inside_def)
  ultimately show ?thesis
    using t(4-6) behind answer_fields [OF A_def] words
    by (simp add: f byte)
qed

text \<open>
  C33: A bzImage kernel. When the setup block of the device has the HdrS signature, and with the setup block, the kernel, the
  command line, the initrd and the DMA descriptor in separate places, boot_from_fwcfg hands over to the setup code, with
  its segment and a stack below the command line. Kernel, command line and initrd are in memory as the device has them, at the places
  the protocol version calls for, and so is the setup block behind its header. The header names the initrd and its size; from
  protocol 2.00 on the boot loader type is 0xB0; from 2.01 on the heap flag is set and the heap ends below the command line; and the
  command line is named by its address from 2.02 on, and by magic number and offset from the real-mode segment before.
\<close>

theorem bzimage_handover:
  fixes E :: "u16 \<Rightarrow> nat \<Rightarrow> u8" and s :: "'d machine"
  defines "h \<equiv> entry_word E FW_CFG_SETUP_ADDR" and "ks \<equiv> unat (entry_word E FW_CFG_KERNEL_SIZE)"
    and "cl \<equiv> unat (entry_word E FW_CFG_CMDLINE_SIZE)" and "il \<equiv> unat (entry_word E FW_CFG_INITRD_SIZE)"
    and "protocol \<equiv> lduw_p (setup_image E) (entry_word E FW_CFG_SETUP_ADDR + 0x206)"
  assumes "fw_cfg_device env sel off E"
    and offered: "entry_word E FW_CFG_KERNEL_SIZE + entry_word E FW_CFG_SETUP_SIZE \<noteq> 0" "bzimage (setup_image E) h"
    and args: "args = placed (lowmem s) (offered_args E) (setup_image E)" and n: "n = max 8192 (unat (setup_size args))"
    and away: "separate [(h, n), (kernel_addr args, ks), (cmdline_addr args, cl), (initrd_addr args, il), (dma_desc env, 16)]"
  shows "\<exists>t. boot_from_fwcfg env s = Handoff (Jump16 (ucast (drop_bit 4 h)) (cmdline_addr args - h - 16)) t \<and>
    load_bytes (mem t) (h + 0x22c) (n - 0x22c) = entry_bytes E FW_CFG_SETUP_DATA 0x22c (n - 0x22c) \<and>
    load_bytes (mem t) (kernel_addr args) ks = entry_bytes E FW_CFG_KERNEL_DATA 0 ks \<and>
    load_bytes (mem t) (cmdline_addr args) cl = entry_bytes E FW_CFG_CMDLINE_DATA 0 cl \<and>
    load_bytes (mem t) (initrd_addr args) il = entry_bytes E FW_CFG_INITRD_DATA 0 il \<and>
    ldl_p (mem t) (h + 0x218) = initrd_addr args \<and> unat (ldl_p (mem t) (h + 0x21c)) = il \<and>
    (protocol \<ge> 0x200 \<longrightarrow> mem t (h + 0x210) = 0xB0) \<and>
    (protocol \<ge> 0x201 \<longrightarrow> mem t (h + 0x211) = E FW_CFG_SETUP_DATA 0x211 OR 0x80 \<and>
       lduw_p (mem t) (h + 0x224) = ucast (cmdline_addr args - real_mode_base h (setup_image E) - 0x200)) \<and>
    (if protocol \<ge> 0x202 then ldl_p (mem t) (h + 0x228) = cmdline_addr args
     else lduw_p (mem t) (h + 0x20) = 0xA33F \<and>
       lduw_p (mem t) (h + 0x22) = ucast (cmdline_addr args - real_mode_base h (setup_image E)))"
  unfolding h_def ks_def cl_def il_def protocol_def
  by (rule ex_forward [OF bzimage_boots [OF assms(6) offered [unfolded h_def] args n away [unfolded h_def ks_def cl_def il_def]]], elim conjE, intro conjI; assumption)

text \<open>A kernel of protocol 2.12 that loads high, with 1 setup sector, a command line of 4 bytes and an initrd of 16.\<close>

definition bz_contents :: "u16 \<Rightarrow> nat \<Rightarrow> u8" where
  "bz_contents e i =
     (if e = FW_CFG_SETUP_DATA then
        if i = 0x1f1 \<or> i = 0x211 then 1
        else if 0x202 \<le> i \<and> i < 0x206 then le_bytes 4 (0x53726448 :: u32) ! (i - 0x202)
        else if 0x206 \<le> i \<and> i < 0x208 then le_bytes 2 (0x20c :: u16) ! (i - 0x206)
        else if 0x22c \<le> i \<and> i < 0x230 then le_bytes 4 (0x37ffffff :: u32) ! (i - 0x22c)
        else 0
      else
        (let bs = le_bytes 4 (if e = FW_CFG_SETUP_ADDR then 0x10000 else if e = FW_CFG_SETUP_SIZE then 0x400
            else if e = FW_CFG_KERNEL_SIZE then 8 else if e = FW_CFG_CMDLINE_SIZE then 4
            else if e = FW_CFG_INITRD_SIZE then 16 else 0x90909090 :: u32) in bs ! (i mod 4)))"

lemma bz_contents_words:
  "entry_word bz_contents FW_CFG_SETUP_ADDR = 0x10000" "entry_word bz_contents FW_CFG_KERNEL_SIZE = 8"
  "entry_word bz_contents FW_CFG_SETUP_SIZE = 0x400" "entry_word bz_contents FW_CFG_CMDLINE_SIZE = 4"
  "entry_word bz_contents FW_CFG_INITRD_SIZE = 16"
  by code_simp+

lemma bz_header:
  "bzimage (setup_image bz_contents) 0x10000" "lduw_p (setup_image bz_contents) 0x10206 = 0x20c"
  "ldl_p (setup_image bz_contents) 0x1022c = 0x37ffffff" "setup_image bz_contents 0x10211 = 1" "setup_image bz_contents 0x101f1 = 1"
  by code_simp+

lemma bz_placed:
  "placed 0x8000000 (offered_args bz_contents) (setup_image bz_contents) =
     \<lparr>setup_addr = 0x10000, cmdline_addr = 0x20000, kernel_addr = 0x100000, initrd_addr = 0x7fff000,
      setup_size = 1024, kernel_size = 0x407, cmdline_size = 4, vmlinuz_size = 0x408, initrd_size = 16\<rparr>"
  by (simp add: placed_def offered_args_def bz_contents_words bz_header loads_high_def initrd_limit_def setup_sectors_def Let_def)

theorem bzimage_handover_witness:
  "\<exists>t. boot_from_fwcfg (ref_env bz_contents) (boot_machine (\<lambda>_. 0)\<lparr>lowmem := 0x8000000\<rparr>) = Handoff (Jump16 0x1000 0xfff0) t \<and>
     load_bytes (mem t) 0x100000 8 = replicate 8 0x90 \<and> ldl_p (mem t) 0x10218 = 0x7fff000 \<and> ldl_p (mem t) 0x10228 = 0x20000 \<and>
     mem t 0x10211 = 0x81"
proof -
  let ?s = "boot_machine (\<lambda>_. 0)\<lparr>lowmem := 0x8000000\<rparr>"
  have args: "placed (lowmem ?s) (offered_args bz_contents) (setup_image bz_contents) =
     \<lparr>setup_addr = 0x10000, cmdline_addr = 0x20000, kernel_addr = 0x100000, initrd_addr = 0x7fff000,
      setup_size = 1024, kernel_size = 0x407, cmdline_size = 4, vmlinuz_size = 0x408, initrd_size = 16\<rparr>"
    using bz_placed by simp
  have kernel: "entry_bytes bz_contents FW_CFG_KERNEL_DATA 0 8 = replicate 8 0x90" by code_simp
  have flag: "bz_contents FW_CFG_SETUP_DATA 0x211 OR 0x80 = 0x81" by code_simp
  from bzimage_handover [OF ref_device [of bz_contents] _ _ args [symmetric] refl]
  show ?thesis by (auto simp: bz_contents_words bz_header apart_def kernel flag)
qed

end
