(* ===== verification/Endspec.thy ===== *)
theory Endspec
  imports Bzspec
begin

text \<open>
  How boot_from_fwcfg ends: it comes back only when the device offers nothing, and the one jump it can leave by is
  fixed by the setup block.
\<close>

section \<open>Control does not come back\<close>

text \<open>A piece of firmware that does not hand over, and one that does not return and hands over in one way only.\<close>

definition keeps_control :: "('s, 'a) prog \<Rightarrow> bool" where
  "keeps_control p \<longleftrightarrow> (\<forall>s h t. p s \<noteq> Handoff h t)"

definition departs :: "(handoff \<Rightarrow> bool) \<Rightarrow> ('s, 'a) outcome \<Rightarrow> bool" where
  "departs P r = (case r of Ret _ _ \<Rightarrow> False | Handoff h _ \<Rightarrow> P h | _ \<Rightarrow> True)"

definition leaves :: "(handoff \<Rightarrow> bool) \<Rightarrow> ('s, 'a) prog \<Rightarrow> bool" where
  "leaves P p \<longleftrightarrow> (\<forall>s. departs P (p s))"

lemma control_bind: "keeps_control p \<Longrightarrow> (\<And>v. keeps_control (f v)) \<Longrightarrow> keeps_control (bind p f)"
  by (auto simp: keeps_control_def bind_apply split: outcome.split)

lemma control_andthen: "keeps_control p \<Longrightarrow> keeps_control q \<Longrightarrow> keeps_control (andthen p q)"
  unfolding andthen_def by (rule control_bind)

lemma control_basic:
  "keeps_control (ret v)" "keeps_control get_state" "keeps_control (update g)" "keeps_control panic"
  "keeps_control (on_mem f)" "keeps_control (inb env port)" "keeps_control (outb env port b)"
  "keeps_control (outw env port w)" "keeps_control (outl env port l)"
  by (auto simp: keeps_control_def inb_def outb_def outw_def outl_def split: prod.split)

lemma control_if: "keeps_control p \<Longrightarrow> keeps_control q \<Longrightarrow> keeps_control (if c then p else q)"
  by simp

lemma control_when: "keeps_control p \<Longrightarrow> keeps_control (when_do c p)"
  by (simp add: when_do_def control_basic)

lemma control_dma_wait: "keeps_control (dma_wait env)"
  by (auto simp: keeps_control_def dma_wait_def split: option.split)

lemmas control_intros = control_bind control_andthen control_basic control_if control_when control_dma_wait

lemma control_count_loop: "(\<And>i. keeps_control (p i)) \<Longrightarrow> keeps_control (count_loop k i bound p)"
proof (induction k arbitrary: i)
  case (Suc k)
  then have "keeps_control (andthen (p i) (count_loop k (Suc i) bound p))" by (intro control_andthen) blast+
  then show ?case by (simp add: keeps_control_def)
qed (simp add: keeps_control_def)

lemma control_insb: "keeps_control (insb env buf port len)"
proof -
  have "keeps_control (insb_loop env buf port n)" for n
    by (induction n arbitrary: buf) (auto intro!: control_intros)
  then show ?thesis by (simp add: insb_def)
qed

lemma control_fw_cfg:
  "keeps_control (fw_cfg_select env c)" "keeps_control (read_select env c)" "keeps_control (fw_cfg_read env buf len)"
  "keeps_control (fw_cfg_read_entry env e buf len)" "keeps_control (malloc n)"
  unfolding fw_cfg_select_def read_select_def fw_cfg_readl_le_def fw_cfg_read_def fw_cfg_read_entry_def fw_cfg_dma_def
    malloc_def malloc_align_def Let_def
  by (intro control_intros control_insb)+

lemma control_entries: "keeps_control (for_below b (mb_entry mb))" "keeps_control (for_below b (pvh_entry p))"
  unfolding for_below_def mb_entry_def pvh_entry_def Let_def by (intro control_count_loop control_intros)+

lemma control_pvh: "keeps_control (pvh_ramdisk env n)" "keeps_control (pvh_e820_setup env)"
  unfolding pvh_ramdisk_def pvh_e820_setup_def Let_def by (intro control_intros control_fw_cfg control_entries)+

lemma leaves_bind: "keeps_control p \<Longrightarrow> (\<And>v. leaves P (f v)) \<Longrightarrow> leaves P (bind p f)"
  unfolding leaves_def
proof
  fix s
  assume "keeps_control p" and rest: "\<And>v. \<forall>s. departs P (f v s)"
  then show "departs P (bind p f s)"
    using rest by (cases "p s") (auto simp: keeps_control_def bind_apply departs_def)
qed

lemma leaves_andthen: "keeps_control p \<Longrightarrow> leaves P q \<Longrightarrow> leaves P (andthen p q)"
  unfolding andthen_def by (rule leaves_bind)

text \<open>What comes behind a piece that does not return is not run.\<close>

lemma leaves_first: "leaves P p \<Longrightarrow> leaves P (andthen p q)"
  by (fastforce simp: leaves_def departs_def andthen_apply split: outcome.splits)

lemma leaves_if: "leaves P p \<Longrightarrow> leaves P q \<Longrightarrow> leaves P (if c then p else q)"
  by simp

lemma leaves_ends: "leaves P panic" "P h \<Longrightarrow> leaves P (Handoff h)"
  by (simp_all add: leaves_def departs_def)

context fw_cfg_port
begin

lemma leaves_read: "leaves P (f (entry_word E c)) \<Longrightarrow> leaves P (bind (read_select env c) f)"
  unfolding leaves_def
proof
  fix s
  assume "\<forall>s. departs P (f (entry_word E c) s)"
  moreover obtain d where "read_select env c s = Ret (entry_word E c) (s\<lparr>dev := d\<rparr>)" using read_select_word by blast
  ultimately show "departs P (bind (read_select env c) f s)" by (simp add: bind_run)
qed

lemma multiboot_leaves:
  "leaves (\<lambda>h. h = Jump32 0x2badb002 (entry_word E FW_CFG_INITRD_ADDR) (entry_word E FW_CFG_KERNEL_ENTRY)) (boot_multiboot_from_fw_cfg env)"
  unfolding boot_multiboot_from_fw_cfg_def
  by (intro leaves_read leaves_andthen leaves_bind leaves_if leaves_ends control_intros control_fw_cfg control_entries refl)

lemma pvh_leaves:
  "leaves (\<lambda>h. h = Jump32 0x2badb002 (start_info env) (entry_word E FW_CFG_KERNEL_ENTRY)) (boot_pvh_from_fw_cfg env)"
  unfolding boot_pvh_from_fw_cfg_def
  by (intro leaves_read leaves_andthen leaves_bind leaves_if leaves_ends control_intros control_fw_cfg control_pvh refl)

lemma bzimage_leaves:
  "leaves (\<lambda>h. h = Jump16 (ucast (drop_bit 4 (setup_addr args))) (cmdline_addr args - setup_addr args - 16)) (load_bzimage env n args)"
proof -
  have "leaves (\<lambda>h. h = Jump16 (ucast (drop_bit 4 (setup_addr args))) (cmdline_addr args - setup_addr args - 16)) (boot_bzimage args)"
    by (simp add: leaves_def departs_def boot_bzimage_def)
  then show ?thesis unfolding load_bzimage_def by (intro leaves_andthen control_intros control_fw_cfg)
qed

end

section \<open>The choice\<close>

text \<open>What the setup block of the device calls for.\<close>

definition chosen_jump :: "'d env \<Rightarrow> (u16 \<Rightarrow> nat \<Rightarrow> u8) \<Rightarrow> u32 \<Rightarrow> handoff" where
  "chosen_jump env E low =
     (let img = setup_image E; h = entry_word E FW_CFG_SETUP_ADDR; entry = entry_word E FW_CFG_KERNEL_ENTRY in
      if bzimage img h then Jump16 (ucast (drop_bit 4 h)) (cmdline_addr (placed low (offered_args E) img) - h - 16)
      else if ldl_p img h = 0x464c457f then Jump32 0x2badb002 (start_info env) entry
      else Jump32 0x2badb002 (entry_word E FW_CFG_INITRD_ADDR) entry)"

context fw_cfg_port
begin

lemma boot_kernel_chooses:
  fixes s :: "'d machine"
  defines "h \<equiv> entry_word E FW_CFG_SETUP_ADDR" and "img \<equiv> setup_image E"
  assumes stack: "apart h 8192 (dma_desc env) 16"
  obtains t where "lowmem t = lowmem s" "boot_kernel env ks (offered_args E) s =
    (if bzimage img h then load_bzimage env ks (placed (lowmem s) (offered_args E) img) t
     else if ldl_p img h = 0x464c457f then andthen (boot_pvh_from_fw_cfg env) (boot_multiboot_from_fw_cfg env) t
     else boot_multiboot_from_fw_cfg env t)"
proof -
  have at: "setup_addr (offered_args E) = h" by (simp add: offered_args_def h_def)
  define s1 where "s1 = s\<lparr>dev := cfg_select env FW_CFG_SETUP_DATA (mem s) (dev s)\<rparr>"
  obtain m d where r: "fw_cfg_read env h 8192 s1 = Ret () (s1\<lparr>mem := m, dev := d\<rparr>)"
    "load_bytes m h (unat (8192 :: u32)) = entry_bytes E (sel (dev s1)) (off (dev s1)) (unat (8192 :: u32))"
    by (rule read_changes [of h 8192 s1]) (use stack in simp)
  have same: "m (h + of_nat i) = img (h + of_nat i)" if "i < 8192" for i
  proof -
    have "m (h + of_nat i) = load_bytes m h 8192 ! i" using that by simp
    also have "\<dots> = E FW_CFG_SETUP_DATA i" using that r(2) by (simp add: s1_def entry_bytes_def)
    finally show ?thesis using that by (simp add: img_def h_def setup_image_at)
  qed
  note cong = header_cong [of m h img, OF same]
  have elf: "ldl_p m h = ldl_p img h"
    unfolding ldl_p_def by (rule arg_cong [of _ _ le_word], rule load_bytes_cong) (use same in simp)
  let ?t = "s\<lparr>mem := m, dev := d\<rparr>"
  have run: "boot_kernel env ks (offered_args E) s = (case parse_bzimage (lowmem s) (offered_args E) m of
       None \<Rightarrow> andthen (when_do (ldl_p m h = 0x464c457f) (boot_pvh_from_fw_cfg env)) (boot_multiboot_from_fw_cfg env)
     | Some (args, m) \<Rightarrow> andthen (on_mem (\<lambda>_. m)) (load_bzimage env ks args)) ?t"
    unfolding boot_kernel_def using r(1) by (simp add: andthen_apply s1_def [symmetric] at) (simp add: s1_def prog_simps at cong: option.case_cong)
  show ?thesis
  proof (cases "bzimage img h")
    case True
    then obtain m' where "parse_bzimage (lowmem s) (offered_args E) m = Some (placed (lowmem s) (offered_args E) img, m')"
      using cong(1) cong(2) [OF _ at, of "lowmem s"] by (simp add: parse_bzimage_result at)
    with run have "boot_kernel env ks (offered_args E) s = load_bzimage env ks (placed (lowmem s) (offered_args E) img) (?t\<lparr>mem := m'\<rparr>)"
      by (simp add: andthen_apply)
    then show ?thesis using True that [of "?t\<lparr>mem := m'\<rparr>"] by simp
  next
    case False
    then have "parse_bzimage (lowmem s) (offered_args E) m = None" using cong(1) by (simp add: parse_bzimage_result at)
    with run show ?thesis using False elf that [of ?t] by (auto simp: andthen_apply)
  qed
qed

lemma boot_departs:
  assumes stack: "apart (entry_word E FW_CFG_SETUP_ADDR) 8192 (dma_desc env) 16"
    and some: "vmlinuz_size (offered_args E) \<noteq> 0"
  shows "departs (\<lambda>h. h = chosen_jump env E (lowmem s)) (boot_from_fwcfg env s)"
proof -
  obtain d where d: "boot_from_fwcfg env s = boot_kernel env (entry_word E FW_CFG_KERNEL_SIZE) (offered_args E) (s\<lparr>dev := d\<rparr>)"
    using boot_reads [of s] some by auto
  have addr: "setup_addr (placed low (offered_args E) img) = entry_word E FW_CFG_SETUP_ADDR" for low img
    by (simp add: placed_def offered_args_def Let_def)
  obtain t where r: "boot_kernel env (entry_word E FW_CFG_KERNEL_SIZE) (offered_args E) (s\<lparr>dev := d\<rparr>) =
      (if bzimage (setup_image E) (entry_word E FW_CFG_SETUP_ADDR)
       then load_bzimage env (entry_word E FW_CFG_KERNEL_SIZE) (placed (lowmem (s\<lparr>dev := d\<rparr>)) (offered_args E) (setup_image E)) t
       else if ldl_p (setup_image E) (entry_word E FW_CFG_SETUP_ADDR) = 0x464c457f
       then andthen (boot_pvh_from_fw_cfg env) (boot_multiboot_from_fw_cfg env) t
       else boot_multiboot_from_fw_cfg env t)"
    by (rule boot_kernel_chooses [OF stack])
  have t: "boot_from_fwcfg env s = (let img = setup_image E; h = entry_word E FW_CFG_SETUP_ADDR in
      if bzimage img h then load_bzimage env (entry_word E FW_CFG_KERNEL_SIZE) (placed (lowmem s) (offered_args E) img) t
      else if ldl_p img h = 0x464c457f then andthen (boot_pvh_from_fw_cfg env) (boot_multiboot_from_fw_cfg env) t
      else boot_multiboot_from_fw_cfg env t)"
    unfolding d Let_def r by simp
  show ?thesis
    unfolding t chosen_jump_def Let_def
    using bzimage_leaves [of "placed (lowmem s) (offered_args E) (setup_image E)", unfolded addr]
      leaves_first [OF pvh_leaves, of "boot_multiboot_from_fw_cfg env"] multiboot_leaves
    by (simp add: leaves_def)
qed

lemma multiboot_needs_kernel:
  assumes stack: "apart (entry_word E FW_CFG_SETUP_ADDR) 8192 (dma_desc env) 16"
    and some: "vmlinuz_size (offered_args E) \<noteq> 0" and none: "entry_word E FW_CFG_KERNEL_SIZE = 0"
    and other: "\<not> bzimage (setup_image E) (entry_word E FW_CFG_SETUP_ADDR)"
      "ldl_p (setup_image E) (entry_word E FW_CFG_SETUP_ADDR) \<noteq> 0x464c457f"
  shows "\<exists>t. boot_from_fwcfg env s = Panic t"
proof -
  obtain d where d: "boot_from_fwcfg env s = boot_kernel env (entry_word E FW_CFG_KERNEL_SIZE) (offered_args E) (s\<lparr>dev := d\<rparr>)"
    using boot_reads [of s] some by auto
  obtain t where "boot_kernel env (entry_word E FW_CFG_KERNEL_SIZE) (offered_args E) (s\<lparr>dev := d\<rparr>) = boot_multiboot_from_fw_cfg env t"
    by (rule boot_kernel_chooses [OF stack, of "s\<lparr>dev := d\<rparr>" "entry_word E FW_CFG_KERNEL_SIZE"]) (use other in simp)
  with d have t: "boot_from_fwcfg env s = boot_multiboot_from_fw_cfg env t" by simp
  obtain d' where "read_select env FW_CFG_KERNEL_SIZE t = Ret 0 (t\<lparr>dev := d'\<rparr>)"
    using read_select_word [of FW_CFG_KERNEL_SIZE t] none by auto
  then show ?thesis unfolding t boot_multiboot_from_fw_cfg_def by (simp add: bind_run)
qed

end

text \<open>
  C36: Booting is final. boot_from_fwcfg returns exactly if the device offers neither a kernel nor a setup block, and
  then has not touched memory. Otherwise it does not come back, whatever else the devices do, and the only jump it can leave by
  is the one the setup block calls for: to the setup code when the block has the HdrS signature, with start_info in ebx for
  an ELF image, as PVH demands, and with the multiboot block in ebx for anything else, in both cases at the entry
  point the device names. In particular the code behind the call of boot_pvh_from_fw_cfg, which would go on with multiboot, is never reached.
  Without a kernel the multiboot path ends in \<open>panic\<close>.
\<close>

theorem boot_is_final:
  fixes E :: "u16 \<Rightarrow> nat \<Rightarrow> u8"
  defines "h \<equiv> entry_word E FW_CFG_SETUP_ADDR"
  assumes "fw_cfg_device env sel off E" and "apart h 8192 (dma_desc env) 16"
  shows "if entry_word E FW_CFG_KERNEL_SIZE + entry_word E FW_CFG_SETUP_SIZE = 0
     then \<exists>d. boot_from_fwcfg env s = Ret () (s\<lparr>dev := d\<rparr>)
     else departs (\<lambda>jump. jump = chosen_jump env E (lowmem s)) (boot_from_fwcfg env s) \<and>
       (entry_word E FW_CFG_KERNEL_SIZE = 0 \<and> \<not> bzimage (setup_image E) h \<and> ldl_p (setup_image E) h \<noteq> 0x464c457f \<longrightarrow>
         (\<exists>t. boot_from_fwcfg env s = Panic t))"
proof -
  note port = fw_cfg_port.intro [OF assms(2)]
  have size: "vmlinuz_size (offered_args E) = entry_word E FW_CFG_KERNEL_SIZE + entry_word E FW_CFG_SETUP_SIZE"
    by (simp add: offered_args_def)
  show ?thesis
    using fw_cfg_port.boot_reads [OF port, of s] fw_cfg_port.boot_departs [OF port assms(3) [unfolded h_def], of s]
      fw_cfg_port.multiboot_needs_kernel [OF port assms(3) [unfolded h_def], of s]
    by (auto simp: size h_def)
qed

text \<open>A setup block without a kernel, the rest of it 0.\<close>

definition setup_only :: "u16 \<Rightarrow> nat \<Rightarrow> u8" where
  "setup_only e i = (if e = FW_CFG_SETUP_SIZE \<and> i = 0 \<or> e = FW_CFG_SETUP_ADDR \<and> i = 2 then 1 else 0)"

theorem boot_is_final_witness:
  "(\<exists>d. boot_from_fwcfg (ref_env (\<lambda>_ _. 0)) (boot_machine (\<lambda>_. 0)) = Ret () (boot_machine (\<lambda>_. 0)\<lparr>dev := d\<rparr>)) \<and>
   departs (\<lambda>h. h = Jump16 0x1000 0xfff0) (boot_from_fwcfg (ref_env bz_contents) (boot_machine (\<lambda>_. 0)\<lparr>lowmem := 0x8000000\<rparr>)) \<and>
   (\<exists>t. boot_from_fwcfg (ref_env setup_only) (boot_machine (\<lambda>_. 0)) = Panic t)"
proof (intro conjI)
  have none: "entry_word (\<lambda>_ _. 0) e = 0" for e by (simp add: entry_word_def entry_bytes_def upt_rec numeral_eq_Suc)
  show "\<exists>d. boot_from_fwcfg (ref_env (\<lambda>_ _. 0)) (boot_machine (\<lambda>_. 0)) = Ret () (boot_machine (\<lambda>_. 0)\<lparr>dev := d\<rparr>)"
    using boot_is_final [OF ref_device [of "\<lambda>_ _. 0"], of "boot_machine (\<lambda>_. 0)"] by (simp add: none apart_def)
  show "departs (\<lambda>h. h = Jump16 0x1000 0xfff0) (boot_from_fwcfg (ref_env bz_contents) (boot_machine (\<lambda>_. 0)\<lparr>lowmem := 0x8000000\<rparr>))"
    using boot_is_final [OF ref_device [of bz_contents], of "boot_machine (\<lambda>_. 0)\<lparr>lowmem := 0x8000000\<rparr>"]
    by (simp add: bz_contents_words apart_def chosen_jump_def Let_def bz_header bz_placed)
  have "entry_word setup_only FW_CFG_SETUP_ADDR = 0x10000" "entry_word setup_only FW_CFG_SETUP_SIZE = 1"
    "entry_word setup_only FW_CFG_KERNEL_SIZE = 0" "ldl_p (setup_image setup_only) 0x10000 = 0"
    "ldl_p (setup_image setup_only) 0x10202 = 0"
    by code_simp+
  then show "\<exists>t. boot_from_fwcfg (ref_env setup_only) (boot_machine (\<lambda>_. 0)) = Panic t"
    using boot_is_final [OF ref_device [of setup_only], of "boot_machine (\<lambda>_. 0)"] by (simp add: apart_def bzimage_def)
qed

end
