(* ===== verification/Acpispec.thy ===== *)
theory Acpispec
  imports Acpi
begin

text \<open>
  The linker/loader as a whole: a script is decoded into a list of commands, which are given a meaning on the
  contents of the tables; running the script in memory implements that meaning.
\<close>

section \<open>Scripts\<close>

text \<open>\<open>struct loader_cmd\<close>: a tag and a union. A file name is the bytes of its array up to the NUL.\<close>

datatype loader_cmd =
    Quit
  | Alloc "u8 list" u32 u8
  | Ptr "u8 list" "u8 list" u32 u8
  | Checksum "u8 list" u32 u32 u32

definition name_field :: "u8 list \<Rightarrow> u8 list" where
  "name_field bs = takeWhile (\<lambda>b. b \<noteq> 0) (take 56 bs)"

text \<open>The members of the union are at 4, after the tag. A name that fills its array is not ended: there is no such command.\<close>

definition dec_cmd :: "u8 list \<Rightarrow> loader_cmd option" where
  "dec_cmd bs =
     (let cmd = le_word (take 4 bs) :: u32; file = name_field (drop 4 bs);
          word = (\<lambda>i. le_word (take 4 (drop i bs))) in
      if cmd = CMD_QUIT then Some Quit
      else if cmd = CMD_ALLOC \<and> length file < 56 then Some (Alloc file (word 60) (bs ! 64))
      else if cmd = CMD_PTR \<and> length file < 56 \<and> length (name_field (drop 60 bs)) < 56
        then Some (Ptr file (name_field (drop 60 bs)) (word 116) (bs ! 120))
      else if cmd = CMD_CHECKSUM \<and> length file < 56 then Some (Checksum file (word 60) (word 64) (word 68))
      else None)"

lemma name_field_string:
  assumes "length (name_field (load_bytes m p 56)) < 56"
  shows "is_string (string_at m p) (name_field (load_bytes m p 56))"
proof -
  let ?cs = "name_field (load_bytes m p 56)"
  have cs: "?cs = takeWhile (\<lambda>b. b \<noteq> 0) (load_bytes m p 56)" by (simp add: name_field_def)
  have "m (p + of_nat i) = ?cs ! i \<and> ?cs ! i \<noteq> 0" if "i < length ?cs" for i
  proof -
    have "?cs ! i = load_bytes m p 56 ! i" using that unfolding cs by (rule takeWhile_nth)
    moreover have "?cs ! i \<in> set ?cs" using that by (rule nth_mem)
    then have "?cs ! i \<noteq> 0" unfolding cs by (rule set_takeWhileD [THEN conjunct2])
    ultimately show ?thesis using that assms by simp
  qed
  moreover have "m (p + of_nat (length ?cs)) = 0"
  proof -
    have "load_bytes m p 56 ! length ?cs = 0"
      using nth_length_takeWhile [of "\<lambda>b. b \<noteq> 0" "load_bytes m p 56"] assms unfolding cs by simp
    then show ?thesis using assms by simp
  qed
  ultimately show ?thesis by (simp add: is_string_def string_at_def)
qed

text \<open>One round of the loop, on a command.\<close>

lemma loader_loop_cmd:
  assumes "dec_cmd (load_bytes (mem s) (loader_script env + 128 * of_nat i) 128) = Some c"
  obtains name other where
    "case c of Quit \<Rightarrow> loader_loop env i (Suc k) s = Ret () s
     | Alloc f al z \<Rightarrow> is_string name f \<and> loader_loop env i (Suc k) s = andthen (do_alloc env name al z) (loader_loop env (Suc i) k) s
     | Ptr d e off w \<Rightarrow> is_string name d \<and> is_string other e \<and>
         loader_loop env i (Suc k) s = andthen (do_ptr name other off w) (loader_loop env (Suc i) k) s
     | Checksum f off st n \<Rightarrow> is_string name f \<and>
         loader_loop env i (Suc k) s = andthen (do_checksum name off st n) (loader_loop env (Suc i) k) s"
proof -
  let ?p = "loader_script env + 128 * of_nat i" and ?m = "mem s"
  let ?bs = "load_bytes ?m ?p 128"
  have word: "le_word (take 4 (drop j ?bs)) = ldl_p ?m (?p + of_nat j)" if "j + 4 \<le> 128" for j
    using load_bytes_sub [OF that, of ?m ?p] by (simp add: ldl_p_def)
  have names: "name_field (drop j ?bs) = name_field (load_bytes ?m (?p + of_nat j) 56)" if "j + 56 \<le> 128" for j
    using load_bytes_sub [OF that, of ?m ?p] by (simp add: name_field_def)
  note words = word [of 0] word [of 60] word [of 64] word [of 68] word [of 116] and files = names [of 4] names [of 60]
  note strs = name_field_string [of ?m "?p + of_nat 4"] name_field_string [of ?m "?p + of_nat 60"]
  show ?thesis
    using assms words files strs
    by (intro that [of "string_at ?m (?p + 4)" "string_at ?m (?p + 60)"])
       (auto simp: dec_cmd_def Let_def bind_apply split: if_splits)
qed

section \<open>What a script means\<close>

text \<open>
  On the contents of the files that have been loaded: \<open>E\<close> has the contents on the device, \<open>at\<close> the addresses
  that the files get.
\<close>

definition file_of :: "fw_cfg_file list \<Rightarrow> u8 list \<Rightarrow> nat option" where
  "file_of ft f = index_of (file_named f) ft"

definition size_of :: "fw_cfg_file list \<Rightarrow> nat \<Rightarrow> nat" where
  "size_of ft i = unat (file_size (ft ! i))"

fun exec :: "fw_cfg_file list \<Rightarrow> (u16 \<Rightarrow> nat \<Rightarrow> u8) \<Rightarrow> (nat \<Rightarrow> addr) \<Rightarrow> loader_cmd list \<Rightarrow> (nat \<Rightarrow> u8 list) \<Rightarrow> nat \<Rightarrow> u8 list" where
  "exec ft E at [] T = T"
| "exec ft E at (Quit # cs) T = T"
| "exec ft E at (Alloc f al z # cs) T = (case file_of ft f of None \<Rightarrow> T
    | Some i \<Rightarrow> exec ft E at cs (T(i := entry_bytes E (file_select (ft ! i)) 0 (size_of ft i))))"
| "exec ft E at (Ptr d e off w # cs) T = (case (file_of ft d, file_of ft e) of
      (Some i, Some j) \<Rightarrow> exec ft E at cs (T(i := patch_pointer (unat off) (unat w) (at j) (T i)))
    | _ \<Rightarrow> T)"
| "exec ft E at (Checksum f off st n # cs) T = (case file_of ft f of None \<Rightarrow> T
    | Some i \<Rightarrow> exec ft E at cs (T(i := patch_checksum (unat off) (unat st) (unat n) (T i))))"

text \<open>The files a script loads, and the space it takes of the F-segment or of the heap.\<close>

fun allocated :: "fw_cfg_file list \<Rightarrow> loader_cmd list \<Rightarrow> nat set" where
  "allocated ft [] = {}"
| "allocated ft (Quit # cs) = {}"
| "allocated ft (Alloc f al z # cs) = set_option (file_of ft f) \<union> allocated ft cs"
| "allocated ft (c # cs) = allocated ft cs"

fun space :: "fw_cfg_file list \<Rightarrow> bool \<Rightarrow> loader_cmd list \<Rightarrow> nat" where
  "space ft fseg [] = 0"
| "space ft fseg (Quit # cs) = 0"
| "space ft fseg (Alloc f al z # cs) = space ft fseg cs +
    (case file_of ft f of None \<Rightarrow> 0
     | Some i \<Rightarrow> if fseg = (z = ALLOC_FSEG) then size_of ft i + unat (min_align al) else 0)"
| "space ft fseg (c # cs) = space ft fseg cs"

text \<open>
  A script that can be followed when the files in \<open>A\<close> have been loaded: it loads each file once, at an alignment
  that is a power of two, before it uses it, and stays inside it.
\<close>

fun well_formed :: "fw_cfg_file list \<Rightarrow> nat set \<Rightarrow> loader_cmd list \<Rightarrow> bool" where
  "well_formed ft A [] = True"
| "well_formed ft A (Quit # cs) = True"
| "well_formed ft A (Alloc f al z # cs) = (case file_of ft f of None \<Rightarrow> False
    | Some i \<Rightarrow> i < 20 \<and> i \<notin> A \<and> power_of_two (min_align al) \<and> well_formed ft (insert i A) cs)"
| "well_formed ft A (Ptr d e off w # cs) = (case (file_of ft d, file_of ft e) of
      (Some i, Some j) \<Rightarrow> i \<in> A \<and> j \<in> A \<and> unat off + unat w \<le> size_of ft i \<and> unat w \<le> 8 \<and> well_formed ft A cs
    | _ \<Rightarrow> False)"
| "well_formed ft A (Checksum f off st n # cs) = (case file_of ft f of None \<Rightarrow> False
    | Some i \<Rightarrow> i \<in> A \<and> unat off < size_of ft i \<and> unat st + unat n \<le> size_of ft i \<and> well_formed ft A cs)"

section \<open>Running a script\<close>

text \<open>
  Before command \<open>i\<close>: the commands that are left are in memory, below the heap, as \<open>cs\<close>; there is space for the
  files they load; the files in \<open>A\<close> have been loaded, with contents \<open>T\<close>.
\<close>

definition ready :: "'d env \<Rightarrow> fw_cfg_file list \<Rightarrow> nat \<Rightarrow> nat \<Rightarrow> loader_cmd list \<Rightarrow> nat set \<Rightarrow> (nat \<Rightarrow> u8 list) \<Rightarrow> 'd machine \<Rightarrow> bool" where
  "ready env ft b i cs A T s \<longleftrightarrow> blobs_ok env s \<and> file_table s = ft \<and>
     (\<forall>j < length cs. dec_cmd (load_bytes (mem s) (loader_script env + 128 * of_nat (i + j)) 128) = Some (cs ! j)) \<and>
     unat (loader_script env) + 128 * (i + length cs) \<le> b \<and> unat (dma_desc env) + 16 \<le> b \<and>
     apart (dma_desc env) 16 (loader_script env) (128 * (i + length cs)) \<and>
     b + space ft False cs \<le> unat (malloc_top s) \<and> unat (fseg_base s) + space ft True cs \<le> 2 ^ 32 \<and>
     {j. loaded s j} = A \<and> (\<forall>j \<in> A. blob s j = T j)"

text \<open>
  From \<open>s\<close> to \<open>s'\<close> no more space has been taken than \<open>cs\<close> take; below the heap, only the descriptor has
  changed.
\<close>

definition took :: "'d env \<Rightarrow> fw_cfg_file list \<Rightarrow> loader_cmd list \<Rightarrow> 'd machine \<Rightarrow> 'd machine \<Rightarrow> bool" where
  "took env ft cs s s' \<longleftrightarrow>
     unat (malloc_top s') \<le> unat (malloc_top s) \<and> unat (malloc_top s) \<le> unat (malloc_top s') + space ft False cs \<and>
     unat (fseg_base s) \<le> unat (fseg_base s') \<and> unat (fseg_base s') \<le> unat (fseg_base s) + space ft True cs \<and>
     (\<forall>a. unat a < unat (malloc_top s') \<longrightarrow> \<not> inside a (dma_desc env) 16 \<longrightarrow> mem s' a = mem s a)"

lemma took_refl: "took env ft cs s s"
  by (simp add: took_def)

lemma took_Cons:
  assumes "took env ft [c] s s1" "took env ft cs s1 s'" "c \<noteq> Quit"
  shows "took env ft (c # cs) s s'"
proof -
  have "space ft z (c # cs) = space ft z [c] + space ft z cs" for z using assms(3) by (cases c) simp_all
  then show ?thesis using assms(1,2) by (simp add: took_def)
qed

text \<open>A step that keeps what is below the heap, but for the descriptor, keeps the script.\<close>

lemma ready_next:
  assumes "ready env ft b i (c # cs) A T s" and "blobs_ok env s'" "file_table s' = ft"
    and low: "\<And>a. unat a < unat (malloc_top s') \<Longrightarrow> \<not> inside a (dma_desc env) 16 \<Longrightarrow> mem s' a = mem s a"
    and room: "b + space ft False cs \<le> unat (malloc_top s')" "unat (fseg_base s') + space ft True cs \<le> 2 ^ 32"
    and "{j. loaded s' j} = B" "\<forall>j \<in> B. blob s' j = U j"
  shows "ready env ft b (Suc i) cs B U s'"
proof -
  let ?C = "loader_script env"
  have r: "unat ?C + 128 * (i + Suc (length cs)) \<le> b" "apart (dma_desc env) 16 ?C (128 * (i + Suc (length cs)))"
    "unat (dma_desc env) + 16 \<le> b"
    and dec: "\<And>j. j < Suc (length cs) \<Longrightarrow> dec_cmd (load_bytes (mem s) (?C + 128 * of_nat (i + j)) 128) = Some ((c # cs) ! j)"
    using assms(1) unfolding ready_def by simp_all
  have "dec_cmd (load_bytes (mem s') (?C + 128 * of_nat (Suc i + j)) 128) = Some (cs ! j)" if j: "j < length cs" for j
  proof -
    have "load_bytes (mem s') (?C + 128 * of_nat (Suc i + j)) 128 = load_bytes (mem s) (?C + 128 * of_nat (Suc i + j)) 128"
    proof (rule load_bytes_cong)
      fix x :: nat assume x: "x < 128"
      let ?k = "128 * (Suc i + j) + x"
      have k: "?k < 128 * (i + Suc (length cs))" using j x by simp
      have at: "?C + 128 * of_nat (Suc i + j) + of_nat x = ?C + of_nat ?k" by (simp add: algebra_simps)
      have "unat (malloc_top s') < 2 ^ 32" using unat_bound [of "malloc_top s'"] by simp
      then have "unat ?C + ?k < 2 ^ 32" using k r(1) room(1) by linarith
      then have "unat (?C + of_nat ?k) = unat ?C + ?k" by (subst unat_add_less) (simp_all add: unat_of_nat_u32 del: of_nat_add of_nat_mult)
      moreover have "\<not> inside (?C + of_nat ?k) (dma_desc env) 16" using r(2) k by (rule apart_not_inside)
      ultimately show "mem s' (?C + 128 * of_nat (Suc i + j) + of_nat x) = mem s (?C + 128 * of_nat (Suc i + j) + of_nat x)"
        unfolding at using k r(1) room(1) by (intro low) simp_all
    qed
    then show ?thesis using dec [of "Suc j"] j by simp
  qed
  then show ?thesis using assms r by (simp add: ready_def)
qed

lemma file_id_of:
  assumes "is_string name f" "file_of (file_table s) f = Some j"
  shows "fw_cfg_file_id name s = of_nat j" "j < length (file_table s)"
  using assms fw_cfg_file_id_index [OF assms(1), of s] index_of_less by (simp_all add: file_of_def)

lemma ptr_step:
  assumes ready: "ready env ft b i (Ptr d e off w # cs) A T s" and names: "is_string name d" "is_string other e"
    and files: "file_of ft d = Some j" "file_of ft e = Some k" "j \<in> A" "k \<in> A" "unat off + unat w \<le> size_of ft j" "unat w \<le> 8"
  obtains s' where "do_ptr name other off w s = Ret () s'" "file_address s' = file_address s" "took env ft [Ptr d e off w] s s'"
    "ready env ft b (Suc i) cs A (T(j := patch_pointer (unat off) (unat w) (file_address s ! k) (T j))) s'"
proof -
  have r: "blobs_ok env s" "file_table s = ft" "b + space ft False cs \<le> unat (malloc_top s)"
    "unat (fseg_base s) + space ft True cs \<le> 2 ^ 32" "{j. loaded s j} = A" "\<forall>j \<in> A. blob s j = T j"
    using ready by (simp_all add: ready_def)
  have found: "found s other k" "found s name j"
    using file_id_of(1) [of name d s j] file_id_of(1) [of other e s k] names files r(2,5) by (auto simp: found_def)
  have len: "unat off + unat w \<le> file_len s j" using files(5) by (simp add: file_len_def size_of_def r(2))
  obtain s' where s': "do_ptr name other off w s = Ret () s'"
    "blob s' j = patch_pointer (unat off) (unat w) (file_address s ! k) (blob s j)"
    "\<forall>x. loaded s x \<longrightarrow> x \<noteq> j \<longrightarrow> blob s' x = blob s x" "blobs_ok env s'" "s' = s\<lparr>mem := mem s'\<rparr>"
    "file_table s' = file_table s" "\<forall>a. unat a < unat (malloc_top s) \<longrightarrow> mem s' a = mem s a"
    using do_ptr_patches [OF r(1) found len files(6)] by blast
  have same: "malloc_top s' = malloc_top s" "fseg_base s' = fseg_base s" "file_address s' = file_address s"
    using arg_cong [OF s'(5), of malloc_top] arg_cong [OF s'(5), of fseg_base] arg_cong [OF s'(5), of file_address] by simp_all
  have "{x. loaded s' x} = A" using r(5) by (simp add: loaded_def same s'(6))
  moreover have "\<forall>x \<in> A. blob s' x = (T(j := patch_pointer (unat off) (unat w) (file_address s ! k) (T j))) x"
    using s'(2,3) r(5,6) files(3) by auto
  ultimately have "ready env ft b (Suc i) cs A (T(j := patch_pointer (unat off) (unat w) (file_address s ! k) (T j))) s'"
    using s'(4,6,7) r same by (intro ready_next [OF ready]) simp_all
  moreover have "took env ft [Ptr d e off w] s s'" using s'(7) by (simp add: took_def same)
  ultimately show ?thesis using s'(1) same(3) by (intro that)
qed

lemma checksum_step:
  assumes ready: "ready env ft b i (Checksum f off st n # cs) A T s" and name: "is_string name f"
    and files: "file_of ft f = Some j" "j \<in> A" "unat off < size_of ft j" "unat st + unat n \<le> size_of ft j"
  obtains s' where "do_checksum name off st n s = Ret () s'" "file_address s' = file_address s" "took env ft [Checksum f off st n] s s'"
    "ready env ft b (Suc i) cs A (T(j := patch_checksum (unat off) (unat st) (unat n) (T j))) s'"
proof -
  have r: "blobs_ok env s" "file_table s = ft" "b + space ft False cs \<le> unat (malloc_top s)"
    "unat (fseg_base s) + space ft True cs \<le> 2 ^ 32" "{j. loaded s j} = A" "\<forall>j \<in> A. blob s j = T j"
    using ready by (simp_all add: ready_def)
  have found: "found s name j"
    using file_id_of(1) [of name f s j] name files r(2,5) by (auto simp: found_def)
  have len: "unat off < file_len s j" "unat st + unat n \<le> file_len s j"
    using files(3,4) by (simp_all add: file_len_def size_of_def r(2))
  obtain s' where s': "do_checksum name off st n s = Ret () s'"
    "blob s' j = patch_checksum (unat off) (unat st) (unat n) (blob s j)"
    "\<forall>x. loaded s x \<longrightarrow> x \<noteq> j \<longrightarrow> blob s' x = blob s x" "blobs_ok env s'" "s' = s\<lparr>mem := mem s'\<rparr>"
    "file_table s' = file_table s" "\<forall>a. unat a < unat (malloc_top s) \<longrightarrow> mem s' a = mem s a"
    using do_checksum_patches [OF r(1) found len] by blast
  have same: "malloc_top s' = malloc_top s" "fseg_base s' = fseg_base s" "file_address s' = file_address s"
    using arg_cong [OF s'(5), of malloc_top] arg_cong [OF s'(5), of fseg_base] arg_cong [OF s'(5), of file_address] by simp_all
  have "{x. loaded s' x} = A" using r(5) by (simp add: loaded_def same s'(6))
  moreover have "\<forall>x \<in> A. blob s' x = (T(j := patch_checksum (unat off) (unat st) (unat n) (T j))) x"
    using s'(2,3) r(5,6) files(2) by auto
  ultimately have "ready env ft b (Suc i) cs A (T(j := patch_checksum (unat off) (unat st) (unat n) (T j))) s'"
    using s'(4,6,7) r same by (intro ready_next [OF ready]) simp_all
  moreover have "took env ft [Checksum f off st n] s s'" using s'(7) by (simp add: took_def same)
  ultimately show ?thesis using s'(1) same(3) by (intro that)
qed

context fw_cfg_port
begin

lemma alloc_step:
  fixes s :: "'d machine"
  assumes ready: "ready env ft b i (Alloc f al z # cs) A T s" and name: "is_string name f"
    and files: "file_of ft f = Some j" "j < 20" "j \<notin> A" "power_of_two (min_align al)"
  obtains s' where "do_alloc env name al z s = Ret () s'" "\<forall>k \<in> A. file_address s' ! k = file_address s ! k"
    "took env ft [Alloc f al z] s s'"
    "ready env ft b (Suc i) cs (insert j A) (T(j := entry_bytes E (file_select (ft ! j)) 0 (size_of ft j))) s'"
proof -
  let ?n = "size_of ft j" and ?al = "unat (min_align al)"
  have r: "blobs_ok env s" "file_table s = ft" "unat (dma_desc env) + 16 \<le> b"
    "b + space ft False (Alloc f al z # cs) \<le> unat (malloc_top s)"
    "unat (fseg_base s) + space ft True (Alloc f al z # cs) \<le> 2 ^ 32" "{j. loaded s j} = A" "\<forall>j \<in> A. blob s j = T j"
    using ready unfolding ready_def by blast+
  have id: "fw_cfg_file_id name s = of_nat j" "j < length (file_table s)"
    using file_id_of [of name f s j] name files(1) r(2) by simp_all
  have n: "file_len s j = ?n" "unat (file_size (file_table s ! j)) = ?n" by (simp_all add: file_len_def size_of_def r(2))
  have sp: "b + (if z = ALLOC_FSEG then 0 else ?n + ?al) + space ft False cs \<le> unat (malloc_top s)"
    "unat (fseg_base s) + (if z = ALLOC_FSEG then ?n + ?al else 0) + space ft True cs \<le> 2 ^ 32"
    using r(4,5) files(1) by (simp_all split: if_splits)
  then have room: "alloc_room env s z al (file_size (file_table s ! j))"
    using files(4) r(3) by (simp add: alloc_room_def fseg_fits_def n split: if_splits)
  from do_alloc_loads [OF r(1) id(1) files(2) id(2) room] obtain s' where
    s': "do_alloc env name al z s = Ret () s'" "blobs_ok env s'" "loaded s' j"
    "blob s' j = entry_bytes E (file_select (file_table s ! j)) 0 (file_len s j)"
    "\<forall>k. k \<noteq> j \<longrightarrow> loaded s' k = loaded s k \<and> (loaded s k \<longrightarrow> blob s' k = blob s k)" "file_table s' = file_table s"
    "used z (file_len s j + ?al) s s'" "\<forall>k. k \<noteq> j \<longrightarrow> file_address s' ! k = file_address s ! k"
    "\<forall>a. unat a < unat (malloc_top s') \<longrightarrow> \<not> inside a (dma_desc env) 16 \<longrightarrow> mem s' a = mem s a"
    by blast
  have left: "b + space ft False cs \<le> unat (malloc_top s')" "unat (fseg_base s') + space ft True cs \<le> 2 ^ 32"
    using s'(7) sp by (auto simp: used_def n split: if_splits)
  have "{k. loaded s' k} = insert j A" using s'(3,5) r(6) by auto
  moreover have "\<forall>k \<in> insert j A. blob s' k = (T(j := entry_bytes E (file_select (ft ! j)) 0 ?n)) k"
    using s'(4,5) r(2,6,7) n by auto
  ultimately have "ready env ft b (Suc i) cs (insert j A) (T(j := entry_bytes E (file_select (ft ! j)) 0 ?n)) s'"
    using s'(2,6,9) r(2) left by (intro ready_next [OF ready]) simp_all
  moreover have "\<forall>k \<in> A. file_address s' ! k = file_address s ! k" using s'(8) files(3) by auto
  moreover have "took env ft [Alloc f al z] s s'" using s'(7,9) files(1) n(1) by (auto simp: took_def used_def split: if_splits)
  ultimately show ?thesis using s'(1) by (intro that)
qed

text \<open>What a script has done when it is over.\<close>

definition followed :: "fw_cfg_file list \<Rightarrow> loader_cmd list \<Rightarrow> nat set \<Rightarrow> (nat \<Rightarrow> u8 list) \<Rightarrow> 'd machine \<Rightarrow> 'd machine \<Rightarrow> bool" where
  "followed ft cs A T s s' \<longleftrightarrow> blobs_ok env s' \<and> file_table s' = ft \<and> {j. loaded s' j} = A \<union> allocated ft cs \<and>
     (\<forall>j \<in> A. file_address s' ! j = file_address s ! j) \<and>
     (\<forall>j \<in> A \<union> allocated ft cs. blob s' j = exec ft E (\<lambda>j. file_address s' ! j) cs T j)"

lemma loader_loop_script:
  assumes "ready env ft b i cs A T s" and "well_formed ft A cs" and "length cs \<le> k" "length cs = k \<or> Quit \<in> set cs"
  shows "\<exists>s'. loader_loop env i k s = Ret () s' \<and> followed ft cs A T s s' \<and> took env ft cs s s'"
  using assms
proof (induction cs arbitrary: i k A T s)
  case Nil
  then show ?case by (auto simp: followed_def ready_def took_refl)
next
  case (Cons c cs)
  then obtain k' where k: "k = Suc k'" by (cases k) auto
  have len: "length cs \<le> k'" "c \<noteq> Quit \<Longrightarrow> length cs = k' \<or> Quit \<in> set cs" using Cons.prems(3,4) k by auto
  have "dec_cmd (load_bytes (mem s) (loader_script env + 128 * of_nat i) 128) = Some c"
    using Cons.prems(1) by (auto simp: ready_def)
  then obtain name other where step: "case c of Quit \<Rightarrow> loader_loop env i (Suc k') s = Ret () s
     | Alloc f al z \<Rightarrow> is_string name f \<and> loader_loop env i (Suc k') s = andthen (do_alloc env name al z) (loader_loop env (Suc i) k') s
     | Ptr d e off w \<Rightarrow> is_string name d \<and> is_string other e \<and>
         loader_loop env i (Suc k') s = andthen (do_ptr name other off w) (loader_loop env (Suc i) k') s
     | Checksum f off st n \<Rightarrow> is_string name f \<and>
         loader_loop env i (Suc k') s = andthen (do_checksum name off st n) (loader_loop env (Suc i) k') s"
    by (rule loader_loop_cmd)
  show ?case
  proof (cases c)
    case Quit
    then show ?thesis using step Cons.prems(1) by (auto simp: k followed_def ready_def took_refl)
  next
    case (Alloc f al z)
    then obtain j where j: "file_of ft f = Some j" "j < 20" "j \<notin> A" "power_of_two (min_align al)" "well_formed ft (insert j A) cs"
      using Cons.prems(2) by (auto split: option.splits)
    obtain s1 where s1: "do_alloc env name al z s = Ret () s1" "\<forall>k \<in> A. file_address s1 ! k = file_address s ! k"
      "took env ft [Alloc f al z] s s1" "ready env ft b (Suc i) cs (insert j A) (T(j := entry_bytes E (file_select (ft ! j)) 0 (size_of ft j))) s1"
      by (rule alloc_step [OF Cons.prems(1) [unfolded Alloc] _ j(1-4)]) (use step Alloc in auto)
    obtain s' where "loader_loop env (Suc i) k' s1 = Ret () s'"
      "followed ft cs (insert j A) (T(j := entry_bytes E (file_select (ft ! j)) 0 (size_of ft j))) s1 s'" "took env ft cs s1 s'"
      using Cons.IH [OF s1(4) j(5) len(1)] len(2) Alloc by blast
    then show ?thesis using step s1(1,2) j(1) took_Cons [OF s1(3)] by (auto simp: Alloc k andthen_apply followed_def)
  next
    case (Ptr d e off w)
    then obtain j l where j: "file_of ft d = Some j" "file_of ft e = Some l" "j \<in> A" "l \<in> A" "unat off + unat w \<le> size_of ft j"
      "unat w \<le> 8" "well_formed ft A cs"
      using Cons.prems(2) by (auto split: option.splits)
    obtain s1 where s1: "do_ptr name other off w s = Ret () s1" "file_address s1 = file_address s"
      "took env ft [Ptr d e off w] s s1" "ready env ft b (Suc i) cs A (T(j := patch_pointer (unat off) (unat w) (file_address s ! l) (T j))) s1"
      by (rule ptr_step [OF Cons.prems(1) [unfolded Ptr] _ _ j(1-6)]) (use step Ptr in auto)
    obtain s' where "loader_loop env (Suc i) k' s1 = Ret () s'"
      "followed ft cs A (T(j := patch_pointer (unat off) (unat w) (file_address s ! l) (T j))) s1 s'" "took env ft cs s1 s'"
      using Cons.IH [OF s1(4) j(7) len(1)] len(2) Ptr by blast
    then show ?thesis using step s1(1,2) j(1-4) took_Cons [OF s1(3)] by (auto simp: Ptr k andthen_apply followed_def)
  next
    case (Checksum f off st n)
    then obtain j where j: "file_of ft f = Some j" "j \<in> A" "unat off < size_of ft j" "unat st + unat n \<le> size_of ft j"
      "well_formed ft A cs"
      using Cons.prems(2) by (auto split: option.splits)
    obtain s1 where s1: "do_checksum name off st n s = Ret () s1" "file_address s1 = file_address s"
      "took env ft [Checksum f off st n] s s1" "ready env ft b (Suc i) cs A (T(j := patch_checksum (unat off) (unat st) (unat n) (T j))) s1"
      by (rule checksum_step [OF Cons.prems(1) [unfolded Checksum] _ j(1-4)]) (use step Checksum in auto)
    obtain s' where "loader_loop env (Suc i) k' s1 = Ret () s'"
      "followed ft cs A (T(j := patch_checksum (unat off) (unat st) (unat n) (T j))) s1 s'" "took env ft cs s1 s'"
      using Cons.IH [OF s1(4) j(5) len(1)] len(2) Checksum by blast
    then show ?thesis using step s1(1,2) j(1) took_Cons [OF s1(3)] by (auto simp: Checksum k andthen_apply followed_def)
  qed
qed

end

lemma nth_pieces: "i < n \<Longrightarrow> pieces w n xs ! i = take w (drop (w * i) xs)"
proof (induction n arbitrary: i xs)
  case (Suc n)
  then show ?case by (cases i) (simp_all add: add.commute)
qed simp

lemma length_pieces [simp]: "length (pieces w n xs) = n"
  by (induction n arbitrary: xs) simp_all

text \<open>The commands in the bytes of a script, the last ones left out.\<close>

definition script_of :: "u8 list \<Rightarrow> loader_cmd list \<Rightarrow> bool" where
  "script_of bs cs \<longleftrightarrow> map Some cs = take (length cs) (map dec_cmd (pieces 128 (length bs div 128) bs)) \<and>
     (length cs = length bs div 128 \<or> Quit \<in> set cs)"

lemma script_of_nth:
  assumes "script_of bs cs"
  shows "length cs \<le> length bs div 128" "j < length cs \<Longrightarrow> dec_cmd (take 128 (drop (128 * j) bs)) = Some (cs ! j)"
proof -
  have eq: "map Some cs = take (length cs) (map dec_cmd (pieces 128 (length bs div 128) bs))"
    using assms by (simp add: script_of_def)
  from arg_cong [OF eq, of length] show le: "length cs \<le> length bs div 128" by simp
  show "dec_cmd (take 128 (drop (128 * j) bs)) = Some (cs ! j)" if "j < length cs"
    using arg_cong [OF eq, of "\<lambda>xs. xs ! j"] that le by (simp add: nth_pieces)
qed

context fw_cfg_port
begin

lemma script_read:
  fixes s :: "'d machine"
  assumes ok: "blobs_ok env s" "file_address s = replicate 20 0"
    and l: "l < length (file_table s)" "unat n = size_of (file_table s) l"
    and script: "script_of (entry_bytes E (file_select (file_table s ! l)) 0 (unat n)) cs"
    and place: "unat (loader_script env) + unat n \<le> b" "unat (dma_desc env) + 16 \<le> b"
      "apart (dma_desc env) 16 (loader_script env) (unat n)"
    and room: "b + space (file_table s) False cs \<le> unat (malloc_top s)" "unat (fseg_base s) + space (file_table s) True cs \<le> 2 ^ 32"
  obtains s' where "fw_cfg_read_file env (of_nat l) (loader_script env) n s = Ret () s'"
    "ready env (file_table s) b 0 cs {} (\<lambda>_. []) s'" "malloc_top s' = malloc_top s" "fseg_base s' = fseg_base s"
    "\<And>a. \<not> inside a (dma_desc env) 16 \<Longrightarrow> \<not> inside a (loader_script env) (unat n) \<Longrightarrow> mem s' a = mem s a"
proof -
  let ?C = "loader_script env" and ?bs = "entry_bytes E (file_select (file_table s ! l)) 0 (unat n)"
  have n32: "unat n \<le> 2 ^ 32" using unat_bound [of n] by simp
  have dma: "apart ?C (unat n) (dma_desc env) 16" using place(3) by (simp add: apart_commute)
  obtain s' where s': "fw_cfg_read_file env (of_nat l) ?C n s = Ret () s'" "delivered env ?C ?bs s s'"
    using fw_cfg_read_file_delivers [OF l(1) dma] by blast
  obtain m d where m: "s' = s\<lparr>mem := m, dev := d\<rparr>"
    "\<And>a. \<not> inside a (dma_desc env) 16 \<Longrightarrow> m a = store_bytes (mem s) ?C ?bs a"
    using s'(2) by (rule deliveredE) (rule that)
  have "load_bytes m ?C (unat n) = load_bytes (store_bytes (mem s) ?C ?bs) ?C (unat n)"
    using place(3) by (intro load_bytes_cong m(2)) (simp add: apart_not_inside)
  then have bytes: "load_bytes m ?C (unat n) = ?bs" using n32 by (simp add: load_store_same)
  have high: "m a = mem s a" if "b \<le> unat a" for a
  proof -
    have "\<not> inside a (dma_desc env) 16" "\<not> inside a ?C (unat n)"
      using that place unat_bound [of a] inside_interval [of "dma_desc env" 16 a] inside_interval [of ?C "unat n" a] by simp_all
    then show ?thesis using m(2) n32 by (simp add: store_bytes_outside [where n = "unat n"])
  qed
  have dir: "between s (files s) (64 * length (file_table s))" using ok(1) by (simp add: blobs_ok_def)
  have d32: "unat (files s) + 64 * length (file_table s) \<le> 2 ^ 32" using between_bound [OF dir] by simp
  have table: "file_table s' = file_table s"
  proof (rule table_unchanged)
    fix a assume "inside a (files s) (64 * length (file_table s))"
    then have "b \<le> unat a" using inside_interval [OF d32, of a] dir room(1) by (simp add: between_def)
    then show "mem s' a = mem s a" by (simp add: m(1) high)
  qed (use d32 in \<open>simp_all add: m(1)\<close>)
  note nth = script_of_nth [OF script, simplified]
  have "dec_cmd (load_bytes m (?C + 128 * of_nat j) 128) = Some (cs ! j)" if "j < length cs" for j
  proof -
    have "128 * j + 128 \<le> 128 * length cs" using that by simp
    also have "\<dots> \<le> unat n" using nth(1) by (metis dual_order.trans mult.commute mult_le_mono1 times_div_less_eq_dividend)
    finally have "load_bytes m (?C + of_nat (128 * j)) 128 = take 128 (drop (128 * j) ?bs)"
      unfolding bytes [symmetric] by (rule load_bytes_sub)
    then show ?thesis using nth(2) [OF that] by simp
  qed
  moreover have "128 * length cs \<le> unat n" using nth(1) by (metis dual_order.trans mult.commute mult_le_mono1 times_div_less_eq_dividend)
  then have "unat ?C + 128 * length cs \<le> b" "apart (dma_desc env) 16 ?C (128 * length cs)"
    using place apart_mono by (auto simp: apart_commute)
  moreover have "{j. loaded s' j} = {}" using ok(2) by (auto simp: loaded_def m(1))
  moreover have "blobs_ok env s'" by (rule blobs_ok_mem [OF ok(1) m(1) table])
  ultimately have "ready env (file_table s) b 0 cs {} (\<lambda>_. []) s'"
    using table place(2) room by (simp add: ready_def m(1))
  moreover have "mem s' a = mem s a" if "\<not> inside a (dma_desc env) 16" "\<not> inside a ?C (unat n)" for a
    using m(2) that n32 by (simp add: m(1) store_bytes_outside [where n = "unat n"])
  ultimately show ?thesis using s'(1) by (intro that [of s']) (simp_all add: m(1))
qed

end

section \<open>The loader implements its scripts\<close>

lemma extract_acpi_follows:
  fixes s :: "'d machine"
  assumes "fw_cfg_device env sel off E" and ok: "blobs_ok env s" "file_address s = replicate 20 0" and ft: "ft = file_table s"
    and l: "file_of ft (chars ''etc/table-loader'') = Some l" "n = size_of ft l"
    and script: "script_of (entry_bytes E (file_select (ft ! l)) 0 n) cs" "well_formed ft {} cs"
    and place: "unat (loader_script env) + n \<le> b" "unat (dma_desc env) + 16 \<le> b" "apart (dma_desc env) 16 (loader_script env) n"
    and room: "b + space ft False cs \<le> unat (malloc_top s)" "unat (fseg_base s) + space ft True cs \<le> 2 ^ 32"
  shows "\<exists>s'. extract_acpi env s = Ret () s' \<and> fw_cfg_port.followed env E ft cs {} (\<lambda>_. []) s s' \<and>
    unat (malloc_top s') \<le> unat (malloc_top s) \<and> unat (malloc_top s) \<le> unat (malloc_top s') + space ft False cs \<and>
    unat (fseg_base s) \<le> unat (fseg_base s') \<and> unat (fseg_base s') \<le> unat (fseg_base s) + space ft True cs \<and>
    (\<forall>a. unat a < unat (malloc_top s') \<longrightarrow> \<not> inside a (dma_desc env) 16 \<longrightarrow> \<not> inside a (loader_script env) n \<longrightarrow> mem s' a = mem s a)"
proof -
  note port = fw_cfg_port.intro [OF assms(1)]
  let ?N = "file_size (file_table s ! l)"
  have str: "is_string (literal ''etc/table-loader'') (chars ''etc/table-loader'')"
    unfolding chars_def by (rule is_string_literal) simp
  have id: "fw_cfg_file_id (literal ''etc/table-loader'') s = of_nat l" "l < length (file_table s)"
    using file_id_of [OF str, of s l] l(1) ft by simp_all
  have size: "fw_cfg_file_size (of_nat l) s = ?N" "unat ?N = n"
    using fw_cfg_file_size_entry [OF id(2)] l(2) ft by (simp_all add: size_of_def)
  have len: "length cs \<le> n div 128" "length cs = n div 128 \<or> Quit \<in> set cs"
    using script_of_nth(1) [OF script(1)] script(1) by (simp_all add: script_of_def)
  show ?thesis
  proof (cases "n = 0")
    case True
    then have "?N = 0" using size(2) by (simp add: unat_eq_zero)
    then have "extract_acpi env s = Ret () s" by (simp add: extract_acpi_def prog_simps Let_def id(1) size(1))
    moreover have "cs = []" using len(1) True by simp
    ultimately show ?thesis using ok ft by (auto simp: fw_cfg_port.followed_def [OF port] loaded_def)
  next
    case False
    then have "?N \<noteq> 0" using size(2) by auto
    obtain s1 where s1: "fw_cfg_read_file env (of_nat l) (loader_script env) ?N s = Ret () s1"
      "ready env ft b 0 cs {} (\<lambda>_. []) s1" "malloc_top s1 = malloc_top s" "fseg_base s1 = fseg_base s"
      "\<And>a. \<not> inside a (dma_desc env) 16 \<Longrightarrow> \<not> inside a (loader_script env) n \<Longrightarrow> mem s1 a = mem s a"
      by (rule fw_cfg_port.script_read [OF port ok id(2), where n = "?N", unfolded size(2), folded ft, OF l(2) script(1) place room])
        (rule that [folded ft]; assumption)
    obtain s' where s': "loader_loop env 0 (n div 128) s1 = Ret () s'" "fw_cfg_port.followed env E ft cs {} (\<lambda>_. []) s1 s'" "took env ft cs s1 s'"
      using fw_cfg_port.loader_loop_script [OF port s1(2) _ len] script(2) ft by auto
    have "extract_acpi env s = Ret () s'"
      using \<open>?N \<noteq> 0\<close> s'(1) by (simp add: extract_acpi_def prog_simps Let_def id(1) size(1) s1(1) unat_div size(2))
    then show ?thesis using s'(2,3) s1(3-5) by (auto simp: fw_cfg_port.followed_def [OF port] took_def)
  qed
qed

text \<open>
  C7: The linker/loader. When the device offers a script, and its commands, up to the one that ends it, load files of
  the directory before they use them, once each and within the space there is, and stay inside them, then
  extract_acpi returns; exactly the files that the script loads are in memory, at places that do not meet, and
  their contents are what the commands, applied in their order to the contents on the device and to the addresses
  the files were given, make of them.
\<close>

theorem acpi_script_followed:
  fixes s :: "'d machine"
  assumes "fw_cfg_device env sel off E" and ok: "blobs_ok env s" "file_address s = replicate 20 0" and ft: "ft = file_table s"
    and l: "file_of ft (chars ''etc/table-loader'') = Some l" "n = size_of ft l"
    and script: "script_of (entry_bytes E (file_select (ft ! l)) 0 n) cs" "well_formed ft {} cs"
    and place: "unat (loader_script env) + n \<le> b" "unat (dma_desc env) + 16 \<le> b" "apart (dma_desc env) 16 (loader_script env) n"
    and room: "b + space ft False cs \<le> unat (malloc_top s)" "unat (fseg_base s) + space ft True cs \<le> 2 ^ 32"
  shows "\<exists>s'. extract_acpi env s = Ret () s' \<and> blobs_ok env s' \<and> {j. loaded s' j} = allocated ft cs \<and>
    (\<forall>j \<in> allocated ft cs. blob s' j = exec ft E (\<lambda>j. file_address s' ! j) cs (\<lambda>_. []) j)"
  using extract_acpi_follows [OF assms] by (auto simp: fw_cfg_port.followed_def [OF fw_cfg_port.intro [OF assms(1)]])

text \<open>The root pointer in the F-segment, one table on the heap, a pointer from one to the other, a checksum.\<close>

definition demo_cmds :: "loader_cmd list" where
  "demo_cmds = [Alloc (chars ''etc/acpi/rsdp'') 16 2, Alloc (chars ''etc/acpi/tables'') 64 1,
     Ptr (chars ''etc/acpi/rsdp'') (chars ''etc/acpi/tables'') 16 4, Checksum (chars ''etc/acpi/rsdp'') 8 0 20]"

definition name_bytes :: "string \<Rightarrow> u8 list" where
  "name_bytes cs = chars cs @ replicate (56 - length cs) 0"

definition demo_script :: "u8 list" where
  "demo_script =
     (le_bytes 4 (1 :: u32) @ name_bytes ''etc/acpi/rsdp'' @ le_bytes 4 (16 :: u32) @ [2] @ replicate 63 0) @
     (le_bytes 4 (1 :: u32) @ name_bytes ''etc/acpi/tables'' @ le_bytes 4 (64 :: u32) @ [1] @ replicate 63 0) @
     (le_bytes 4 (2 :: u32) @ name_bytes ''etc/acpi/rsdp'' @ name_bytes ''etc/acpi/tables'' @ le_bytes 4 (16 :: u32) @ [4] @ replicate 7 0) @
     (le_bytes 4 (3 :: u32) @ name_bytes ''etc/acpi/rsdp'' @ le_bytes 4 (8 :: u32) @ le_bytes 4 (0 :: u32) @ le_bytes 4 (20 :: u32)
       @ replicate 56 0)"

definition demo_files :: "(string \<times> u8 list) list" where
  "demo_files = demo_acpi @ [(''etc/table-loader'', demo_script)]"

lemma demo_script_cmds: "length demo_script = 512" "script_of demo_script demo_cmds"
  by code_simp+

lemma demo_files_good: "good_files demo_files"
  using demo_acpi_good by (auto simp: good_files_def demo_files_def demo_script_cmds demo_acpi_def chars_def)

lemma demo_files_table:
  "file_of (file_table (loaded_machine demo_files)) (chars ''etc/acpi/rsdp'') = Some 0"
  "file_of (file_table (loaded_machine demo_files)) (chars ''etc/acpi/tables'') = Some 1"
  "file_of (file_table (loaded_machine demo_files)) (chars ''etc/table-loader'') = Some 2"
  "size_of (file_table (loaded_machine demo_files)) 0 = 20" "size_of (file_table (loaded_machine demo_files)) (Suc 0) = 4"
  "size_of (file_table (loaded_machine demo_files)) 2 = 512"
proof -
  have k: "length demo_files = 3" "fst (demo_files ! 0) = ''etc/acpi/rsdp''" "fst (demo_files ! 1) = ''etc/acpi/tables''"
    "fst (demo_files ! 2) = ''etc/table-loader''" "length (snd (demo_files ! 0)) = 20" "length (snd (demo_files ! 1)) = 4"
    "length (snd (demo_files ! 2)) = 512"
    by (simp_all add: demo_files_def demo_acpi_def demo_script_cmds chars_def)
  note table = loaded_file_table [OF demo_files_good]
  show "file_of (file_table (loaded_machine demo_files)) (chars ''etc/acpi/rsdp'') = Some 0"
    unfolding file_of_def by (rule loaded_file_index [OF demo_files_good]) (use k in simp_all)
  show "file_of (file_table (loaded_machine demo_files)) (chars ''etc/acpi/tables'') = Some 1"
    unfolding file_of_def by (rule loaded_file_index [OF demo_files_good]) (use k in \<open>simp_all add: less_Suc_eq\<close>)
  show "file_of (file_table (loaded_machine demo_files)) (chars ''etc/table-loader'') = Some 2"
    unfolding file_of_def by (rule loaded_file_index [OF demo_files_good]) (use k in \<open>simp_all add: less_2_cases_iff\<close>)
  show "size_of (file_table (loaded_machine demo_files)) 0 = 20" "size_of (file_table (loaded_machine demo_files)) (Suc 0) = 4"
    "size_of (file_table (loaded_machine demo_files)) 2 = 512"
    using make_dir_entry(1) [OF demo_files_good] k by (simp_all add: size_of_def table)
qed

theorem acpi_script_followed_witness:
  "\<exists>s'. extract_acpi (ref_env (contents demo_files)) (loaded_machine demo_files) = Ret () s' \<and> {j. loaded s' j} = {0, 1} \<and>
     sum_list (take 20 (blob s' 0)) = 0 \<and> blob s' 1 = [1, 2, 3, 4]"
proof -
  let ?s = "loaded_machine demo_files" and ?E = "contents demo_files"
  let ?ft = "file_table ?s"
  note table = loaded_file_table [OF demo_files_good]
  have k: "length demo_files = 3" "snd (demo_files ! 2) = demo_script" "length (snd (demo_files ! 1)) = 4"
    "snd (demo_files ! 1) = [1, 2, 3, 4]"
    by (simp_all add: demo_files_def demo_acpi_def)
  have entry: "entry_bytes ?E (file_select (?ft ! 2)) 0 512 = demo_script" "entry_bytes ?E (file_select (?ft ! Suc 0)) 0 4 = [1, 2, 3, 4]"
    using make_dir_entry(2) [OF demo_files_good, of 2] make_dir_entry(2) [OF demo_files_good, of 1, unfolded k(3)] k(1,2,4)
      demo_script_cmds(1)
    by (simp_all add: table)
  have fields: "malloc_top ?s = 0xf0000" "fseg_base ?s = 0xf80c0" "file_address ?s = replicate 20 0" "files ?s = 0xf8000"
    by (simp_all add: loaded_machine_def boot_machine_def k)
  have "length ?ft = 3" by (simp add: table k)
  have ok: "blobs_ok (ref_env ?E) ?s"
    using fields \<open>length ?ft = 3\<close> by (auto simp: blobs_ok_def between_def loaded_def apart_def)
  have sizes: "space ?ft False demo_cmds = 68" "space ?ft True demo_cmds = 36"
    by (simp_all add: demo_cmds_def demo_files_table min_align_def)
  have "power_of_two 64" unfolding power_of_two_def by (rule exI [of _ 6]) simp
  then have wf: "well_formed ?ft {} demo_cmds"
    by (simp add: demo_cmds_def demo_files_table min_align_def)
  have script: "script_of (entry_bytes ?E (file_select (?ft ! 2)) 0 512) demo_cmds" unfolding entry by (rule demo_script_cmds)
  have place: "unat (loader_script (ref_env ?E)) + 512 \<le> 0x8000" "unat (dma_desc (ref_env ?E)) + 16 \<le> 0x8000"
    "apart (dma_desc (ref_env ?E)) 16 (loader_script (ref_env ?E)) 512" by (simp_all add: apart_def)
  have room: "0x8000 + space ?ft False demo_cmds \<le> unat (malloc_top ?s)" "unat (fseg_base ?s) + space ?ft True demo_cmds \<le> 2 ^ 32"
    unfolding sizes fields by simp_all
  have "allocated ?ft demo_cmds = {0, 1}" by (auto simp: demo_cmds_def demo_files_table)
  with acpi_script_followed [OF ref_device ok fields(3) refl demo_files_table(3) demo_files_table(6) [symmetric] script wf place room]
  obtain s' where s': "extract_acpi (ref_env ?E) ?s = Ret () s'" "{j. loaded s' j} = {0, 1}"
    "blob s' 0 = exec ?ft ?E (\<lambda>j. file_address s' ! j) demo_cmds (\<lambda>_. []) 0"
    "blob s' 1 = exec ?ft ?E (\<lambda>j. file_address s' ! j) demo_cmds (\<lambda>_. []) 1" by auto
  then have "sum_list (take 20 (drop 0 (blob s' 0))) = 0" "blob s' 1 = [1, 2, 3, 4]"
    by (simp_all add: demo_cmds_def demo_files_table entry)
       (use patch_checksum_sum [of 0 8 20] in \<open>simp add: patch_pointer_def\<close>)
  then show ?thesis using s' by auto
qed

end
