(* ===== verification/Pcispec.thy ===== *)
theory Pcispec
  imports Pci
begin

text \<open>
  What the PCI code promises on a platform with configuration mechanism 1: the interface \<open>pci_port\<close>, its
  instance on the reference platform, and the properties of configuration access and interrupt routing,
  the facts about the host bridge and the BIOS32 header.
\<close>

section \<open>Configuration mechanism 1\<close>

text \<open>
  The documented behaviour of the host bridge: CONFIG_ADDRESS is latched by a 32-bit write to 0xcf8; as long as
  its bit 31 is set, the four bytes at 0xcfc are the register it names. Without that bit an access to 0xcfc is an
  ordinary access to a port, of which nothing is promised. \<open>space d\<close> is configuration space, a byte at each
  address; \<open>wr r old v\<close> is what a write of \<open>v\<close> makes of a register \<open>r\<close> that reads \<open>old\<close>. This is a matter of single bits: of
  some the register takes the new value, others are read-only or are cleared by writing a 1.
\<close>

definition latch_reg :: "u32 \<Rightarrow> u32" where
  "latch_reg v = v AND 0xfffffc"

definition cfg_write :: "(u32 \<Rightarrow> u8 \<Rightarrow> u8 \<Rightarrow> u8) \<Rightarrow> u32 \<Rightarrow> u8 list \<Rightarrow> (u32 \<Rightarrow> u8) \<Rightarrow> (u32 \<Rightarrow> u8)" where
  "cfg_write wr r bs sp = (\<lambda>a. if inside a r (length bs) then wr a (sp a) (store_bytes sp r bs a) else sp a)"

text \<open>Register \<open>r\<close> takes what is written to it in \<open>bits\<close>.\<close>

definition takes :: "(u32 \<Rightarrow> u8 \<Rightarrow> u8 \<Rightarrow> u8) \<Rightarrow> u32 \<Rightarrow> u8 \<Rightarrow> bool" where
  "takes wr r bits \<longleftrightarrow> (\<forall>old v. wr r old v AND bits = v AND bits)"

lemma takes_all: "takes wr r 0xff \<longleftrightarrow> (\<forall>old v. wr r old v = v)"
proof -
  have all: "(0xff :: u8) = mask 8" by (simp add: mask_eq_exp_minus_1)
  have "x AND 0xff = x" for x :: u8 unfolding all by (rule bit_word_eqI) (simp add: bit_simps)
  then show ?thesis by (simp add: takes_def)
qed

lemma takes_byte: "takes wr r 0xff \<Longrightarrow> wr r old v = v"
  by (simp add: takes_all)

lemma takes_plain [simp]: "takes (\<lambda>_ _ v. v) r bits"
  by (simp add: takes_def)

definition same_config :: "('d \<Rightarrow> u32) \<Rightarrow> ('d \<Rightarrow> u32 \<Rightarrow> u8) \<Rightarrow> 'd \<Rightarrow> 'd \<Rightarrow> bool" where
  "same_config latch space d d' \<longleftrightarrow> latch d' = latch d \<and> space d' = space d"

definition pci_latch :: "'d env \<Rightarrow> ('d \<Rightarrow> u32) \<Rightarrow> ('d \<Rightarrow> u32 \<Rightarrow> u8) \<Rightarrow> bool" where
  "pci_latch env latch space \<longleftrightarrow>
     (\<forall>v m d. let (m', d') = io_outl env 0xcf8 v (m, d) in m' = m \<and> latch d' = v \<and> space d' = space d)"

definition pci_reads :: "'d env \<Rightarrow> ('d \<Rightarrow> u32) \<Rightarrow> ('d \<Rightarrow> u32 \<Rightarrow> u8) \<Rightarrow> bool" where
  "pci_reads env latch space \<longleftrightarrow>
     (\<forall>d k. bit (latch d) 31 \<longrightarrow> k < 4 \<longrightarrow> (let (v, d') = io_inb env (0xcfc + k) d in
        v = space d (latch_reg (latch d) + ucast k) \<and> same_config latch space d d')) \<and>
     (\<forall>d k. bit (latch d) 31 \<longrightarrow> k = 0 \<or> k = 2 \<longrightarrow> (let (v, d') = io_inw env (0xcfc + k) d in
        v = le_word (load_bytes (space d) (latch_reg (latch d) + ucast k) 2) \<and> same_config latch space d d')) \<and>
     (\<forall>d. bit (latch d) 31 \<longrightarrow> (let (v, d') = io_inl env 0xcfc d in
        v = le_word (load_bytes (space d) (latch_reg (latch d)) 4) \<and> same_config latch space d d'))"

definition pci_writes :: "'d env \<Rightarrow> ('d \<Rightarrow> u32) \<Rightarrow> ('d \<Rightarrow> u32 \<Rightarrow> u8) \<Rightarrow> (u32 \<Rightarrow> u8 \<Rightarrow> u8 \<Rightarrow> u8) \<Rightarrow> bool" where
  "pci_writes env latch space wr \<longleftrightarrow>
     (\<forall>m d v k. bit (latch d) 31 \<longrightarrow> k < 4 \<longrightarrow> (let (m', d') = io_outb env (0xcfc + k) v (m, d) in
        m' = m \<and> space d' = cfg_write wr (latch_reg (latch d) + ucast k) [v] (space d))) \<and>
     (\<forall>m d v k. bit (latch d) 31 \<longrightarrow> k = 0 \<or> k = 2 \<longrightarrow> (let (m', d') = io_outw env (0xcfc + k) v (m, d) in
        m' = m \<and> space d' = cfg_write wr (latch_reg (latch d) + ucast k) (le_bytes 2 v) (space d))) \<and>
     (\<forall>m d v. bit (latch d) 31 \<longrightarrow> (let (m', d') = io_outl env 0xcfc v (m, d) in
        m' = m \<and> space d' = cfg_write wr (latch_reg (latch d)) (le_bytes 4 v) (space d)))"

definition pci_device :: "'d env \<Rightarrow> ('d \<Rightarrow> u32) \<Rightarrow> ('d \<Rightarrow> u32 \<Rightarrow> u8) \<Rightarrow> (u32 \<Rightarrow> u8 \<Rightarrow> u8 \<Rightarrow> u8) \<Rightarrow> bool" where
  "pci_device env latch space wr \<longleftrightarrow>
     pci_latch env latch space \<and> pci_reads env latch space \<and> pci_writes env latch space wr"

text \<open>Register \<open>a\<close> of function \<open>bdf\<close>.\<close>

definition pci_reg :: "u16 \<Rightarrow> u32 \<Rightarrow> u32" where
  "pci_reg bdf a = push_bit 8 (ucast bdf) + (a AND 0xff)"

lemma mask_lits: "(0xff :: u32) = mask 8" "(0xfc :: u32) = push_bit 2 (mask 6)" "(0xfffffc :: u32) = push_bit 2 (mask 22)"
  "(3 :: u32) = mask 2" "(2 :: u32) = push_bit 1 1"
  by (simp_all add: mask_eq_exp_minus_1)

lemma bit_top: "bit (0x80000000 :: int) n \<longleftrightarrow> n = 31"
proof -
  have "(0x80000000 :: int) = push_bit 31 1" by simp
  then show ?thesis by (simp only: bit_push_bit_iff bit_1_iff) auto
qed

lemma latch_reg_config: "latch_reg (pci_config_address bdf a) = pci_reg bdf (a AND 0xfc)"
proof -
  have "pci_reg bdf (a AND 0xfc) = push_bit 8 (ucast bdf) OR (a AND 0xfc)"
    unfolding pci_reg_def by (subst disjunctive_add) (auto simp: mask_lits bit_simps intro!: bit_word_eqI)
  moreover have "latch_reg (pci_config_address bdf a) = push_bit 8 (ucast bdf) OR (a AND 0xfc)"
    unfolding latch_reg_def pci_config_address_def mask_lits(1-5)
    by (rule bit_word_eqI) (auto simp: bit_simps bit_top dest: bit_imp_le_length)
  ultimately show ?thesis by simp
qed

lemma config_enabled: "bit (pci_config_address bdf a) 31"
  by (simp add: pci_config_address_def bit_simps bit_top)

lemma pci_reg_low: "pci_reg bdf (a AND 0xfc) + (a AND 3) = pci_reg bdf a"
proof -
  have "(a AND 0xfc) + (a AND 3) = a AND 0xff"
    by (subst disjunctive_add) (auto simp: mask_lits bit_simps intro!: bit_word_eqI)
  moreover have "(a AND 0xfc) AND 0xff = a AND 0xfc"
    by (rule bit_word_eqI) (auto simp: mask_lits bit_simps)
  ultimately show ?thesis by (simp add: pci_reg_def add.assoc)
qed

lemma ucast_and_low: "ucast (ucast (a AND 3 :: u32) :: u16) = a AND 3" "ucast (ucast (a AND 2 :: u32) :: u16) = a AND 2"
  unfolding mask_lits(4,5) by (rule bit_word_eqI, auto simp: bit_simps)+

lemma data_port_b: "0xcfc OR ucast (a AND 3 :: u32) = (0xcfc + ucast (a AND 3) :: u16)" "(ucast (a AND 3 :: u32) :: u16) < 4"
proof -
  have low: "\<not> bit (0xcfc :: u16) 0" "\<not> bit (0xcfc :: u16) 1" by simp_all
  show "0xcfc OR ucast (a AND 3 :: u32) = (0xcfc + ucast (a AND 3) :: u16)"
  proof (rule disjunctive_add [symmetric])
    fix n
    show "\<not> bit (0xcfc :: u16) n \<or> \<not> bit (ucast (a AND 3) :: u16) n"
      using low unfolding mask_lits(4) by (cases "n = 0 \<or> n = 1") (auto simp: bit_simps)
  qed
  have "a AND 3 = take_bit 2 a" by (simp add: mask_lits(4) take_bit_eq_mask)
  then have "unat (a AND 3) = take_bit 2 (unat a)" by (simp only: unsigned_take_bit_eq)
  then have "unat (a AND 3) < 4" using take_bit_nat_less_exp [of 2 "unat a"] by simp
  then have "unat (ucast (a AND 3 :: u32) :: u16) < 4"
    by (simp add: unsigned_ucast_eq take_bit_nat_eq_self)
  then show "(ucast (a AND 3 :: u32) :: u16) < 4" by (simp add: word_less_nat_alt)
qed

lemma data_port_w: "0xcfc OR ucast (a AND 2 :: u32) = (0xcfc + ucast (a AND 2) :: u16)"
  "(ucast (a AND 2 :: u32) :: u16) = 0 \<or> (ucast (a AND 2 :: u32) :: u16) = 2"
proof -
  have "a AND 2 = (if bit a 1 then 2 else 0)"
    unfolding mask_lits(5) by (auto intro!: bit_word_eqI simp: bit_simps)
  then show "0xcfc OR ucast (a AND 2 :: u32) = (0xcfc + ucast (a AND 2) :: u16)"
    "(ucast (a AND 2 :: u32) :: u16) = 0 \<or> (ucast (a AND 2 :: u32) :: u16) = 2" by auto
qed

lemma pci_reg_word: "pci_reg bdf (a AND 0xfc) + (a AND 2) = pci_reg bdf (a AND 0xfe)"
proof -
  have fe: "bit (0xfe :: int) n \<longleftrightarrow> 1 \<le> n \<and> n < 8" for n
  proof -
    have "(0xfe :: int) = push_bit 1 (mask 7)" by (simp add: mask_eq_exp_minus_1)
    then show ?thesis by (simp only: bit_push_bit_iff bit_mask_iff) auto
  qed
  have "(a AND 0xfc) + (a AND 2) = a AND 0xfe"
    unfolding mask_lits(2,5) by (subst disjunctive_add) (auto simp: bit_simps fe intro!: bit_word_eqI)
  moreover have "(a AND 0xfc) AND 0xff = a AND 0xfc"
    unfolding mask_lits(1,2) by (rule bit_word_eqI) (auto simp: bit_simps)
  moreover have "(a AND 0xfe) AND 0xff = a AND 0xfe"
    unfolding mask_lits(1) by (rule bit_word_eqI) (auto simp: bit_simps fe)
  ultimately show ?thesis by (simp add: pci_reg_def add.assoc)
qed

locale pci_port =
  fixes env :: "'d env"
    and latch :: "'d \<Rightarrow> u32"
    and space :: "'d \<Rightarrow> u32 \<Rightarrow> u8"
    and wr :: "u32 \<Rightarrow> u8 \<Rightarrow> u8 \<Rightarrow> u8"
  assumes device: "pci_device env latch space wr"
begin

text \<open>The address is latched; nothing else is seen to change.\<close>

lemma latched:
  "\<exists>d. outl env 0xcf8 (pci_config_address bdf a) s = Ret () (s\<lparr>dev := d\<rparr>) \<and>
    bit (latch d) 31 \<and> latch_reg (latch d) = pci_reg bdf (a AND 0xfc) \<and> space d = space (dev s)"
proof -
  obtain m d where md: "io_outl env 0xcf8 (pci_config_address bdf a) (mem s, dev s) = (m, d)" by (rule prod.exhaust)
  have "\<forall>v m d. let (m', d') = io_outl env 0xcf8 v (m, d) in m' = m \<and> latch d' = v \<and> space d' = space d"
    using device by (simp add: pci_device_def pci_latch_def)
  then have "let (m', d') = io_outl env 0xcf8 (pci_config_address bdf a) (mem s, dev s)
      in m' = mem s \<and> latch d' = pci_config_address bdf a \<and> space d' = space (dev s)" by blast
  then have "m = mem s" "latch d = pci_config_address bdf a" "space d = space (dev s)" unfolding md by simp_all
  then show ?thesis using md by (intro exI [of _ d]) (simp add: outl_def latch_reg_config config_enabled)
qed

lemma via_latch:
  assumes "\<And>d. bit (latch d) 31 \<Longrightarrow> latch_reg (latch d) = pci_reg bdf (a AND 0xfc) \<Longrightarrow> space d = space (dev s) \<Longrightarrow>
    \<exists>d'. f (s\<lparr>dev := d\<rparr>) = Ret v (s\<lparr>dev := d'\<rparr>) \<and> space d' = sp"
  shows "\<exists>d'. andthen (outl env 0xcf8 (pci_config_address bdf a)) f s = Ret v (s\<lparr>dev := d'\<rparr>) \<and> space d' = sp"
proof -
  obtain d where d: "outl env 0xcf8 (pci_config_address bdf a) s = Ret () (s\<lparr>dev := d\<rparr>)"
    "bit (latch d) 31" "latch_reg (latch d) = pci_reg bdf (a AND 0xfc)" "space d = space (dev s)" using latched by blast
  show ?thesis unfolding andthen_apply d(1) outcome.case by (rule assms [OF d(2-4)])
qed

lemma readb:
  "\<exists>d. pci_config_readb env bdf a s = Ret (space (dev s) (pci_reg bdf a)) (s\<lparr>dev := d\<rparr>) \<and> space d = space (dev s)"
  unfolding pci_config_readb_def
proof (rule via_latch)
  fix d assume on: "bit (latch d) 31" and d: "latch_reg (latch d) = pci_reg bdf (a AND 0xfc)" "space d = space (dev s)"
  let ?k = "ucast (a AND 3) :: u16"
  have "let (v, d') = io_inb env (0xcfc + ?k) d in
      v = space d (latch_reg (latch d) + ucast ?k) \<and> same_config latch space d d'"
    using device data_port_b(2) on unfolding pci_device_def pci_reads_def by blast
  then show "\<exists>d'. inb env (0xcfc OR ?k) (s\<lparr>dev := d\<rparr>) = Ret (space (dev s) (pci_reg bdf a)) (s\<lparr>dev := d'\<rparr>) \<and>
      space d' = space (dev s)"
    unfolding data_port_b(1) ucast_and_low d pci_reg_low
    by (auto simp: inb_def same_config_def d(2) Let_def split: prod.splits)
qed

lemma readw:
  "\<exists>d. pci_config_readw env bdf a s
      = Ret (le_word (load_bytes (space (dev s)) (pci_reg bdf (a AND 0xfe)) 2)) (s\<lparr>dev := d\<rparr>) \<and>
    space d = space (dev s)"
  unfolding pci_config_readw_def
proof (rule via_latch)
  fix d assume on: "bit (latch d) 31" and d: "latch_reg (latch d) = pci_reg bdf (a AND 0xfc)" "space d = space (dev s)"
  let ?k = "ucast (a AND 2) :: u16"
  have "let (v, d') = io_inw env (0xcfc + ?k) d in
      v = le_word (load_bytes (space d) (latch_reg (latch d) + ucast ?k) 2) \<and> same_config latch space d d'"
    using device data_port_w(2) on unfolding pci_device_def pci_reads_def by blast
  then show "\<exists>d'. inw env (0xcfc OR ?k) (s\<lparr>dev := d\<rparr>)
      = Ret (le_word (load_bytes (space (dev s)) (pci_reg bdf (a AND 0xfe)) 2)) (s\<lparr>dev := d'\<rparr>) \<and>
      space d' = space (dev s)"
    unfolding data_port_w(1) ucast_and_low d pci_reg_word
    by (auto simp: inw_def same_config_def d(2) Let_def split: prod.splits)
qed

lemma readl:
  "\<exists>d. pci_config_readl env bdf a s
      = Ret (le_word (load_bytes (space (dev s)) (pci_reg bdf (a AND 0xfc)) 4)) (s\<lparr>dev := d\<rparr>) \<and>
    space d = space (dev s)"
  unfolding pci_config_readl_def
proof (rule via_latch)
  fix d assume on: "bit (latch d) 31" and d: "latch_reg (latch d) = pci_reg bdf (a AND 0xfc)" "space d = space (dev s)"
  have "let (v, d') = io_inl env 0xcfc d in
      v = le_word (load_bytes (space d) (latch_reg (latch d)) 4) \<and> same_config latch space d d'"
    using device on unfolding pci_device_def pci_reads_def by blast
  then show "\<exists>d'. inl env 0xcfc (s\<lparr>dev := d\<rparr>)
      = Ret (le_word (load_bytes (space (dev s)) (pci_reg bdf (a AND 0xfc)) 4)) (s\<lparr>dev := d'\<rparr>) \<and>
      space d' = space (dev s)"
    unfolding d by (auto simp: inl_def same_config_def d(2) Let_def split: prod.splits)
qed

lemma writeb:
  "\<exists>d. pci_config_writeb env bdf a v s = Ret () (s\<lparr>dev := d\<rparr>) \<and>
    space d = cfg_write wr (pci_reg bdf a) [v] (space (dev s))"
  unfolding pci_config_writeb_def
proof (rule via_latch)
  fix d assume on: "bit (latch d) 31" and d: "latch_reg (latch d) = pci_reg bdf (a AND 0xfc)" "space d = space (dev s)"
  let ?k = "ucast (a AND 3) :: u16"
  have "let (m', d') = io_outb env (0xcfc + ?k) v (mem s, d) in
      m' = mem s \<and> space d' = cfg_write wr (latch_reg (latch d) + ucast ?k) [v] (space d)"
    using device data_port_b(2) on by (simp only: pci_device_def pci_writes_def)
  then show "\<exists>d'. outb env (0xcfc OR ?k) v (s\<lparr>dev := d\<rparr>) = Ret () (s\<lparr>dev := d'\<rparr>) \<and>
      space d' = cfg_write wr (pci_reg bdf a) [v] (space (dev s))"
    unfolding data_port_b(1) ucast_and_low d pci_reg_low
    by (auto simp: outb_def Let_def split: prod.splits)
qed

lemma writew:
  "\<exists>d. pci_config_writew env bdf a v s = Ret () (s\<lparr>dev := d\<rparr>) \<and>
    space d = cfg_write wr (pci_reg bdf (a AND 0xfe)) (le_bytes 2 v) (space (dev s))"
  unfolding pci_config_writew_def
proof (rule via_latch)
  fix d assume on: "bit (latch d) 31" and d: "latch_reg (latch d) = pci_reg bdf (a AND 0xfc)" "space d = space (dev s)"
  let ?k = "ucast (a AND 2) :: u16"
  have "let (m', d') = io_outw env (0xcfc + ?k) v (mem s, d) in
      m' = mem s \<and> space d' = cfg_write wr (latch_reg (latch d) + ucast ?k) (le_bytes 2 v) (space d)"
    using device data_port_w(2) on by (simp only: pci_device_def pci_writes_def)
  then show "\<exists>d'. outw env (0xcfc OR ?k) v (s\<lparr>dev := d\<rparr>) = Ret () (s\<lparr>dev := d'\<rparr>) \<and>
      space d' = cfg_write wr (pci_reg bdf (a AND 0xfe)) (le_bytes 2 v) (space (dev s))"
    unfolding data_port_w(1) ucast_and_low d pci_reg_word
    by (auto simp: outw_def Let_def split: prod.splits)
qed

lemma writel:
  "\<exists>d. pci_config_writel env bdf a v s = Ret () (s\<lparr>dev := d\<rparr>) \<and>
    space d = cfg_write wr (pci_reg bdf (a AND 0xfc)) (le_bytes 4 v) (space (dev s))"
  unfolding pci_config_writel_def
proof (rule via_latch)
  fix d assume on: "bit (latch d) 31" and d: "latch_reg (latch d) = pci_reg bdf (a AND 0xfc)" "space d = space (dev s)"
  have "let (m', d') = io_outl env 0xcfc v (mem s, d) in
      m' = mem s \<and> space d' = cfg_write wr (latch_reg (latch d)) (le_bytes 4 v) (space d)"
    using device on by (simp only: pci_device_def pci_writes_def)
  then show "\<exists>d'. outl env 0xcfc v (s\<lparr>dev := d\<rparr>) = Ret () (s\<lparr>dev := d'\<rparr>) \<and>
      space d' = cfg_write wr (pci_reg bdf (a AND 0xfc)) (le_bytes 4 v) (space (dev s))"
    unfolding d by (auto simp: outl_def Let_def split: prod.splits)
qed

end

section \<open>The reference platform\<close>

lemma ref_pci_device: "pci_device (ref_env E) cfg_addr cfg_space (\<lambda>_ _ v. v)"
proof -
  have ports: "k < 4 \<Longrightarrow> k = 0 \<or> k = 1 \<or> k = 2 \<or> k = 3" for k :: u16
  proof -
    assume "k < 4"
    then have "unat k < 4" by (simp add: word_less_nat_alt)
    then have "unat k = 0 \<or> unat k = 1 \<or> unat k = 2 \<or> unat k = 3" by auto
    then have "unat k = unat (0 :: u16) \<or> unat k = unat (1 :: u16) \<or> unat k = unat (2 :: u16) \<or> unat k = unat (3 :: u16)" by simp
    then show ?thesis by (simp only: word_unat_eq_iff)
  qed
  have plain: "store_bytes sp r bs = cfg_write (\<lambda>_ _ v. v) r bs sp" if "length bs \<le> 2 ^ 32" for sp r and bs :: "u8 list"
    using that by (auto simp: cfg_write_def fun_eq_iff store_bytes_outside [where n = "length bs"])
  note stores = plain [of "[v]" for v] plain [of "le_bytes 2 v" for v] plain [of "le_bytes 4 v" for v]
  show ?thesis
    unfolding pci_device_def pci_latch_def pci_reads_def pci_writes_def
    by (auto dest!: ports simp: ref_env_def config_port_def data_port_def cfg_reg_def cfg_store_def latch_reg_def stores
        same_config_def simp del: store_bytes.simps le_bytes.simps)
qed

interpretation refpci: pci_port "ref_env E" cfg_addr cfg_space "\<lambda>_ _ v. v" for E
  by unfold_locales (rule ref_pci_device)

section \<open>Configuration access\<close>

lemma cfg_write_read:
  assumes "\<forall>k < length bs. takes wr (r + of_nat k) 0xff" "length bs \<le> 2 ^ 32"
  shows "load_bytes (cfg_write wr r bs sp) r (length bs) = bs"
  using assms by (intro load_bytes_eqI) (simp_all add: cfg_write_def takes_byte store_bytes_at inside_def unat_of_nat)

lemma cfg_write_outside: "\<not> inside a r (length bs) \<Longrightarrow> cfg_write wr r bs sp a = sp a"
  by (simp add: cfg_write_def)

lemma cfg_write_single: "cfg_write wr r [v] sp = sp(r := wr r (sp r) v)"
  by (auto simp: cfg_write_def fun_eq_iff inside_def unat_eq_zero)

lemma cfg_write_byte: "takes wr r 0xff \<Longrightarrow> cfg_write wr r [v] sp = sp(r := v)"
  by (simp add: cfg_write_single takes_byte)

text \<open>The registers of an access of one or two bytes are among the four of its long word.\<close>

lemma narrow_registers:
  assumes rw: "\<forall>k < 4. takes wr (pci_reg bdf (a AND 0xfc) + of_nat k) 0xff"
  shows "takes wr (pci_reg bdf a) 0xff" "\<forall>k < 2. takes wr (pci_reg bdf (a AND 0xfe) + of_nat k) 0xff"
proof -
  have "unat (a AND 3) < 4"
  proof -
    have "a AND 3 = take_bit 2 a" by (simp add: mask_lits(4) take_bit_eq_mask)
    then have "unat (a AND 3) = take_bit 2 (unat a)" by (simp only: unsigned_take_bit_eq)
    then show ?thesis using take_bit_nat_less_exp [of 2 "unat a"] by simp
  qed
  then show "takes wr (pci_reg bdf a) 0xff" using rw [rule_format, of "unat (a AND 3)"] pci_reg_low [of bdf a] by simp
  have "a AND 2 = 0 \<or> a AND 2 = 2"
    unfolding mask_lits(5) by (cases "bit a 1") (auto intro!: bit_word_eqI simp: bit_simps)
  then show "\<forall>k < 2. takes wr (pci_reg bdf (a AND 0xfe) + of_nat k) 0xff"
  proof (elim disjE; intro allI impI)
    fix k :: nat assume "a AND 2 = 0" "k < 2"
    then show "takes wr (pci_reg bdf (a AND 0xfe) + of_nat k) 0xff" using pci_reg_word [of bdf a] rw by simp
  next
    fix k :: nat assume "a AND 2 = 2" "k < 2"
    then show "takes wr (pci_reg bdf (a AND 0xfe) + of_nat k) 0xff"
      using pci_reg_word [of bdf a] rw [rule_format, of "2 + k"] by (simp add: add.assoc [symmetric])
  qed
qed

context pci_port
begin

lemma write_read_byte:
  assumes "takes wr (pci_reg bdf a) 0xff"
  obtains d d' where "pci_config_writeb env bdf a b s = Ret () (s\<lparr>dev := d\<rparr>)" "pci_config_readb env bdf a (s\<lparr>dev := d\<rparr>) = Ret b (s\<lparr>dev := d'\<rparr>)"
    "\<forall>r. r \<noteq> pci_reg bdf a \<longrightarrow> space d' r = space (dev s) r"
proof -
  obtain d where d: "pci_config_writeb env bdf a b s = Ret () (s\<lparr>dev := d\<rparr>)"
    "space d = cfg_write wr (pci_reg bdf a) [b] (space (dev s))" using writeb by blast
  obtain d' where "pci_config_readb env bdf a (s\<lparr>dev := d\<rparr>) = Ret (space d (pci_reg bdf a)) (s\<lparr>dev := d'\<rparr>)"
    "space d' = space d" using readb [of bdf a "s\<lparr>dev := d\<rparr>"] by auto
  then show thesis using d assms by (intro that [of d d']) (simp_all add: cfg_write_byte)
qed

lemma write_read_word:
  assumes "\<forall>k < 2. takes wr (pci_reg bdf (a AND 0xfe) + of_nat k) 0xff"
  obtains d d' where "pci_config_writew env bdf a w s = Ret () (s\<lparr>dev := d\<rparr>)" "pci_config_readw env bdf a (s\<lparr>dev := d\<rparr>) = Ret w (s\<lparr>dev := d'\<rparr>)"
    "\<forall>r. \<not> inside r (pci_reg bdf (a AND 0xfe)) 2 \<longrightarrow> space d' r = space (dev s) r"
proof -
  let ?R = "pci_reg bdf (a AND 0xfe)"
  obtain d where d: "pci_config_writew env bdf a w s = Ret () (s\<lparr>dev := d\<rparr>)"
    "space d = cfg_write wr ?R (le_bytes 2 w) (space (dev s))" using writew by blast
  obtain d' where "pci_config_readw env bdf a (s\<lparr>dev := d\<rparr>) = Ret (le_word (load_bytes (space d) ?R 2)) (s\<lparr>dev := d'\<rparr>)"
    "space d' = space d" using readw [of bdf a "s\<lparr>dev := d\<rparr>"] by auto
  then show thesis using d cfg_write_read [of "le_bytes 2 w" wr ?R "space (dev s)"] assms
    by (intro that [of d d']) (simp_all add: le_word_le_bytes cfg_write_outside)
qed

lemma write_read_long:
  assumes "\<forall>k < 4. takes wr (pci_reg bdf (a AND 0xfc) + of_nat k) 0xff"
  obtains d d' where "pci_config_writel env bdf a l s = Ret () (s\<lparr>dev := d\<rparr>)" "pci_config_readl env bdf a (s\<lparr>dev := d\<rparr>) = Ret l (s\<lparr>dev := d'\<rparr>)"
    "\<forall>r. \<not> inside r (pci_reg bdf (a AND 0xfc)) 4 \<longrightarrow> space d' r = space (dev s) r"
proof -
  let ?R = "pci_reg bdf (a AND 0xfc)"
  obtain d where d: "pci_config_writel env bdf a l s = Ret () (s\<lparr>dev := d\<rparr>)"
    "space d = cfg_write wr ?R (le_bytes 4 l) (space (dev s))" using writel by blast
  obtain d' where "pci_config_readl env bdf a (s\<lparr>dev := d\<rparr>) = Ret (le_word (load_bytes (space d) ?R 4)) (s\<lparr>dev := d'\<rparr>)"
    "space d' = space d" using readl [of bdf a "s\<lparr>dev := d\<rparr>"] by auto
  then show thesis using d cfg_write_read [of "le_bytes 4 l" wr ?R "space (dev s)"] assms
    by (intro that [of d d']) (simp_all add: le_word_le_bytes cfg_write_outside)
qed

end

text \<open>
  C27: Configuration space. On a register that takes writes, what is written by bytes, words or long words is
  read back; every other byte of configuration space, of every function, keeps its value; memory is not
  touched.
\<close>

theorem pci_config_round_trip:
  assumes "pci_device env latch space wr" and "\<forall>k < 4. takes wr (pci_reg bdf (a AND 0xfc) + of_nat k) 0xff"
  shows "(\<exists>s1 t. pci_config_writeb env bdf a b s = Ret () s1 \<and> pci_config_readb env bdf a s1 = Ret b t \<and> mem t = mem s \<and>
      (\<forall>r. r \<noteq> pci_reg bdf a \<longrightarrow> space (dev t) r = space (dev s) r)) \<and>
    (\<exists>s1 t. pci_config_writew env bdf a w s = Ret () s1 \<and> pci_config_readw env bdf a s1 = Ret w t \<and> mem t = mem s \<and>
      (\<forall>r. \<not> inside r (pci_reg bdf (a AND 0xfe)) 2 \<longrightarrow> space (dev t) r = space (dev s) r)) \<and>
    (\<exists>s1 t. pci_config_writel env bdf a l s = Ret () s1 \<and> pci_config_readl env bdf a s1 = Ret l t \<and> mem t = mem s \<and>
      (\<forall>r. \<not> inside r (pci_reg bdf (a AND 0xfc)) 4 \<longrightarrow> space (dev t) r = space (dev s) r))"
proof (intro conjI)
  note port = pci_port.intro [OF assms(1)] and rw = narrow_registers [OF assms(2)]
  show "\<exists>s1 t. pci_config_writeb env bdf a b s = Ret () s1 \<and> pci_config_readb env bdf a s1 = Ret b t \<and> mem t = mem s \<and>
      (\<forall>r. r \<noteq> pci_reg bdf a \<longrightarrow> space (dev t) r = space (dev s) r)"
    by (rule pci_port.write_read_byte [OF port rw(1), of b s]) (intro exI conjI, assumption, assumption, simp_all)
  show "\<exists>s1 t. pci_config_writew env bdf a w s = Ret () s1 \<and> pci_config_readw env bdf a s1 = Ret w t \<and> mem t = mem s \<and>
      (\<forall>r. \<not> inside r (pci_reg bdf (a AND 0xfe)) 2 \<longrightarrow> space (dev t) r = space (dev s) r)"
    by (rule pci_port.write_read_word [OF port rw(2), of w s]) (intro exI conjI, assumption, assumption, simp_all)
  show "\<exists>s1 t. pci_config_writel env bdf a l s = Ret () s1 \<and> pci_config_readl env bdf a s1 = Ret l t \<and> mem t = mem s \<and>
      (\<forall>r. \<not> inside r (pci_reg bdf (a AND 0xfc)) 4 \<longrightarrow> space (dev t) r = space (dev s) r)"
    by (rule pci_port.write_read_long [OF port assms(2), of l s]) (intro exI conjI, assumption, assumption, simp_all)
qed

theorem pci_config_round_trip_witness:
  "\<exists>s1 t. pci_config_writew (ref_env (\<lambda>_ _. 0)) 0x18 0x3e 0x1234 (boot_machine (\<lambda>_. 0)) = Ret () s1 \<and>
     pci_config_readw (ref_env (\<lambda>_ _. 0)) 0x18 0x3e s1 = Ret 0x1234 t"
  using pci_config_round_trip [OF ref_pci_device [of "\<lambda>_ _. 0"], of "0x18" "0x3e" 0 "boot_machine (\<lambda>_. 0)" "0x1234" 0] takes_plain
  by blast

section \<open>Interrupt routing\<close>

text \<open>
  The interrupt line of pin \<open>pin\<close> of slot \<open>d\<close>, below bridges whose slots add up to \<open>add\<close>: links A and B of the
  bridge go to IRQ 10, C and D to IRQ 11, the pins being rotated by one link per slot.
\<close>

definition irq_line :: "bool \<Rightarrow> nat \<Rightarrow> nat \<Rightarrow> nat \<Rightarrow> u8" where
  "irq_line i440fx add d pin =
     (let rot = (if i440fx then d + 3 else if d \<le> 24 then d else 0)
      in if (add + pin + rot) mod 4 < 2 then 10 else 11)"

lemma link_bits:
  "(l AND 3) AND 2 \<noteq> 0 \<longleftrightarrow> \<not> l mod 4 < 2" for l :: int
proof -
  have "l AND 3 = l mod 4"
    using take_bit_eq_mask [of 2 l] by (simp add: take_bit_eq_mod mask_eq_exp_minus_1)
  moreover have "l mod 4 = 0 \<or> l mod 4 = 1 \<or> l mod 4 = 2 \<or> l mod 4 = 3" by presburger
  ultimately show ?thesis by auto
qed

text \<open>
  C26: Interrupt lines. do_setup_pci_irq leaves a function that has a line alone; otherwise the line becomes
  10 or 11 as the routing of the machine says (i440FX or Q35), whatever bridges are above; no other byte
  of configuration space changes, nor does memory.
\<close>

theorem pci_irq_routing:
  assumes "pci_device env latch space wr" and "takes wr (pci_reg (ucast bdf) 0x3c) 0xff"
  shows "\<exists>t. do_setup_pci_irq env bdf (int pin) s = Ret () t \<and> mem t = mem s \<and>
    space (dev t) = (if space (dev s) (pci_reg (ucast bdf) 0x3c) \<noteq> 0 then space (dev s)
      else (space (dev s))(pci_reg (ucast bdf) 0x3c :=
        irq_line (use_i440fx_routing s) (unat (addend s)) (unat (drop_bit 3 bdf AND 0x1f)) pin))"
proof -
  note port = pci_port.intro [OF assms(1)]
  let ?r = "pci_reg (ucast bdf) 0x3c" and ?d = "drop_bit 3 bdf AND 0x1f"
  obtain d where d: "pci_config_readb env (ucast bdf) 0x3c s = Ret (space (dev s) ?r) (s\<lparr>dev := d\<rparr>)"
    "space d = space (dev s)" using pci_port.readb [OF port] by blast
  define lnk where "lnk = (let l = uint (addend s) + int pin in
    if use_i440fx_routing s then l + (uint ?d - 1) else if uint ?d \<le> 24 then l + uint ?d else l)"
  let ?v = "if (lnk AND 3) AND 2 \<noteq> 0 then 11 else 10 :: u8"
  have line: "?v = irq_line (use_i440fx_routing s) (unat (addend s)) (unat ?d) pin"
  proof -
    define n where "n = unat (addend s) + pin + (if use_i440fx_routing s then unat ?d + 3 else if unat ?d \<le> 24 then unat ?d else 0)"
    have "lnk = int n - (if use_i440fx_routing s then 4 else 0)"
    proof -
      have "uint ?d \<le> 24 \<longleftrightarrow> unat ?d \<le> 24" using uint_nat [of ?d] by linarith
      then show ?thesis unfolding lnk_def n_def Let_def by simp
    qed
    then have "lnk mod 4 = int (n mod 4)" by (auto simp: zmod_int mod_diff_eq [of _ 4, symmetric])
    then have "lnk mod 4 < 2 \<longleftrightarrow> n mod 4 < 2" by linarith
    then show ?thesis unfolding link_bits irq_line_def Let_def n_def [symmetric] by simp
  qed
  obtain d' where d': "pci_config_writeb env (ucast bdf) 0x3c ?v (s\<lparr>dev := d\<rparr>) = Ret () (s\<lparr>dev := d'\<rparr>)"
    "space d' = (space (dev s))(?r := ?v)"
    using pci_port.writeb [OF port, of "ucast bdf" "0x3c" ?v "s\<lparr>dev := d\<rparr>"] assms(2) d(2)
    by (auto simp: cfg_write_byte)
  show ?thesis
  proof (cases "space (dev s) ?r = 0")
    case True
    have "do_setup_pci_irq env bdf (int pin) s = Ret () (s\<lparr>dev := d'\<rparr>)"
      using d'(1) unfolding do_setup_pci_irq_def lnk_def Let_def
      by (simp add: bind_apply d(1) True split del: if_split cong: if_cong)
    then show ?thesis using True d'(2) line by (intro exI [of _ "s\<lparr>dev := d'\<rparr>"]) simp
  next
    case False
    then have "do_setup_pci_irq env bdf (int pin) s = Ret () (s\<lparr>dev := d\<rparr>)"
      by (simp add: do_setup_pci_irq_def bind_apply d(1) Let_def)
    then show ?thesis using False d(2) by (intro exI [of _ "s\<lparr>dev := d\<rparr>"]) simp
  qed
qed

theorem pci_irq_routing_witness:
  "\<exists>t. do_setup_pci_irq (ref_env (\<lambda>_ _. 0)) 0x18 1 (boot_machine (\<lambda>_. 0)
       \<lparr>dev := \<lparr>entry = 0, position = 0, pending = False, cfg_addr = 0, cfg_space = (\<lambda>_. 0), port_log = []\<rparr>,
        use_i440fx_routing := True\<rparr>) = Ret () t \<and>
     cfg_space (dev t) (pci_reg 0x18 0x3c) = 11"
proof -
  let ?s = "boot_machine (\<lambda>_. 0)\<lparr>dev := \<lparr>entry = 0, position = 0, pending = False, cfg_addr = 0, cfg_space = (\<lambda>_. 0), port_log = []\<rparr>,
        use_i440fx_routing := True\<rparr>"
  obtain t where "do_setup_pci_irq (ref_env (\<lambda>_ _. 0)) 0x18 (int 1) ?s = Ret () t"
    "cfg_space (dev t) = (cfg_space (dev ?s))(pci_reg (ucast (0x18 :: u32)) 0x3c :=
        irq_line True (unat (addend ?s)) (unat (drop_bit 3 (0x18 :: u32) AND 0x1f)) 1)"
    using pci_irq_routing [OF ref_pci_device [of "\<lambda>_ _. 0"], of "0x18" 1 ?s] by auto
  then show ?thesis by (auto simp: boot_machine_def irq_line_def)
qed

section \<open>The host bridge\<close>

lemma setup_pci_dispatch:
  fixes devid :: u32
  assumes "pci_device env latch space wr"
    and "devid = le_word (load_bytes (space (dev s)) (pci_reg 0 0) 4)"
  shows "if devid = ID_INTEL_82441 \<or> devid = ID_INTEL_Q35_MCH
    then \<exists>d. space d = space (dev s) \<and> setup_pci n env s = andthen (do_setup_pci_bus n env) (setup_bios32 env)
        (s\<lparr>dev := d, use_i440fx_routing := (devid = ID_INTEL_82441)\<rparr>)
    else \<exists>t. setup_pci n env s = Panic t \<and> mem t = mem s \<and> space (dev t) = space (dev s)"
proof -
  obtain d where d: "pci_config_readl env 0 0 s = Ret devid (s\<lparr>dev := d\<rparr>)" "space d = space (dev s)"
    using pci_port.readl [OF pci_port.intro [OF assms(1)], of 0 0 s] assms(2) by auto
  consider "devid = ID_INTEL_82441" | "devid = ID_INTEL_Q35_MCH" | "devid \<noteq> ID_INTEL_82441" "devid \<noteq> ID_INTEL_Q35_MCH" by blast
  then show ?thesis
  proof cases
    case 1
    then show ?thesis using d by (auto simp: setup_pci_def bind_apply andthen_apply intro!: exI [of _ d])
  next
    case 2
    then show ?thesis using d by (auto simp: setup_pci_def bind_apply andthen_apply intro!: exI [of _ d])
  next
    case 3
    then show ?thesis using d by (simp add: setup_pci_def bind_apply andthen_apply)
  qed
qed

text \<open>
  Unknown machines. When the host bridge is neither the i440FX nor the Q35 one, setup_pci panics before it
  has changed memory or configuration space; otherwise it goes on with the routing of that machine, from the
  same memory and configuration space.
\<close>

lemma setup_pci_host_bridge:
  fixes devid :: u32
  assumes "pci_device env latch space wr"
    and "devid = le_word (load_bytes (space (dev s)) (pci_reg 0 0) 4)"
  shows "if devid = ID_INTEL_82441 \<or> devid = ID_INTEL_Q35_MCH
    then \<exists>d. space d = space (dev s) \<and> setup_pci n env s = andthen (do_setup_pci_bus n env) (setup_bios32 env)
        (s\<lparr>dev := d, use_i440fx_routing := (devid = ID_INTEL_82441)\<rparr>)
    else \<exists>t. setup_pci n env s = Panic t \<and> mem t = mem s \<and> space (dev t) = space (dev s)"
  by (rule setup_pci_dispatch [OF assms])

section \<open>The BIOS32 header\<close>

lemma for_each_append: "for_each (xs @ ys) p = andthen (for_each xs p) (for_each ys p)"
  by (induction xs) (auto simp: fun_eq_iff prog_simps split: outcome.split)

definition bios32_bytes :: "addr \<Rightarrow> u8 \<Rightarrow> u8 list" where
  "bios32_bytes entry_point ck = chars ''_32_'' @ le_bytes 4 entry_point @ [0, 1, ck, 0, 0, 0, 0, 0]"

lemma length_bios32_bytes [simp]: "length (bios32_bytes e ck) = 16"
  by (simp add: bios32_bytes_def chars_def)

lemma replicate_6: "replicate 6 x = [x, x, x, x, x, x]"
  by (simp add: numeral_eq_Suc)

lemma bios32_sum_loop:
  assumes "n \<le> 10"
  shows "for_each [0..<n] (\<lambda>i. on_mem (\<lambda>m. m(p + 10 := m (p + 10) - m (p + of_nat i)))) s
    = Ret () (s\<lparr>mem := (mem s)(p + 10 := mem s (p + 10) - sum_list (load_bytes (mem s) p n))\<rparr>)"
  using assms
proof (induction n)
  case 0
  then show ?case by simp
next
  case (Suc n)
  then have "unat (of_nat n :: addr) < unat (10 :: addr)" by (simp add: unat_of_nat)
  then have "(of_nat n :: addr) \<noteq> 10" by auto
  then have other: "p + of_nat n \<noteq> p + 10" by simp
  have "load_bytes (mem s) p (Suc n) = load_bytes (mem s) p n @ [mem s (p + of_nat n)]"
    using load_bytes_append [of "mem s" p n 1] by simp
  with Suc other show ?case by (simp add: for_each_append prog_simps fun_upd_other fun_upd_same algebra_simps del: load_bytes.simps fun_upd_apply)
qed

text \<open>
  The BIOS32 service directory. setup_bios32 puts at the next 16-byte boundary of the F-segment the 16
  bytes of the header, with the address of the entry point and a checksum that makes them sum to zero; it
  changes nothing else and takes just these bytes from the segment.
\<close>

lemma setup_bios32_effect:
  assumes "fseg_fits 16 16 s"
  shows "\<exists>p ck. setup_bios32 env s = Ret () (s\<lparr>fseg_base := p + 16, mem := store_bytes (mem s) p (bios32_bytes (bios32_entry env) ck)\<rparr>) \<and>
    sum_list (bios32_bytes (bios32_entry env) ck) = 0 \<and>
    unat (fseg_base s) \<le> unat p \<and> unat p < unat (fseg_base s) + 16 \<and> unat p mod 16 = 0"
proof -
  obtain p where p: "malloc_fseg_align 16 16 s = Ret p (s\<lparr>fseg_base := p + 16\<rparr>)"
    by (simp add: malloc_fseg_align_apply Let_def)
  note bounds = malloc_fseg_align_bounds [OF assms p]
  let ?e = "bios32_entry env" and ?m = "mem s"
  let ?fs = "[(0, chars ''_32_''), (4, le_bytes 4 ?e), (8, [0]), (9, [1]), (10, [0, 0, 0, 0, 0, 0])] :: (nat \<times> u8 list) list"
  define ck where "ck = - sum_list (take 10 (bios32_bytes ?e 0))"
  define m1 where "m1 = fold (write_field p) ?fs ?m"
  have "m1 = store_bytes ?m p (layout ?fs (load_bytes ?m p 16))"
    unfolding m1_def by (rule write_fields_store) (simp_all add: fields_fit_def layout_simps chars_def)
  also have "layout ?fs (load_bytes ?m p 16) = bios32_bytes ?e 0"
    unfolding load_bytes_numeral by (simp add: layout_simps splice_def bios32_bytes_def chars_def)
  finally have m1: "m1 = store_bytes ?m p (bios32_bytes ?e 0)" .
  then have at: "load_bytes m1 p 16 = bios32_bytes ?e 0" by (simp add: load_store_same)
  have head: "load_bytes m1 p 10 = take 10 (bios32_bytes ?e 0)"
    using load_bytes_sub [of 0 10 16 m1 p] at by simp
  have "m1 (p + 10) = 0" using arg_cong [OF at, of "\<lambda>bs. bs ! 10"] by (simp add: bios32_bytes_def chars_def le_bytes_4)
  then have "m1(p + 10 := m1 (p + 10) - sum_list (load_bytes m1 p 10)) = store_bytes m1 (p + of_nat 10) [ck]"
    by (simp add: head ck_def)
  also have "\<dots> = store_bytes ?m p (splice 10 [ck] (bios32_bytes ?e 0))" unfolding m1 by (rule store_patch) simp_all
  also have "splice 10 [ck] (bios32_bytes ?e 0) = bios32_bytes ?e ck" by (simp add: splice_def bios32_bytes_def chars_def)
  finally have m2: "m1(p + 10 := m1 (p + 10) - sum_list (load_bytes m1 p 10)) = store_bytes ?m p (bios32_bytes ?e ck)" .
  have "setup_bios32 env s = for_each [0..<10] (\<lambda>i. on_mem (\<lambda>m. m(p + 10 := m (p + 10) - m (p + of_nat i))))
      (s\<lparr>fseg_base := p + 16, mem := m1\<rparr>)"
    by (simp add: setup_bios32_def prog_simps p m1_def write_field_def store_single store_whole replicate_6 chars_def
        del: store_bytes.simps fun_upd_apply)
  then have "setup_bios32 env s = Ret () (s\<lparr>fseg_base := p + 16, mem := store_bytes ?m p (bios32_bytes ?e ck)\<rparr>)"
    by (simp add: bios32_sum_loop m2 del: load_bytes.simps fun_upd_apply)
  moreover have "sum_list (bios32_bytes ?e ck) = 0"
    by (simp add: ck_def bios32_bytes_def chars_def)
  ultimately show ?thesis using bounds by (intro exI [of _ p] exI [of _ ck]) simp
qed

end
