(* ===== verification/Pcienum.thy ===== *)
theory Pcienum
  imports Pcispec
begin

text \<open>
  The enumeration of the PCI buses: \<open>pci_visit\<close> is the contract between pci_foreach and its callback,
  instantiated with do_setup_pci; the bridges it threads through configuration space, and what setup_pci does
  as a whole.
\<close>

section \<open>Enumeration\<close>

text \<open>The functions present on bus \<open>b\<close>, read off configuration space.\<close>

definition bdf_of :: "u8 \<Rightarrow> nat \<Rightarrow> nat \<Rightarrow> u32" where
  "bdf_of b d f = ucast b * 256 + of_nat d * 8 + of_nat f"

definition dev_id :: "(u32 \<Rightarrow> u8) \<Rightarrow> u32 \<Rightarrow> u32" where
  "dev_id sp bdf = le_word (load_bytes sp (pci_reg (ucast bdf) 0) 4)"

definition hdr_type :: "(u32 \<Rightarrow> u8) \<Rightarrow> u32 \<Rightarrow> u8" where
  "hdr_type sp bdf = sp (pci_reg (ucast bdf) 0x0e)"

definition present :: "(u32 \<Rightarrow> u8) \<Rightarrow> u32 \<Rightarrow> bool" where
  "present sp bdf \<longleftrightarrow> dev_id sp bdf AND 0xffff \<noteq> 0 \<and> dev_id sp bdf AND 0xffff \<noteq> 0xffff"

definition slot_functions :: "(u32 \<Rightarrow> u8) \<Rightarrow> u8 \<Rightarrow> nat \<Rightarrow> u32 list" where
  "slot_functions sp b d =
     (if \<not> present sp (bdf_of b d 0) then []
      else if hdr_type sp (bdf_of b d 0) AND PCI_HEADER_TYPE_MULTI_FUNCTION = 0 then [bdf_of b d 0]
      else filter (present sp) (map (bdf_of b d) [0..<8]))"

definition bus_functions :: "(u32 \<Rightarrow> u8) \<Rightarrow> u8 \<Rightarrow> u32 list" where
  "bus_functions sp b = concat (map (slot_functions sp b) [0..<32])"

lemma vendor_absent: "(ucast (i AND 0xffff :: u32) :: u16) + 1 \<le> 1 \<longleftrightarrow> i AND 0xffff = 0 \<or> i AND 0xffff = 0xffff"
proof -
  let ?v = "ucast (i AND 0xffff) :: u16"
  have m: "(0xffff :: u32) = mask 16" by (simp add: mask_eq_exp_minus_1)
  have wide: "ucast ?v = i AND 0xffff" unfolding m by (rule bit_word_eqI) (auto simp: bit_simps)
  have "?v + 1 \<le> 1 \<longleftrightarrow> ?v = 0 \<or> ?v = - 1"
  proof
    assume "?v + 1 \<le> 1"
    then have "unat (?v + 1) \<le> 1" by (simp add: word_le_nat_alt)
    then have "unat (?v + 1) = unat (0 :: u16) \<or> unat (?v + 1) = unat (1 :: u16)" by auto
    then have "?v + 1 = 0 \<or> ?v + 1 = 1" by (simp only: word_unat_eq_iff)
    then show "?v = 0 \<or> ?v = - 1" by (auto simp: eq_neg_iff_add_eq_0)
  qed auto
  also have "?v = 0 \<longleftrightarrow> i AND 0xffff = 0" using wide by (metis ucast_0 unsigned_0)
  also have "?v = - 1 \<longleftrightarrow> i AND 0xffff = 0xffff"
  proof
    assume "?v = - 1"
    then have "ucast ?v = (0xffff :: u32)" by (simp add: unsigned_minus_1_eq_mask mask_eq_exp_minus_1)
    with wide show "i AND 0xffff = 0xffff" by simp
  qed simp
  finally show ?thesis .
qed

text \<open>The state has the functions of \<open>sp\<close>: nobody has changed an identification, a class or a header type.\<close>

definition class_of :: "(u32 \<Rightarrow> u8) \<Rightarrow> u32 \<Rightarrow> u16" where
  "class_of sp bdf = le_word (load_bytes sp (pci_reg (ucast bdf) 0x0a) 2)"

definition same_functions :: "('d \<Rightarrow> u32 \<Rightarrow> u8) \<Rightarrow> (u32 \<Rightarrow> u8) \<Rightarrow> u8 \<Rightarrow> 'd machine \<Rightarrow> bool" where
  "same_functions space sp b s \<longleftrightarrow> bus s = b \<and>
     (\<forall>bdf. dev_id (space (dev s)) bdf = dev_id sp bdf \<and> hdr_type (space (dev s)) bdf = hdr_type sp bdf \<and>
       class_of (space (dev s)) bdf = class_of sp bdf)"

text \<open>
  What a callback promises: on a function of the bus above all those already visited it returns, it leaves the
  functions as they are, and it keeps an invariant \<open>J\<close> of the list of visited functions; \<open>J\<close> does not look at
  the address latch.
\<close>

locale pci_visit = pci_port env latch space wr
  for env :: "'d env" and latch :: "'d \<Rightarrow> u32" and space :: "'d \<Rightarrow> u32 \<Rightarrow> u8" and wr :: "u32 \<Rightarrow> u8 \<Rightarrow> u8 \<Rightarrow> u8" +
  fixes fn :: "u32 \<Rightarrow> u32 \<Rightarrow> u8 \<Rightarrow> ('d, unit) fw"
    and sp :: "u32 \<Rightarrow> u8" and b :: u8
    and J :: "u32 list \<Rightarrow> 'd machine \<Rightarrow> bool"
  assumes callback: "same_functions space sp b s \<Longrightarrow> J vis s \<Longrightarrow> bdf \<in> set (bus_functions sp b) \<Longrightarrow> \<forall>v \<in> set vis. unat v < unat bdf \<Longrightarrow>
      unat b * 256 \<le> unat bdf \<Longrightarrow> unat bdf < unat b * 256 + 256 \<Longrightarrow>
      \<exists>s'. fn bdf (dev_id sp bdf) (hdr_type sp bdf) s = Ret () s' \<and> same_functions space sp b s' \<and> J (vis @ [bdf]) s'"
    and observe: "J vis s \<Longrightarrow> space d = space (dev s) \<Longrightarrow> J vis (s\<lparr>dev := d\<rparr>)"
begin

definition good :: "u32 list \<Rightarrow> 'd machine \<Rightarrow> bool" where
  "good vis s \<longleftrightarrow> same_functions space sp b s \<and> J vis s"

lemma probe:
  assumes "good vis s"
  shows "\<exists>d. pci_config_readl env (ucast bdf) PCI_VENDOR_ID s = Ret (dev_id sp bdf) (s\<lparr>dev := d\<rparr>) \<and> good vis (s\<lparr>dev := d\<rparr>)"
    "\<exists>d. pci_config_readb env (ucast bdf) PCI_HEADER_TYPE s = Ret (hdr_type sp bdf) (s\<lparr>dev := d\<rparr>) \<and> good vis (s\<lparr>dev := d\<rparr>)"
proof -
  obtain d where "pci_config_readl env (ucast bdf) PCI_VENDOR_ID s = Ret (dev_id (space (dev s)) bdf) (s\<lparr>dev := d\<rparr>)"
    "space d = space (dev s)"
    using readl [of "ucast bdf" PCI_VENDOR_ID s] by (auto simp: dev_id_def)
  then show "\<exists>d. pci_config_readl env (ucast bdf) PCI_VENDOR_ID s = Ret (dev_id sp bdf) (s\<lparr>dev := d\<rparr>) \<and> good vis (s\<lparr>dev := d\<rparr>)"
    using assms observe by (intro exI [of _ d]) (simp add: good_def same_functions_def)
  obtain d' where "pci_config_readb env (ucast bdf) PCI_HEADER_TYPE s = Ret (hdr_type (space (dev s)) bdf) (s\<lparr>dev := d'\<rparr>)"
    "space d' = space (dev s)"
    using readb [of "ucast bdf" PCI_HEADER_TYPE s] by (auto simp: hdr_type_def)
  then show "\<exists>d. pci_config_readb env (ucast bdf) PCI_HEADER_TYPE s = Ret (hdr_type sp bdf) (s\<lparr>dev := d\<rparr>) \<and> good vis (s\<lparr>dev := d\<rparr>)"
    using assms observe by (intro exI [of _ d']) (simp add: good_def same_functions_def)
qed

lemma unat_bdf_of: "d < 32 \<Longrightarrow> f < 8 \<Longrightarrow> unat (bdf_of b d f) = unat b * 256 + d * 8 + f"
proof -
  assume df: "d < 32" "f < 8"
  have "bdf_of b d f = of_nat (unat b * 256 + d * 8 + f)" by (simp add: bdf_of_def)
  then show ?thesis using df unat_bound [of b] by (simp only:) (rule unat_of_nat_u32; simp)
qed

text \<open>A slot whose function 0 is there and says that it is not the only one.\<close>

definition multi_function :: "nat \<Rightarrow> bool" where
  "multi_function d \<longleftrightarrow> present sp (bdf_of b d 0) \<and> hdr_type sp (bdf_of b d 0) AND PCI_HEADER_TYPE_MULTI_FUNCTION \<noteq> 0"

lemma on_bus:
  assumes "present sp (bdf_of b d f)" "f = 0 \<or> multi_function d" "d < 32" "f < 8"
  shows "bdf_of b d f \<in> set (bus_functions sp b)"
proof -
  have "bdf_of b d f \<in> set (slot_functions sp b d)" using assms by (auto simp: slot_functions_def multi_function_def)
  then show ?thesis using assms(3) by (auto simp: bus_functions_def)
qed

text \<open>One function: skipped when absent, otherwise given to the callback.\<close>

lemma function_step:
  assumes "good vis s" and df: "d < 32" "f < 8" and above: "\<forall>v \<in> set vis. unat v < unat (bdf_of b d f)"
    and multi: "f = 0 \<or> multi_function d"
  shows "if present sp (bdf_of b d f)
    then \<exists>s'. pci_functions env fn d f (Suc k) s =
        (if f = 0 \<and> hdr_type sp (bdf_of b d f) AND PCI_HEADER_TYPE_MULTI_FUNCTION = 0 then Ret () s'
         else pci_functions env fn d (Suc f) k s') \<and> good (vis @ [bdf_of b d f]) s'
    else \<exists>s'. pci_functions env fn d f (Suc k) s = (if f = 0 then Ret () s' else pci_functions env fn d (Suc f) k s') \<and>
        good vis s'"
proof -
  let ?bdf = "bdf_of b d f"
  have bus: "ucast (bus s) * 256 + of_nat d * 8 + of_nat f = ?bdf"
    using assms(1) by (simp add: good_def same_functions_def bdf_of_def)
  obtain d1 where d1: "pci_config_readl env (ucast ?bdf) PCI_VENDOR_ID s = Ret (dev_id sp ?bdf) (s\<lparr>dev := d1\<rparr>)"
    "good vis (s\<lparr>dev := d1\<rparr>)" using probe(1) [OF assms(1)] by blast
  obtain d2 where d2: "pci_config_readb env (ucast ?bdf) PCI_HEADER_TYPE (s\<lparr>dev := d1\<rparr>) = Ret (hdr_type sp ?bdf) (s\<lparr>dev := d2\<rparr>)"
    "good vis (s\<lparr>dev := d2\<rparr>)" using probe(2) [OF d1(2)] by auto
  have absent: "(ucast (dev_id sp ?bdf AND 0xFFFF) :: u16) + 1 \<le> 1 \<longleftrightarrow> \<not> present sp ?bdf"
    unfolding vendor_absent present_def by blast
  have run: "pci_functions env fn d f (Suc k) s = (if \<not> present sp ?bdf
      then (if f = 0 then ret () else pci_functions env fn d (Suc f) k) (s\<lparr>dev := d1\<rparr>)
      else andthen (fn ?bdf (dev_id sp ?bdf) (hdr_type sp ?bdf))
        (if f = 0 \<and> hdr_type sp ?bdf AND PCI_HEADER_TYPE_MULTI_FUNCTION = 0 then ret ()
         else pci_functions env fn d (Suc f) k) (s\<lparr>dev := d2\<rparr>))"
    unfolding pci_functions.simps Let_def bind_apply get_state_apply outcome.case bus d1(1) absent
    by (simp add: bind_apply d2(1))
  show ?thesis
  proof (cases "present sp ?bdf")
    case True
    have "unat b * 256 \<le> unat ?bdf" "unat ?bdf < unat b * 256 + 256" using unat_bdf_of [OF df] df by simp_all
    then obtain s' where "fn ?bdf (dev_id sp ?bdf) (hdr_type sp ?bdf) (s\<lparr>dev := d2\<rparr>) = Ret () s'" "good (vis @ [?bdf]) s'"
      using callback [of "s\<lparr>dev := d2\<rparr>" vis ?bdf] d2(2) on_bus [OF True multi df] above by (auto simp: good_def)
    then show ?thesis unfolding run using True by (auto simp: andthen_apply intro!: exI [of _ s'])
  next
    case False
    then show ?thesis unfolding run using d1 by (auto intro!: exI [of _ "s\<lparr>dev := d1\<rparr>"])
  qed
qed

lemma functions_rest:
  assumes "good vis s" "d < 32" "0 < f" "f + k \<le> 8" "\<forall>v \<in> set vis. unat v < unat b * 256 + d * 8 + f" "multi_function d"
  shows "\<exists>s'. pci_functions env fn d f k s = Ret () s' \<and>
    good (vis @ filter (present sp) (map (bdf_of b d) [f..<f + k])) s'"
  using assms
proof (induction k arbitrary: f vis s)
  case (Suc k)
  let ?bdf = "bdf_of b d f" and ?rest = "filter (present sp) (map (bdf_of b d) [Suc f..<Suc f + k])"
  have f: "f < 8" using Suc.prems by simp
  have n: "unat ?bdf = unat b * 256 + d * 8 + f" by (rule unat_bdf_of [OF Suc.prems(2) f])
  have upt: "[f..<f + Suc k] = f # [Suc f..<Suc f + k]"
    using upt_conv_Cons [of f "f + Suc k"] by (simp del: upt_Suc)
  have above: "\<forall>v \<in> set vis. unat v < unat ?bdf" using Suc.prems(5) n by simp
  note step = function_step [OF Suc.prems(1,2) f above disjI2 [OF Suc.prems(6)], of k]
  show ?case
  proof (cases "present sp ?bdf")
    case True
    with step Suc.prems(3) obtain s' where s': "pci_functions env fn d f (Suc k) s = pci_functions env fn d (Suc f) k s'"
      "good (vis @ [?bdf]) s'" by auto
    have "\<forall>v \<in> set (vis @ [?bdf]). unat v < unat b * 256 + d * 8 + Suc f" using Suc.prems(5) n by (auto simp: less_Suc_eq)
    with Suc.IH [OF s'(2), of "Suc f"] Suc.prems(2,4,6) s'(1) True show ?thesis
      unfolding upt by (simp del: upt_Suc)
  next
    case False
    with step Suc.prems(3) obtain s' where s': "pci_functions env fn d f (Suc k) s = pci_functions env fn d (Suc f) k s'"
      "good vis s'" by auto
    have "\<forall>v \<in> set vis. unat v < unat b * 256 + d * 8 + Suc f" using Suc.prems(5) by auto
    with Suc.IH [OF s'(2), of "Suc f"] Suc.prems(2,4,6) s'(1) False show ?thesis
      unfolding upt by (simp del: upt_Suc)
  qed
qed simp

lemma slot_visit:
  assumes "good vis s" "d < 32" "\<forall>v \<in> set vis. unat v < unat b * 256 + d * 8"
  shows "\<exists>s'. pci_functions env fn d 0 8 s = Ret () s' \<and> good (vis @ slot_functions sp b d) s'"
proof -
  let ?bdf = "bdf_of b d 0"
  have n: "unat ?bdf = unat b * 256 + d * 8" using unat_bdf_of [OF assms(2), of 0] by simp
  have eight: "8 = Suc 7" by simp
  have above: "\<forall>v \<in> set vis. unat v < unat ?bdf" using assms(3) n by simp
  note step = function_step [OF assms(1,2) _ above disjI1 [OF refl], of 7, folded eight, simplified]
  have upt: "[0..<8] = 0 # [Suc 0..<Suc 0 + 7]" by (simp add: upt_rec)
  show ?thesis
  proof (cases "present sp ?bdf \<and> hdr_type sp ?bdf AND PCI_HEADER_TYPE_MULTI_FUNCTION \<noteq> 0")
    case True
    with step obtain s' where s': "pci_functions env fn d 0 8 s = pci_functions env fn d (Suc 0) 7 s'" "good (vis @ [?bdf]) s'"
      by auto
    have "\<forall>v \<in> set (vis @ [?bdf]). unat v < unat b * 256 + d * 8 + Suc 0" using assms(3) n by (auto simp: less_Suc_eq)
    from functions_rest [OF s'(2) assms(2) _ _ this, of 7] True obtain s'' where
      "pci_functions env fn d (Suc 0) 7 s' = Ret () s''"
      "good ((vis @ [?bdf]) @ filter (present sp) (map (bdf_of b d) [Suc 0..<Suc 0 + 7])) s''" by (auto simp: multi_function_def)
    then show ?thesis using True s'(1) unfolding slot_functions_def upt by (simp del: upt_Suc)
  next
    case False
    then show ?thesis using step by (auto simp: slot_functions_def split: if_splits)
  qed
qed

lemma slot_functions_range:
  assumes "d < 32" "v \<in> set (slot_functions sp b d)"
  shows "unat v < unat b * 256 + Suc d * 8"
proof -
  have "\<exists>f < 8. v = bdf_of b d f"
    using assms(2) by (auto simp: slot_functions_def split: if_splits intro!: exI [of "\<lambda>f. f < 8 \<and> bdf_of b d 0 = bdf_of b d f" 0])
  then obtain f where "f < 8" "v = bdf_of b d f" by blast
  then show ?thesis using unat_bdf_of [OF assms(1)] by simp
qed

lemma slots_visit:
  assumes "good [] s" "n \<le> 32"
  shows "\<exists>s'. for_each [0..<n] (\<lambda>d. pci_functions env fn d 0 8) s = Ret () s' \<and>
    good (concat (map (slot_functions sp b) [0..<n])) s' \<and>
    (\<forall>v \<in> set (concat (map (slot_functions sp b) [0..<n])). unat v < unat b * 256 + n * 8)"
  using assms(2)
proof (induction n)
  case 0
  then show ?case using assms(1) by simp
next
  case (Suc n)
  then obtain s1 where s1: "for_each [0..<n] (\<lambda>d. pci_functions env fn d 0 8) s = Ret () s1"
    "good (concat (map (slot_functions sp b) [0..<n])) s1"
    "\<forall>v \<in> set (concat (map (slot_functions sp b) [0..<n])). unat v < unat b * 256 + n * 8" by auto
  obtain s2 where "pci_functions env fn n 0 8 s1 = Ret () s2"
    "good (concat (map (slot_functions sp b) [0..<n]) @ slot_functions sp b n) s2"
    using slot_visit [OF s1(2) _ s1(3)] Suc.prems by auto
  moreover have "\<forall>v \<in> set (concat (map (slot_functions sp b) [0..<Suc n])). unat v < unat b * 256 + Suc n * 8"
  proof
    fix v assume "v \<in> set (concat (map (slot_functions sp b) [0..<Suc n]))"
    then have "v \<in> set (concat (map (slot_functions sp b) [0..<n])) \<or> v \<in> set (slot_functions sp b n)" by auto
    then show "unat v < unat b * 256 + Suc n * 8"
      using s1(3) slot_functions_range [of n v] Suc.prems by fastforce
  qed
  ultimately show ?case using s1(1) by (simp add: for_each_append prog_simps)
qed

lemma bus_visit:
  assumes "same_functions space sp b s" "J [] s"
  shows "\<exists>s'. pci_foreach env fn s = Ret () s' \<and> same_functions space sp b s' \<and> J (bus_functions sp b) s'"
  using slots_visit [of s 32] assms unfolding pci_foreach_def bus_functions_def good_def by auto

end

section \<open>Bridges\<close>

text \<open>Only registers from 0x10 up of function \<open>bdf\<close> differ.\<close>

definition touches :: "u32 \<Rightarrow> (u32 \<Rightarrow> u8) \<Rightarrow> (u32 \<Rightarrow> u8) \<Rightarrow> bool" where
  "touches bdf sp sp' \<longleftrightarrow>
     (\<forall>r. sp' r \<noteq> sp r \<longrightarrow> unat r div 256 = unat (ucast bdf :: u16) \<and> 16 \<le> unat r mod 256)"

lemma touches_refl [intro, simp]: "touches bdf sp sp"
  by (simp add: touches_def)

lemma touches_trans [trans]: "touches bdf sp sp' \<Longrightarrow> touches bdf sp' sp'' \<Longrightarrow> touches bdf sp sp''"
  unfolding touches_def by metis

lemma low_byte: "unat (a AND 0xff :: u32) < 256"
proof -
  have "a AND 0xff = take_bit 8 a" by (simp add: mask_lits(1) take_bit_eq_mask)
  then have "unat (a AND 0xff) = take_bit 8 (unat a)" by (simp only: unsigned_take_bit_eq)
  then show ?thesis using take_bit_nat_less_exp [of 8 "unat a"] by simp
qed

lemma unat_pci_reg: "unat (pci_reg bdf a) = unat bdf * 256 + unat (a AND 0xff)"
proof -
  have "pci_reg bdf a = of_nat (unat bdf * 256 + unat (a AND 0xff))"
    by (simp add: pci_reg_def push_bit_eq_mult mult.commute)
  then show ?thesis using low_byte [of a] unat_bound [of bdf] by (simp only:) (rule unat_of_nat_u32; simp)
qed

lemma touches_keeps:
  assumes "touches bdf sp sp'" "unat (a AND 0xff) < 16 \<or> ucast bdf \<noteq> bdf'"
  shows "sp' (pci_reg bdf' a) = sp (pci_reg bdf' a)"
proof -
  have "unat (pci_reg bdf' a) div 256 = unat bdf'" "unat (pci_reg bdf' a) mod 256 = unat (a AND 0xff)"
    using low_byte [of a] by (simp_all add: unat_pci_reg)
  then show ?thesis using assms unfolding touches_def by (metis leD word_unat_eq_iff)
qed

lemma touches_write:
  assumes "16 \<le> unat (a AND 0xff)" "unat (a AND 0xff) + length bs \<le> 256"
  shows "touches bdf sp (cfg_write wr (pci_reg (ucast bdf) a) bs sp)"
  unfolding touches_def
proof (intro allI impI)
  fix r let ?p = "pci_reg (ucast bdf) a"
  assume "cfg_write wr ?p bs sp r \<noteq> sp r"
  then have "inside r ?p (length bs)" using cfg_write_outside [of r ?p bs wr sp] assms by force
  moreover have "r = ?p + (r - ?p)" by simp
  ultimately have "unat (r - ?p) < length bs" by (simp add: inside_def)
  moreover have "unat r = unat ?p + unat (r - ?p)"
  proof -
    have "unat ?p + unat (r - ?p) < 2 ^ 32"
      using calculation assms unat_bound [of "ucast bdf :: u16"] by (simp add: unat_pci_reg)
    then show ?thesis by (subst \<open>r = ?p + (r - ?p)\<close>, subst unat_word_ariths) simp
  qed
  ultimately have "unat r = unat (ucast bdf :: u16) * 256 + (unat (a AND 0xff) + unat (r - ?p))"
    "unat (a AND 0xff) + unat (r - ?p) < 256" "16 \<le> unat (a AND 0xff) + unat (r - ?p)"
    using assms by (simp_all add: unat_pci_reg)
  then show "unat r div 256 = unat (ucast bdf :: u16) \<and> 16 \<le> unat r mod 256" by simp
qed

lemma pci_reg_inject: "pci_reg w a = pci_reg w' a' \<longleftrightarrow> w = w' \<and> a AND 0xff = a' AND 0xff"
proof
  assume "pci_reg w a = pci_reg w' a'"
  then have e: "unat w * 256 + unat (a AND 0xff) = unat w' * 256 + unat (a' AND 0xff)" by (metis unat_pci_reg)
  from arg_cong [OF this, of "\<lambda>n. n div 256"] have "unat w = unat w'" using low_byte [of a] low_byte [of a'] by simp
  with e show "w = w' \<and> a AND 0xff = a' AND 0xff" by (simp add: word_unat_eq_iff)
qed (simp add: pci_reg_def)

lemma dev_id_at: "dev_id sp v = le_word [sp (pci_reg (ucast v) 0), sp (pci_reg (ucast v) 1), sp (pci_reg (ucast v) 2), sp (pci_reg (ucast v) 3)]"
proof -
  have "pci_reg w 0 + 1 = pci_reg w 1" "pci_reg w 1 + 1 = pci_reg w 2" "pci_reg w 2 + 1 = pci_reg w 3" for w
    by (simp_all add: pci_reg_def)
  then show ?thesis by (simp add: dev_id_def load_bytes_numeral)
qed

lemma class_of_at: "class_of sp v = le_word [sp (pci_reg (ucast v) 0x0a), sp (pci_reg (ucast v) 0x0b)]"
proof -
  have "pci_reg w 0x0a + 1 = pci_reg w 0x0b" for w by (simp add: pci_reg_def)
  then show ?thesis by (simp add: class_of_def load_bytes_numeral)
qed

lemma upt_32: "[0..<32] = [0, 1, 2, 3, 4, 5, 6, 7, 8, 9, 10, 11, 12, 13, 14, 15, 16, 17, 18, 19, 20, 21, 22, 23, 24,
    25, 26, 27, 28, 29, 30, 31]"
  by (simp add: upt_rec)

lemma touches_config:
  assumes "touches bdf sp sp'"
  shows "dev_id sp' v = dev_id sp v" "hdr_type sp' v = hdr_type sp v" "class_of sp' v = class_of sp v"
proof -
  have "sp' (pci_reg w a) = sp (pci_reg w a)" if "unat (a AND 0xff) < 16" for w a
    using touches_keeps [OF assms] that by blast
  then show "dev_id sp' v = dev_id sp v" "hdr_type sp' v = hdr_type sp v" "class_of sp' v = class_of sp v"
    by (simp_all add: dev_id_at hdr_type_def class_of_at)
qed

text \<open>Programs that return, having changed only registers of function \<open>bdf\<close>.\<close>

context pci_port
begin

definition runs :: "u32 \<Rightarrow> ('d, unit) fw \<Rightarrow> bool" where
  "runs bdf p \<longleftrightarrow> (\<forall>s. \<exists>d. p s = Ret () (s\<lparr>dev := d\<rparr>) \<and> touches bdf (space (dev s)) (space d))"

lemma runs_ret [intro]: "runs bdf (ret ())"
proof -
  have "s = s\<lparr>dev := dev s\<rparr>" for s :: "'d machine" by simp
  then show ?thesis unfolding runs_def ret_def by (metis touches_refl)
qed

lemma runs_then [intro]:
  assumes "runs bdf p" "runs bdf q"
  shows "runs bdf (andthen p q)"
  unfolding runs_def
proof
  fix s
  obtain d where d: "p s = Ret () (s\<lparr>dev := d\<rparr>)" "touches bdf (space (dev s)) (space d)"
    using assms(1) unfolding runs_def by blast
  obtain d' where d': "q (s\<lparr>dev := d\<rparr>) = Ret () (s\<lparr>dev := d\<rparr>\<lparr>dev := d'\<rparr>)"
    "touches bdf (space (dev (s\<lparr>dev := d\<rparr>))) (space d')"
    using assms(2) unfolding runs_def by blast
  have "touches bdf (space (dev s)) (space d')" using d(2) d'(2) touches_trans by simp
  then show "\<exists>d. andthen p q s = Ret () (s\<lparr>dev := d\<rparr>) \<and> touches bdf (space (dev s)) (space d)"
    using d(1) d'(1) by (intro exI [of _ d']) (simp add: andthen_apply)
qed

lemma runs_when [intro]: "(c \<Longrightarrow> runs bdf p) \<Longrightarrow> runs bdf (when_do c p)"
  using runs_ret by (auto simp: when_do_def)

lemma runs_bind:
  assumes "\<And>s. \<exists>v d. r s = Ret v (s\<lparr>dev := d\<rparr>) \<and> space d = space (dev s)" "\<And>v. runs bdf (f v)"
  shows "runs bdf (bind r f)"
  unfolding runs_def
proof
  fix s
  obtain v d where d: "r s = Ret v (s\<lparr>dev := d\<rparr>)" "space d = space (dev s)" using assms(1) by blast
  obtain d' where d': "f v (s\<lparr>dev := d\<rparr>) = Ret () (s\<lparr>dev := d\<rparr>\<lparr>dev := d'\<rparr>)"
    "touches bdf (space (dev (s\<lparr>dev := d\<rparr>))) (space d')"
    using assms(2) [of v] unfolding runs_def by blast
  show "\<exists>d. bind r f s = Ret () (s\<lparr>dev := d\<rparr>) \<and> touches bdf (space (dev s)) (space d)"
    using d d' by (intro exI [of _ d']) (simp add: bind_apply)
qed

lemma runs_readb [intro]: "(\<And>v. runs bdf (f v)) \<Longrightarrow> runs bdf (bind (pci_config_readb env (ucast bdf) a) f)"
  by (rule runs_bind) (use readb in blast)

lemma runs_readw [intro]: "(\<And>v. runs bdf (f v)) \<Longrightarrow> runs bdf (bind (pci_config_readw env (ucast bdf) a) f)"
  by (rule runs_bind) (use readw in blast)

lemma runs_writeb [intro]:
  assumes "16 \<le> unat (a AND 0xff)"
  shows "runs bdf (pci_config_writeb env (ucast bdf) a v)"
  unfolding runs_def
proof
  fix s
  obtain d where "pci_config_writeb env (ucast bdf) a v s = Ret () (s\<lparr>dev := d\<rparr>)"
    "space d = cfg_write wr (pci_reg (ucast bdf) a) [v] (space (dev s))" using writeb by blast
  then show "\<exists>d. pci_config_writeb env (ucast bdf) a v s = Ret () (s\<lparr>dev := d\<rparr>) \<and> touches bdf (space (dev s)) (space d)"
    using touches_write [of a "[v]" bdf] assms low_byte [of a] by auto
qed

lemma runs_writew [intro]:
  assumes "16 \<le> unat ((a AND 0xfe) AND 0xff)" "unat ((a AND 0xfe) AND 0xff) + 2 \<le> 256"
  shows "runs bdf (pci_config_writew env (ucast bdf) a v)"
  unfolding runs_def
proof
  fix s
  obtain d where "pci_config_writew env (ucast bdf) a v s = Ret () (s\<lparr>dev := d\<rparr>)"
    "space d = cfg_write wr (pci_reg (ucast bdf) (a AND 0xfe)) (le_bytes 2 v) (space (dev s))" using writew by blast
  then show "\<exists>d. pci_config_writew env (ucast bdf) a v s = Ret () (s\<lparr>dev := d\<rparr>) \<and> touches bdf (space (dev s)) (space d)"
    using touches_write [of "a AND 0xfe" "le_bytes 2 v" bdf] assms by auto
qed

lemma runs_writel [intro]:
  assumes "16 \<le> unat ((a AND 0xfc) AND 0xff)" "unat ((a AND 0xfc) AND 0xff) + 4 \<le> 256"
  shows "runs bdf (pci_config_writel env (ucast bdf) a v)"
  unfolding runs_def
proof
  fix s
  obtain d where "pci_config_writel env (ucast bdf) a v s = Ret () (s\<lparr>dev := d\<rparr>)"
    "space d = cfg_write wr (pci_reg (ucast bdf) (a AND 0xfc)) (le_bytes 4 v) (space (dev s))" using writel by blast
  then show "\<exists>d. pci_config_writel env (ucast bdf) a v s = Ret () (s\<lparr>dev := d\<rparr>) \<and> touches bdf (space (dev s)) (space d)"
    using touches_write [of "a AND 0xfc" "le_bytes 4 v" bdf] assms by auto
qed

lemma runs_get: "(\<And>s. runs bdf (f s)) \<Longrightarrow> runs bdf (bind get_state f)"
  by (auto simp: runs_def bind_apply)

lemma runs_if: "(c \<Longrightarrow> runs bdf p) \<Longrightarrow> (\<not> c \<Longrightarrow> runs bdf q) \<Longrightarrow> runs bdf (if c then p else q)"
  by simp

lemma runs_irq: "runs bdf (do_setup_pci_irq env bdf pin)"
  unfolding do_setup_pci_irq_def Let_def
  by (intro runs_readb runs_if runs_ret runs_get runs_writeb) simp

lemma runs_bar_setup:
  "runs bdf (andthen (pci_config_writel env (ucast bdf) 0x10 0x1f0)
        (andthen (pci_config_writel env (ucast bdf) 0x14 0x3f4)
        (andthen (pci_config_writel env (ucast bdf) 0x18 0x170)
        (andthen (pci_config_writel env (ucast bdf) 0x1c 0x374)
        (when_do (devid = ID_INTEL_82371SB_1 \<or> devid = ID_INTEL_82371AB)
          (andthen (pci_config_writew env (ucast bdf) 0x40 0x8000)
          (pci_config_writew env (ucast bdf) 0x42 0x8000)))))))"
  by (intro runs_then runs_when runs_writel runs_writew) simp_all

lemma runs_step:
  assumes "runs bdf p"
  obtains d where "andthen p q s = q (s\<lparr>dev := d\<rparr>)" "touches bdf (space (dev s)) (space d)"
  using assms unfolding runs_def by (metis andthen_apply outcome.case(1))

lemma do_setup_pci_effect:
  assumes rw: "class_of (space (dev s)) bdf = PCI_CLASS_BRIDGE_PCI \<Longrightarrow> takes wr (pci_reg (ucast bdf) 0x19) 0xff"
  obtains d where "touches bdf (space (dev s)) (space d)"
    "do_setup_pci env bdf devid typ s = Ret () (if class_of (space (dev s)) bdf = PCI_CLASS_BRIDGE_PCI
      then s\<lparr>dev := d, bridge_head := ucast (bdf AND 0xff), bridge_count := bridge_count s + 1\<rparr> else s\<lparr>dev := d\<rparr>)"
    "class_of (space (dev s)) bdf = PCI_CLASS_BRIDGE_PCI \<Longrightarrow> space d (pci_reg (ucast bdf) 0x19) = bridge_head s"
proof -
  let ?B = "ucast bdf :: u16" and ?cls = "class_of (space (dev s)) bdf"
  obtain pin d1 where d1: "pci_config_readb env ?B PCI_INTERRUPT_PIN s = Ret pin (s\<lparr>dev := d1\<rparr>)" "space d1 = space (dev s)"
    using readb by blast
  let ?irq = "when_do (pin \<noteq> 0) (do_setup_pci_irq env bdf (uint pin))"
  let ?ctl = "when_do (typ AND PCI_HEADER_TYPE_BRIDGE \<noteq> 0) (bind (pci_config_readw env ?B PCI_BRIDGE_CONTROL) (\<lambda>ctl.
         pci_config_writew env ?B PCI_BRIDGE_CONTROL (ctl OR PCI_BRIDGE_CTL_SERR)))"
  have "runs bdf ?irq" "runs bdf ?ctl"
    by (intro runs_when runs_irq, intro runs_when runs_readw runs_writew) simp_all
  then obtain d3 where d3: "\<And>q :: ('d, unit) fw. andthen ?irq (andthen ?ctl q) (s\<lparr>dev := d1\<rparr>) = q (s\<lparr>dev := d3\<rparr>)"
    "touches bdf (space (dev s)) (space d3)"
  proof -
    assume a: "runs bdf ?irq" "runs bdf ?ctl" and that: "\<And>d3. (\<And>q :: ('d, unit) fw. andthen ?irq (andthen ?ctl q) (s\<lparr>dev := d1\<rparr>) = q (s\<lparr>dev := d3\<rparr>)) \<Longrightarrow>
      touches bdf (space (dev s)) (space d3) \<Longrightarrow> thesis"
    obtain d2 where d2: "?irq (s\<lparr>dev := d1\<rparr>) = Ret () (s\<lparr>dev := d2\<rparr>)" "touches bdf (space (dev s)) (space d2)"
      using a(1) d1(2) unfolding runs_def by (auto dest!: spec [of _ "s\<lparr>dev := d1\<rparr>"])
    obtain d3 where "?ctl (s\<lparr>dev := d2\<rparr>) = Ret () (s\<lparr>dev := d3\<rparr>)" "touches bdf (space d2) (space d3)"
      using a(2) unfolding runs_def by (auto dest!: spec [of _ "s\<lparr>dev := d2\<rparr>"])
    then show thesis using d2 by (intro that [of d3]) (auto simp: andthen_apply intro: touches_trans)
  qed
  have cls3: "class_of (space d3) bdf = ?cls" by (rule touches_config(3) [OF d3(2)])
  obtain d4 where d4: "pci_config_readw env ?B PCI_CLASS_DEVICE (s\<lparr>dev := d3\<rparr>) = Ret ?cls (s\<lparr>dev := d4\<rparr>)" "space d4 = space d3"
    using readw [of ?B PCI_CLASS_DEVICE "s\<lparr>dev := d3\<rparr>"] cls3 by (auto simp: class_of_def)
  note run = do_setup_pci_def bind_run [where p = "pci_config_readb env ?B PCI_INTERRUPT_PIN", OF d1(1)] d3(1)
    bind_run [where p = "pci_config_readw env ?B PCI_CLASS_DEVICE", OF d4(1)]
  consider "?cls = PCI_CLASS_STORAGE_IDE" | "?cls = PCI_CLASS_BRIDGE_PCI" | "?cls \<noteq> PCI_CLASS_STORAGE_IDE" "?cls \<noteq> PCI_CLASS_BRIDGE_PCI"
    by blast
  then show thesis
  proof cases
    case 1
    then obtain d5 where d5: "touches bdf (space d4) (space d5)"
      "do_setup_pci env bdf devid typ s = Ret () (s\<lparr>dev := d5\<rparr>)"
      using runs_bar_setup [of bdf devid] unfolding runs_def run
      by (auto dest!: spec [of _ "s\<lparr>dev := d4\<rparr>"])
    have "touches bdf (space (dev s)) (space d5)" using d3(2) d4(2) d5(1) touches_trans by simp
    then show thesis using d5(2) 1 by (intro that [of d5]) simp_all
  next
    case 2
    have "runs bdf (pci_config_writeb env ?B PCI_PRIMARY_BUS (bus s))" "runs bdf (pci_config_writeb env ?B PCI_SUBORDINATE_BUS 0)"
      by (intro runs_writeb, simp)+
    then have "runs bdf (andthen (pci_config_writeb env ?B PCI_PRIMARY_BUS (bus s)) (pci_config_writeb env ?B PCI_SUBORDINATE_BUS 0))"
      by (rule runs_then)
    then obtain d5 where d5: "andthen (pci_config_writeb env ?B PCI_PRIMARY_BUS (bus s)) (pci_config_writeb env ?B PCI_SUBORDINATE_BUS 0)
        (s\<lparr>dev := d4\<rparr>) = Ret () (s\<lparr>dev := d5\<rparr>)" "touches bdf (space d4) (space d5)"
      unfolding runs_def by (auto dest!: spec [of _ "s\<lparr>dev := d4\<rparr>"])
    obtain d6 where d6: "pci_config_writeb env ?B PCI_SECONDARY_BUS (bridge_head s) (s\<lparr>dev := d5\<rparr>) = Ret () (s\<lparr>dev := d6\<rparr>)"
      "space d6 = cfg_write wr (pci_reg ?B 0x19) [bridge_head s] (space d5)"
      using writeb [of ?B PCI_SECONDARY_BUS "bridge_head s" "s\<lparr>dev := d5\<rparr>"] by auto
    have "touches bdf (space d5) (space d6)" unfolding d6(2) by (rule touches_write) simp_all
    then have t: "touches bdf (space (dev s)) (space d6)" using d3(2) d4(2) d5(2) touches_trans by metis
    have "do_setup_pci env bdf devid typ s
      = Ret () (s\<lparr>dev := d6, bridge_head := ucast (bdf AND 0xff), bridge_count := bridge_count s + 1\<rparr>)"
      using d6(1) unfolding run by (simp add: 2 bind_apply andthen_run [OF d5(1)]) (simp add: andthen_apply)
    moreover have "space d6 (pci_reg ?B 0x19) = bridge_head s" unfolding d6(2) by (simp add: cfg_write_byte [OF rw [OF 2]])
    ultimately show thesis using t 2 by (intro that [of d6]) simp_all
  next
    case 3
    have "do_setup_pci env bdf devid typ s = Ret () (s\<lparr>dev := d4\<rparr>)"
      unfolding run using 3 by simp
    then show thesis using 3 d3(2) d4(2) by (intro that [of d4]) simp_all
  qed
qed

end

text \<open>
  The bridges are kept as a list in the hardware: \<open>bridge_head\<close> is the last one found, its secondary bus
  register holds the one found before, and 0xff ends the list.
\<close>

primrec threaded :: "(u32 \<Rightarrow> u8) \<Rightarrow> u8 \<Rightarrow> u32 list \<Rightarrow> bool" where
  "threaded sp h [] \<longleftrightarrow> h = 0xff"
| "threaded sp h (v # vs) \<longleftrightarrow> h = ucast (v AND 0xff) \<and> threaded sp (sp (pci_reg (ucast v) 0x19)) vs"

definition bridges_of :: "(u32 \<Rightarrow> u8) \<Rightarrow> u32 list \<Rightarrow> u32 list" where
  "bridges_of sp vs = filter (\<lambda>v. class_of sp v = PCI_CLASS_BRIDGE_PCI) vs"

lemma bridges_of_snoc:
  "bridges_of sp (vs @ [v]) = bridges_of sp vs @ (if class_of sp v = PCI_CLASS_BRIDGE_PCI then [v] else [])"
  by (simp add: bridges_of_def)

definition bridges_kept :: "('d \<Rightarrow> u32 \<Rightarrow> u8) \<Rightarrow> (u32 \<Rightarrow> u8) \<Rightarrow> 'd machine \<Rightarrow> u32 list \<Rightarrow> 'd machine \<Rightarrow> bool" where
  "bridges_kept space sp s0 vs s \<longleftrightarrow>
     s\<lparr>dev := dev s0, bridge_head := bridge_head s0, bridge_count := bridge_count s0\<rparr> = s0 \<and>
     threaded (space (dev s)) (bridge_head s) (rev (bridges_of sp vs)) \<and>
     bridge_count s = of_nat (length (bridges_of sp vs))"

lemma threaded_cong:
  "(\<And>v. v \<in> set vs \<Longrightarrow> sp' (pci_reg (ucast v) 0x19) = sp (pci_reg (ucast v) 0x19)) \<Longrightarrow>
   threaded sp' h vs = threaded sp h vs"
  by (induction vs arbitrary: h) auto

lemma low_half: "unat (v :: u32) < 65536 \<Longrightarrow> unat (ucast v :: u16) = unat v"
  by (simp add: unsigned_ucast_eq take_bit_nat_eq_self)

lemma setup_pci_visits:
  assumes "pci_device env latch space wr"
    and rw: "\<And>v. v \<in> set (bridges_of sp (bus_functions sp b)) \<Longrightarrow> takes wr (pci_reg (ucast v) 0x19) 0xff"
  shows "pci_visit env latch space wr (do_setup_pci env) sp b (bridges_kept space sp s0)"
proof (intro pci_visit.intro pci_visit_axioms.intro)
  show "pci_port env latch space wr" using assms(1) by (rule pci_port.intro)
next
  fix vis d and s :: "'a machine"
  show "bridges_kept space sp s0 vis s \<Longrightarrow> space d = space (dev s) \<Longrightarrow> bridges_kept space sp s0 vis (s\<lparr>dev := d\<rparr>)"
    by (auto simp: bridges_kept_def)
next
  fix s :: "'a machine" and vis and bdf :: u32
  assume same: "same_functions space sp b s" and kept: "bridges_kept space sp s0 vis s"
    and on_bus: "bdf \<in> set (bus_functions sp b)" and below: "\<forall>v \<in> set vis. unat v < unat bdf" and top: "unat bdf < unat b * 256 + 256"
  have cls: "class_of (space (dev s)) bdf = class_of sp bdf" using same by (simp add: same_functions_def)
  obtain d where d: "touches bdf (space (dev s)) (space d)"
    "do_setup_pci env bdf (dev_id sp bdf) (hdr_type sp bdf) s = Ret () (if class_of sp bdf = PCI_CLASS_BRIDGE_PCI
      then s\<lparr>dev := d, bridge_head := ucast (bdf AND 0xff), bridge_count := bridge_count s + 1\<rparr> else s\<lparr>dev := d\<rparr>)"
    "class_of sp bdf = PCI_CLASS_BRIDGE_PCI \<Longrightarrow> space d (pci_reg (ucast bdf) 0x19) = bridge_head s"
    using pci_port.do_setup_pci_effect [OF pci_port.intro [OF assms(1)], of s bdf] rw [of bdf] on_bus unfolding cls
    by (auto simp: bridges_of_def)
  have small: "unat bdf < 65536" using top unat_bound [of b] by simp
  have "space d (pci_reg (ucast v) 0x19) = space (dev s) (pci_reg (ucast v) 0x19)" if "v \<in> set vis" for v
  proof (rule touches_keeps [OF d(1)])
    have "unat (ucast v :: u16) < unat (ucast bdf :: u16)" using below that small by (auto simp: low_half)
    then show "unat (25 AND 0xff :: u32) < 16 \<or> (ucast bdf :: u16) \<noteq> ucast v" by auto
  qed
  then have old: "threaded (space d) h (rev (bridges_of sp vis)) = threaded (space (dev s)) h (rev (bridges_of sp vis))" for h
    by (intro threaded_cong) (auto simp: bridges_of_def)
  let ?t = "if class_of sp bdf = PCI_CLASS_BRIDGE_PCI
      then s\<lparr>dev := d, bridge_head := ucast (bdf AND 0xff), bridge_count := bridge_count s + 1\<rparr> else s\<lparr>dev := d\<rparr>"
  have "same_functions space sp b ?t" using same touches_config [OF d(1)] by (simp add: same_functions_def)
  moreover have "bridges_kept space sp s0 (vis @ [bdf]) ?t"
    using kept d(3) by (auto simp: bridges_kept_def old bridges_of_snoc split: if_splits)
  ultimately show "\<exists>s'. do_setup_pci env bdf (dev_id sp bdf) (hdr_type sp bdf) s = Ret () s' \<and>
      same_functions space sp b s' \<and> bridges_kept space sp s0 (vis @ [bdf]) s'" using d(2) by blast
qed

interpretation refvisit: pci_visit "ref_env E" cfg_addr cfg_space "\<lambda>_ _ v. v" "do_setup_pci (ref_env E)" sp b "bridges_kept cfg_space sp s0"
  for E sp b s0 by (rule setup_pci_visits [OF ref_pci_device]) simp






text \<open>
  A machine with one bus: with a known host bridge and no bridge on bus 0, one level of recursion is enough, and memory
  then differs only by the BIOS32 header.
\<close>

lemma setup_pci_returns:
  fixes devid :: u32
  assumes "pci_device env latch space wr"
    and "devid = le_word (load_bytes (space (dev s)) (pci_reg 0 0) 4)"
    and "devid = ID_INTEL_82441 \<or> devid = ID_INTEL_Q35_MCH"
    and "bridges_of (space (dev s)) (bus_functions (space (dev s)) (bus s)) = []"
    and "fseg_fits 16 16 s"
  shows "\<exists>t p ck. setup_pci (Suc n) env s = Ret () t \<and>
    mem t = store_bytes (mem s) p (bios32_bytes (bios32_entry env) ck) \<and> fseg_base t = p + 16 \<and>
    sum_list (bios32_bytes (bios32_entry env) ck) = 0 \<and> use_i440fx_routing t = (devid = ID_INTEL_82441) \<and>
    unat (fseg_base s) \<le> unat p \<and> unat p < unat (fseg_base s) + 16 \<and> unat p mod 16 = 0 \<and>
    malloc_top t = malloc_top s \<and> file_address t = file_address s \<and> have_mmconfig t = have_mmconfig s"
proof -
  let ?u = "devid = ID_INTEL_82441"
  obtain d where d: "space d = space (dev s)" "setup_pci (Suc n) env s = andthen (do_setup_pci_bus (Suc n) env) (setup_bios32 env)
      (s\<lparr>dev := d, use_i440fx_routing := ?u\<rparr>)"
    using setup_pci_dispatch [OF assms(1,2), of "Suc n"] assms(3) by auto
  let ?s = "s\<lparr>dev := d, use_i440fx_routing := ?u, bridge_head := 0xff, bridge_count := 0\<rparr>"
  have "pci_visit env latch space wr (do_setup_pci env) (space d) (bus s) (bridges_kept space (space d) ?s)"
    using assms(1,4) d(1) by (intro setup_pci_visits) auto
  moreover have "same_functions space (space d) (bus s) ?s" by (simp add: same_functions_def)
  moreover have "bridges_kept space (space d) ?s [] ?s" by (simp add: bridges_kept_def bridges_of_def)
  ultimately obtain t where "pci_foreach env (do_setup_pci env) ?s = Ret () t"
    "bridges_kept space (space d) ?s (bus_functions (space d) (bus s)) t" using pci_visit.bus_visit by blast
  then have t: "pci_foreach env (do_setup_pci env) ?s = Ret () t" "bridge_count t = 0"
    "t\<lparr>dev := d, bridge_head := 0xff, bridge_count := 0\<rparr> = ?s"
    using assms(4) d(1) by (simp_all add: bridges_kept_def)
  have bus_done: "do_setup_pci_bus (Suc n) env (s\<lparr>dev := d, use_i440fx_routing := ?u\<rparr>) = Ret () t"
    using t(1,2) by (simp add: andthen_apply bind_apply)
  have "f t = f ?s" if "\<And>x y z w. f (w\<lparr>dev := x, bridge_head := y, bridge_count := z\<rparr>) = f w" for f :: "'a machine \<Rightarrow> 'x"
    using arg_cong [OF t(3), of f] that by simp
  note this [of mem] this [of fseg_base] this [of use_i440fx_routing] this [of malloc_top] this [of file_address] this [of have_mmconfig]
  then have same: "mem t = mem s" "fseg_base t = fseg_base s" "use_i440fx_routing t = ?u" "malloc_top t = malloc_top s"
    "file_address t = file_address s" "have_mmconfig t = have_mmconfig s" by simp_all
  then have "fseg_fits 16 16 t" using assms(5) by (simp add: fseg_fits_def)
  then obtain p ck where "setup_bios32 env t = Ret () (t\<lparr>fseg_base := p + 16, mem := store_bytes (mem t) p (bios32_bytes (bios32_entry env) ck)\<rparr>)"
    "sum_list (bios32_bytes (bios32_entry env) ck) = 0" "unat (fseg_base t) \<le> unat p" "unat p < unat (fseg_base t) + 16" "unat p mod 16 = 0"
    using setup_bios32_effect [of t env] by metis
  then show ?thesis using bus_done same
    by (intro exI [of _ "t\<lparr>fseg_base := p + 16, mem := store_bytes (mem t) p (bios32_bytes (bios32_entry env) ck)\<rparr>"]
        exI [of _ p] exI [of _ ck]) (simp add: d(2) andthen_apply)
qed

text \<open>The i440FX host bridge alone.\<close>

definition host_space :: "u32 \<Rightarrow> u8" where
  "host_space r = (if r = pci_reg 0 0 then 0x86 else if r = pci_reg 0 1 then 0x80 else if r = pci_reg 0 2 then 0x37
     else if r = pci_reg 0 3 then 0x12 else if r = pci_reg 0 0x0b then 6 else 0)"

lemma host_alone:
  "(ID_INTEL_82441 :: u32) = le_word (load_bytes host_space (pci_reg 0 0) 4)" "bridges_of host_space (bus_functions host_space 0) = []"
proof -
  show "(ID_INTEL_82441 :: u32) = le_word (load_bytes host_space (pci_reg 0 0) 4)" by code_simp
  have one: "present host_space v \<longleftrightarrow> (ucast v :: u16) = 0" for v
    by (auto simp: present_def dev_id_at host_space_def pci_reg_inject)
  have "bus_functions host_space 0 = [0]"
    unfolding bus_functions_def upt_32
    by (simp add: slot_functions_def one bdf_of_def hdr_type_def host_space_def pci_reg_inject)
  then show "bridges_of host_space (bus_functions host_space 0) = []"
    by (simp add: bridges_of_def class_of_at host_space_def pci_reg_inject)
qed

end
