(* ===== verification/Pcibios.thy ===== *)
theory Pcibios
  imports Pci
begin

text \<open>
  code32seg.c: the 32-bit PCI BIOS the operating system may call. It is position independent: what it
  reads through \<open>FLAT_VAR\<close> is the variable at its physical address, wherever the caller has mapped that.
\<close>

record bios32regs =
  p_eax :: u32
  p_ebx :: u32
  p_ecx :: u32
  p_edx :: u32
  p_esp :: u32
  p_ebp :: u32
  p_esi :: u32
  p_edi :: u32
  p_ds :: u32
  p_es :: u32
  p_fs :: u32
  p_eflags :: u32

abbreviation (input) PCI_FUNC_NOT_SUPPORTED where "PCI_FUNC_NOT_SUPPORTED \<equiv> 0x81"
abbreviation (input) PCI_DEVICE_NOT_FOUND where "PCI_DEVICE_NOT_FOUND \<equiv> 0x86"

text \<open>The two ways out: ah is cleared, or it holds the error and the carry flag is set.\<close>

definition pcibios_success :: "bios32regs \<Rightarrow> bios32regs" where
  "pcibios_success args = args\<lparr>p_eax := p_eax args AND NOT 0xff00\<rparr>"

definition pcibios_failure :: "u32 \<Rightarrow> bios32regs \<Rightarrow> bios32regs" where
  "pcibios_failure code args = args\<lparr>p_eax := (p_eax args AND NOT 0xff00) OR push_bit 8 code,
     p_eflags := p_eflags args OR 1\<rparr>"

definition pcibios_handler :: "'d env \<Rightarrow> bios32regs \<Rightarrow> ('d, bios32regs) fw" where
  "pcibios_handler env args =
     (let fun_no = p_eax args; bdf = ucast (p_ebx args); reg = p_edi args in
      if fun_no = 0xb101 then
        bind get_state (\<lambda>s. ret (pcibios_success
          (args\<lparr>p_eax := 0x01, p_ebx := 0x210, p_ecx := ucast (max_bus s), p_edx := 0x20494350\<rparr>)))
      else if fun_no = 0xb108 then
        bind (pci_config_readb env bdf reg) (\<lambda>v. ret (pcibios_success (args\<lparr>p_ecx := ucast v\<rparr>)))
      else if fun_no = 0xb109 then
        bind (pci_config_readw env bdf reg) (\<lambda>v. ret (pcibios_success (args\<lparr>p_ecx := ucast v\<rparr>)))
      else if fun_no = 0xb10a then
        bind (pci_config_readl env bdf reg) (\<lambda>v. ret (pcibios_success (args\<lparr>p_ecx := v\<rparr>)))
      else if fun_no = 0xb10b then
        andthen (pci_config_writeb env bdf reg (ucast (p_ecx args))) (ret (pcibios_success args))
      else if fun_no = 0xb10c then
        andthen (pci_config_writew env bdf reg (ucast (p_ecx args))) (ret (pcibios_success args))
      else if fun_no = 0xb10d then
        andthen (pci_config_writel env bdf reg (p_ecx args)) (ret (pcibios_success args))
      else if fun_no = 0xb102 \<or> fun_no = 0xb103 then ret (pcibios_failure PCI_DEVICE_NOT_FOUND args)
      else ret (pcibios_failure PCI_FUNC_NOT_SUPPORTED args))"

end
