(* ===== verification/Hwspec.thy ===== *)
theory Hwspec
  imports Pcienum Pcibios Hwsetup
begin

text \<open>
  What the 32-bit PCI BIOS answers, and the state setup_hw and setup_mmconfig leave the chipset in.
\<close>

section \<open>The PCI BIOS\<close>

text \<open>A caller looks at ah for the status, and at the carry flag.\<close>

definition status :: "bios32regs \<Rightarrow> u8" where
  "status r = ucast (drop_bit 8 (p_eax r))"

definition carry :: "bios32regs \<Rightarrow> bool" where
  "carry r = bit (p_eflags r) 0"

text \<open>
  C31: The PCI BIOS reads and writes configuration space: services b108 to b10a deliver in ecx the byte, word or
  long word that register edi of function bx holds, services b10b to b10d store ecx there. On success ah is 0
  and the carry flag, like every other register, is as the caller set it; memory never changes.
\<close>

theorem pcibios_access:
  assumes "pci_device env latch space wr"
    and "B = (ucast (p_ebx a) :: u16)" and "sp = space (dev s)"
  shows "(p_eax a = 0xb108 \<longrightarrow> (\<exists>d. space d = sp \<and>
      pcibios_handler env a s = Ret (a\<lparr>p_eax := 8, p_ecx := ucast (sp (pci_reg B (p_edi a)))\<rparr>) (s\<lparr>dev := d\<rparr>))) \<and>
    (p_eax a = 0xb109 \<longrightarrow> (\<exists>d. space d = sp \<and> pcibios_handler env a s
        = Ret (a\<lparr>p_eax := 9, p_ecx := ucast (le_word (load_bytes sp (pci_reg B (p_edi a AND 0xfe)) 2) :: u16)\<rparr>) (s\<lparr>dev := d\<rparr>))) \<and>
    (p_eax a = 0xb10a \<longrightarrow> (\<exists>d. space d = sp \<and> pcibios_handler env a s
        = Ret (a\<lparr>p_eax := 10, p_ecx := le_word (load_bytes sp (pci_reg B (p_edi a AND 0xfc)) 4)\<rparr>) (s\<lparr>dev := d\<rparr>))) \<and>
    (p_eax a = 0xb10b \<longrightarrow> (\<exists>d. space d = cfg_write wr (pci_reg B (p_edi a)) [ucast (p_ecx a)] sp \<and>
      pcibios_handler env a s = Ret (a\<lparr>p_eax := 11\<rparr>) (s\<lparr>dev := d\<rparr>))) \<and>
    (p_eax a = 0xb10c \<longrightarrow> (\<exists>d. space d = cfg_write wr (pci_reg B (p_edi a AND 0xfe)) (le_bytes 2 (ucast (p_ecx a) :: u16)) sp \<and>
      pcibios_handler env a s = Ret (a\<lparr>p_eax := 12\<rparr>) (s\<lparr>dev := d\<rparr>))) \<and>
    (p_eax a = 0xb10d \<longrightarrow> (\<exists>d. space d = cfg_write wr (pci_reg B (p_edi a AND 0xfc)) (le_bytes 4 (p_ecx a)) sp \<and>
      pcibios_handler env a s = Ret (a\<lparr>p_eax := 13\<rparr>) (s\<lparr>dev := d\<rparr>)))"
proof -
  note port = pci_port.intro [OF assms(1)]
  note run = pcibios_handler_def Let_def pcibios_success_def bind_apply andthen_apply
  show ?thesis unfolding assms(2,3)
  proof (intro conjI impI)
    assume "p_eax a = 0xb108"
    then show "\<exists>d. space d = space (dev s) \<and> pcibios_handler env a s
        = Ret (a\<lparr>p_eax := 8, p_ecx := ucast (space (dev s) (pci_reg (ucast (p_ebx a)) (p_edi a)))\<rparr>) (s\<lparr>dev := d\<rparr>)"
      using pci_port.readb [OF port, of "ucast (p_ebx a)" "p_edi a" s] by (auto simp: run)
  next
    assume "p_eax a = 0xb109"
    then show "\<exists>d. space d = space (dev s) \<and> pcibios_handler env a s = Ret (a\<lparr>p_eax := 9,
        p_ecx := ucast (le_word (load_bytes (space (dev s)) (pci_reg (ucast (p_ebx a)) (p_edi a AND 0xfe)) 2) :: u16)\<rparr>) (s\<lparr>dev := d\<rparr>)"
      using pci_port.readw [OF port, of "ucast (p_ebx a)" "p_edi a" s] by (auto simp: run)
  next
    assume "p_eax a = 0xb10a"
    then show "\<exists>d. space d = space (dev s) \<and> pcibios_handler env a s = Ret (a\<lparr>p_eax := 10,
        p_ecx := le_word (load_bytes (space (dev s)) (pci_reg (ucast (p_ebx a)) (p_edi a AND 0xfc)) 4)\<rparr>) (s\<lparr>dev := d\<rparr>)"
      using pci_port.readl [OF port, of "ucast (p_ebx a)" "p_edi a" s] by (auto simp: run)
  next
    assume "p_eax a = 0xb10b"
    then show "\<exists>d. space d = cfg_write wr (pci_reg (ucast (p_ebx a)) (p_edi a)) [ucast (p_ecx a)] (space (dev s)) \<and>
        pcibios_handler env a s = Ret (a\<lparr>p_eax := 11\<rparr>) (s\<lparr>dev := d\<rparr>)"
      using pci_port.writeb [OF port, of "ucast (p_ebx a)" "p_edi a" "ucast (p_ecx a)" s] by (auto simp: run)
  next
    assume "p_eax a = 0xb10c"
    then show "\<exists>d. space d = cfg_write wr (pci_reg (ucast (p_ebx a)) (p_edi a AND 0xfe)) (le_bytes 2 (ucast (p_ecx a) :: u16))
          (space (dev s)) \<and> pcibios_handler env a s = Ret (a\<lparr>p_eax := 12\<rparr>) (s\<lparr>dev := d\<rparr>)"
      using pci_port.writew [OF port, of "ucast (p_ebx a)" "p_edi a" "ucast (p_ecx a)" s] by (auto simp: run)
  next
    assume "p_eax a = 0xb10d"
    then show "\<exists>d. space d = cfg_write wr (pci_reg (ucast (p_ebx a)) (p_edi a AND 0xfc)) (le_bytes 4 (p_ecx a))
          (space (dev s)) \<and> pcibios_handler env a s = Ret (a\<lparr>p_eax := 13\<rparr>) (s\<lparr>dev := d\<rparr>)"
      using pci_port.writel [OF port, of "ucast (p_ebx a)" "p_edi a" "p_ecx a" s] by (auto simp: run)
  qed
qed

definition caller :: "u32 \<Rightarrow> u32 \<Rightarrow> u32 \<Rightarrow> u32 \<Rightarrow> bios32regs" where
  "caller eax ebx ecx edi = \<lparr>p_eax = eax, p_ebx = ebx, p_ecx = ecx, p_edx = 0, p_esp = 0, p_ebp = 0, p_esi = 0, p_edi = edi,
     p_ds = 0, p_es = 0, p_fs = 0, p_eflags = 2\<rparr>"

theorem pcibios_access_witness:
  "\<exists>d. pcibios_handler (ref_env (\<lambda>_ _. 0)) (caller 0xb109 0 0 0) (boot_machine (\<lambda>_. 0))
     = Ret ((caller 0xb109 0 0 0)\<lparr>p_eax := 9, p_ecx := 0xffff\<rparr>) (boot_machine (\<lambda>_. 0)\<lparr>dev := d\<rparr>)"
proof -
  let ?a = "caller 0xb109 0 0 0" and ?s = "boot_machine (\<lambda>_. 0)"
  have "p_eax ?a = 0xb109" by (simp add: caller_def)
  with pcibios_access [OF ref_pci_device [of "\<lambda>_ _. 0"] refl refl, of ?a ?s, THEN conjunct2, THEN conjunct1]
  obtain d where "pcibios_handler (ref_env (\<lambda>_ _. 0)) ?a ?s = Ret (?a\<lparr>p_eax := 9,
      p_ecx := ucast (le_word (load_bytes (cfg_space (dev ?s)) (pci_reg (ucast (p_ebx ?a)) (p_edi ?a AND 0xfe)) 2) :: u16)\<rparr>) (?s\<lparr>dev := d\<rparr>)"
    by blast
  moreover have "(le_word (load_bytes (cfg_space (dev ?s)) r 2) :: u16) = 0xffff" for r
    by (simp add: boot_machine_def load_bytes_numeral)
  ultimately show ?thesis by auto
qed

lemma bit_not_ff00: "bit (NOT (0xff00 :: u32)) n \<longleftrightarrow> n < 32 \<and> \<not> (8 \<le> n \<and> n < 16)"
proof -
  have lit: "(0xff00 :: u32) = push_bit 8 (mask 8)" by (simp add: mask_eq_exp_minus_1)
  show ?thesis unfolding lit bit_not_iff bit_push_bit_iff bit_mask_iff possible_bit_word by auto
qed

lemma ah_set:
  fixes x c :: u32
  shows "(ucast (drop_bit 8 ((x AND NOT 0xff00) OR push_bit 8 c)) :: u8) = ucast c"
    "(ucast ((x AND NOT 0xff00) OR push_bit 8 c) :: u8) = ucast x"
proof -
  define M where "M = NOT (0xff00 :: u32)"
  note M = bit_not_ff00 [folded M_def]
  show "(ucast (drop_bit 8 ((x AND NOT 0xff00) OR push_bit 8 c)) :: u8) = ucast c"
    unfolding M_def [symmetric]
    by (rule bit_word_eqI) (simp only: bit_unsigned_iff bit_drop_bit_eq bit_or_iff bit_and_iff bit_push_bit_iff M o_apply, simp)
  show "(ucast ((x AND NOT 0xff00) OR push_bit 8 c) :: u8) = ucast x"
    unfolding M_def [symmetric]
    by (rule bit_word_eqI) (simp only: bit_unsigned_iff bit_or_iff bit_and_iff bit_push_bit_iff M, simp)
qed

lemma pcibios_failed:
  fixes a :: bios32regs and c :: u32
  defines "r \<equiv> pcibios_failure c a"
  shows "status r = ucast c" "carry r" "(ucast (p_eax r) :: u8) = ucast (p_eax a)"
    "r\<lparr>p_eax := p_eax a, p_eflags := p_eflags a\<rparr> = a"
proof -
  show "status r = ucast c" "(ucast (p_eax r) :: u8) = ucast (p_eax a)"
    using ah_set [of "p_eax a" c] by (simp_all add: r_def pcibios_failure_def status_def)
  show "carry r" by (simp add: r_def pcibios_failure_def carry_def bit_simps)
  show "r\<lparr>p_eax := p_eax a, p_eflags := p_eflags a\<rparr> = a" by (simp add: r_def pcibios_failure_def)
qed

text \<open>
  C32: What the PCI BIOS does not offer. Any other function leaves memory, devices and the other registers as
  they are, sets the carry flag and reports in ah: 0x86 for the two searches, 0x81 for the rest; the
  installation check alone succeeds, with ah 0, the version 2.10, the signature and the last bus.
\<close>

theorem pcibios_answers:
  assumes "p_eax a < 0xb108 \<or> 0xb10d < p_eax a"
  shows "\<exists>r. pcibios_handler env a s = Ret r s \<and>
    (if p_eax a = 0xb101
     then status r = 0 \<and> carry r = carry a \<and> p_ebx r = 0x210 \<and> p_edx r = 0x20494350 \<and> p_ecx r = ucast (max_bus s)
     else status r = (if p_eax a = 0xb102 \<or> p_eax a = 0xb103 then 0x86 else 0x81) \<and> carry r \<and>
       (ucast (p_eax r) :: u8) = ucast (p_eax a) \<and>
       r\<lparr>p_eax := p_eax a, p_eflags := p_eflags a\<rparr> = a)"
proof -
  have other: "p_eax a \<noteq> 0xb108" "p_eax a \<noteq> 0xb109" "p_eax a \<noteq> 0xb10a" "p_eax a \<noteq> 0xb10b" "p_eax a \<noteq> 0xb10c" "p_eax a \<noteq> 0xb10d"
    using assms by auto
  show ?thesis
  proof (cases "p_eax a = 0xb101")
    case True
    then show ?thesis
      by (simp add: pcibios_handler_def bind_apply pcibios_success_def status_def carry_def Let_def)
  next
    case False
    let ?c = "if p_eax a = 0xb102 \<or> p_eax a = 0xb103 then PCI_DEVICE_NOT_FOUND else PCI_FUNC_NOT_SUPPORTED :: u32"
    have "pcibios_handler env a s = Ret (pcibios_failure ?c a) s"
      unfolding pcibios_handler_def Let_def using False other by (simp split del: if_split) auto
    moreover have "ucast ?c = (if p_eax a = 0xb102 \<or> p_eax a = 0xb103 then 0x86 else 0x81 :: u8)" by simp
    ultimately show ?thesis using False pcibios_failed [where a = a and c = ?c] by simp
  qed
qed

theorem pcibios_answers_witness:
  "\<exists>r. pcibios_handler (ref_env (\<lambda>_ _. 0)) (caller 0xb102 0 0 0) (boot_machine (\<lambda>_. 0)) = Ret r (boot_machine (\<lambda>_. 0)) \<and>
     status r = 0x86 \<and> carry r"
proof -
  have "p_eax (caller 0xb102 0 0 0) < 0xb108 \<or> 0xb10d < p_eax (caller 0xb102 0 0 0)" by (simp add: caller_def)
  from pcibios_answers [OF this, of "ref_env (\<lambda>_ _. 0)" "boot_machine (\<lambda>_. 0)"] show ?thesis by (auto simp: caller_def)
qed

section \<open>Shadowing\<close>

text \<open>Ports other than those of configuration space have no effect on memory or on configuration space.\<close>

definition quiet_ports :: "'d env \<Rightarrow> ('d \<Rightarrow> u32 \<Rightarrow> u8) \<Rightarrow> bool" where
  "quiet_ports env space \<longleftrightarrow> (\<forall>port v m d. port < 0xcf8 \<or> 0xcff < port \<longrightarrow>
     (let (m', d') = io_outb env port v (m, d) in m' = m \<and> space d' = space d))"

lemma quiet_outb:
  assumes "quiet_ports env space" "port < 0xcf8 \<or> 0xcff < port"
  shows "\<exists>d. outb env port v s = Ret () (s\<lparr>dev := d\<rparr>) \<and> space d = space (dev s)"
proof -
  obtain m d where md: "io_outb env port v (mem s, dev s) = (m, d)" by (rule prod.exhaust)
  have "let (m', d') = io_outb env port v (mem s, dev s) in m' = mem s \<and> space d' = space (dev s)"
    using assms unfolding quiet_ports_def by blast
  then show ?thesis using md by (intro exI [of _ d]) (simp add: outb_def)
qed

text \<open>Programs that return and change the devices only, in a way that keeps configuration space.\<close>

definition quiet :: "('d \<Rightarrow> u32 \<Rightarrow> u8) \<Rightarrow> ('d, unit) fw \<Rightarrow> bool" where
  "quiet space p \<longleftrightarrow> (\<forall>s. \<exists>d. p s = Ret () (s\<lparr>dev := d\<rparr>) \<and> space d = space (dev s))"

lemma quiet_then: "quiet space p \<Longrightarrow> quiet space q \<Longrightarrow> quiet space (andthen p q)"
  unfolding quiet_def
proof
  fix s
  assume p: "\<forall>s. \<exists>d. p s = Ret () (s\<lparr>dev := d\<rparr>) \<and> space d = space (dev s)"
    and q: "\<forall>s. \<exists>d. q s = Ret () (s\<lparr>dev := d\<rparr>) \<and> space d = space (dev s)"
  obtain d where d: "p s = Ret () (s\<lparr>dev := d\<rparr>)" "space d = space (dev s)" using p by blast
  obtain d' where "q (s\<lparr>dev := d\<rparr>) = Ret () (s\<lparr>dev := d\<rparr>\<lparr>dev := d'\<rparr>)" "space d' = space (dev (s\<lparr>dev := d\<rparr>))"
    using q by blast
  with d show "\<exists>d. andthen p q s = Ret () (s\<lparr>dev := d\<rparr>) \<and> space d = space (dev s)"
    by (intro exI [of _ d']) (simp add: andthen_apply)
qed

lemma quiet_pic: "quiet_ports env space \<Longrightarrow> quiet space (setup_pic env)"
  unfolding setup_pic_def
  by (intro quiet_then) (auto simp: quiet_def intro!: quiet_outb)

lemma and_byte: "unat a < 256 \<Longrightarrow> a AND 0xff = (a :: u32)"
proof -
  assume "unat a < 256"
  then have "take_bit 8 (unat a) = unat a" by (simp add: take_bit_nat_eq_self)
  then have "take_bit 8 a = a" by (metis unsigned_take_bit_eq word_unat_eq_iff)
  then show ?thesis by (simp add: mask_lits(1) take_bit_eq_mask)
qed

context pci_port
begin

text \<open>The attribute registers: read and write for the whole of 0xc0000 to 0xfffff.\<close>

lemma pam_loop:
  assumes "n \<le> 6" "unat pb + 6 < 256" "\<And>k. k < 6 \<Longrightarrow> takes wr (pci_reg 0 (pb + 1 + of_nat k)) 0x33"
  shows "\<exists>d. for_each [0..<n] (\<lambda>i. let pam = pb + 1 + of_nat i in pci_config_writeb env 0 pam 0x33) s = Ret () (s\<lparr>dev := d\<rparr>) \<and>
    (\<forall>k < n. space d (pci_reg 0 (pb + 1 + of_nat k)) AND 0x33 = 0x33)"
  using assms(1)
proof (induction n)
  case 0
  then show ?case by (auto intro: exI [of _ "dev s"])
next
  case (Suc n)
  then obtain d where d: "for_each [0..<n] (\<lambda>i. let pam = pb + 1 + of_nat i in pci_config_writeb env 0 pam 0x33) s = Ret () (s\<lparr>dev := d\<rparr>)"
    "\<forall>k < n. space d (pci_reg 0 (pb + 1 + of_nat k)) AND 0x33 = 0x33" by auto
  let ?r = "pci_reg 0 (pb + 1 + of_nat n)"
  obtain d' where d': "pci_config_writeb env 0 (pb + 1 + of_nat n) 0x33 (s\<lparr>dev := d\<rparr>) = Ret () (s\<lparr>dev := d'\<rparr>)"
    "space d' = (space d)(?r := wr ?r (space d ?r) 0x33)"
    using writeb [of 0 "pb + 1 + of_nat n" "0x33" "s\<lparr>dev := d\<rparr>"] by (auto simp: cfg_write_single)
  have "\<forall>k < Suc n. space d' (pci_reg 0 (pb + 1 + of_nat k)) AND 0x33 = 0x33"
    using d(2) assms(3) [of n] Suc.prems unfolding d'(2) takes_def by (auto simp: less_Suc_eq)
  then show ?case using d(1) d'(1) by (intro exI [of _ d']) (simp add: for_each_append prog_simps)
qed

lemma pam_set:
  assumes "unat pb + 6 < 256" "takes wr (pci_reg 0 pb) 0x30" "\<And>k. k < 6 \<Longrightarrow> takes wr (pci_reg 0 (pb + 1 + of_nat k)) 0x33"
  shows "\<exists>d. setup_pam env 0 pb s = Ret () (s\<lparr>dev := d\<rparr>) \<and> space d (pci_reg 0 pb) AND 0x30 = 0x30 \<and>
    (\<forall>k < 6. space d (pci_reg 0 (pb + 1 + of_nat k)) AND 0x33 = 0x33)"
proof -
  obtain d where d: "for_each [0..<6] (\<lambda>i. let pam = pb + 1 + of_nat i in pci_config_writeb env 0 pam 0x33) s = Ret () (s\<lparr>dev := d\<rparr>)"
    "\<forall>k < 6. space d (pci_reg 0 (pb + 1 + of_nat k)) AND 0x33 = 0x33" using pam_loop [of 6] assms by blast
  obtain d' where d': "pci_config_writeb env 0 pb 0x30 (s\<lparr>dev := d\<rparr>) = Ret () (s\<lparr>dev := d'\<rparr>)"
    "space d' = (space d)(pci_reg 0 pb := wr (pci_reg 0 pb) (space d (pci_reg 0 pb)) 0x30)"
    using writeb [of 0 pb "0x30" "s\<lparr>dev := d\<rparr>"] by (auto simp: cfg_write_single)
  have other: "pci_reg 0 (pb + 1 + of_nat k) \<noteq> pci_reg 0 pb" if "k < 6" for k
  proof
    assume "pci_reg 0 (pb + 1 + of_nat k) = pci_reg 0 pb"
    then have e: "(pb + 1 + of_nat k) AND 0xff = pb AND 0xff" by (simp add: pci_reg_inject)
    have u: "unat (pb + 1 + of_nat k) = unat pb + 1 + k"
    proof -
      have "pb + 1 + of_nat k = of_nat (unat pb + 1 + k)" by simp
      then show ?thesis using that assms(1) by (simp only:) (rule unat_of_nat_u32; simp)
    qed
    then have "pb + 1 + of_nat k = pb" using e and_byte [of "pb + 1 + of_nat k"] and_byte [of pb] that assms(1) by simp
    with u show False by simp
  qed
  have "space d' (pci_reg 0 pb) AND 0x30 = 0x30" using assms(2) unfolding d'(2) takes_def by simp
  then show ?thesis using d d' other by (intro exI [of _ d']) (auto simp: setup_pam_def andthen_apply)
qed

lemma runs_chipset:
  "runs 8 (setup_piix env)" "runs 0xb (setup_piix_pm env)" "runs 0xf8 (setup_ich9 env)" "runs 0xf8 (setup_ich9_pm env)"
proof -
  note w8 = runs_writeb [of _ 8, simplified] and wb = runs_writeb [of _ "0xb", simplified] and wf = runs_writeb [of _ "0xf8", simplified]
  note lb = runs_writel [of _ "0xb", simplified] and lf = runs_writel [of _ "0xf8", simplified]
  have lit: "(push_bit 3 1 :: u16) = 8" "(8 OR 3 :: u16) = 0xb" "(push_bit 3 0x1f :: u16) = 0xf8" by simp_all
  show "runs 8 (setup_piix env)" unfolding setup_piix_def Let_def lit by (intro runs_then w8) simp_all
  show "runs 0xb (setup_piix_pm env)" unfolding setup_piix_pm_def Let_def lit by (intro runs_then wb lb) simp_all
  show "runs 0xf8 (setup_ich9 env)" unfolding setup_ich9_def Let_def lit by (intro runs_then wf) simp_all
  show "runs 0xf8 (setup_ich9_pm env)" unfolding setup_ich9_pm_def Let_def lit by (intro runs_then wf lf) simp_all
qed

text \<open>Programs for other functions leave the registers of the host bridge alone.\<close>

lemma runs_elsewhere:
  assumes "runs bdf p" "(ucast bdf :: u16) \<noteq> 0"
  shows "\<exists>d. p s = Ret () (s\<lparr>dev := d\<rparr>) \<and> (\<forall>a. space d (pci_reg 0 a) = space (dev s) (pci_reg 0 a))"
proof -
  obtain d where "p s = Ret () (s\<lparr>dev := d\<rparr>)" "touches bdf (space (dev s)) (space d)"
    using assms(1) unfolding runs_def by blast
  then show ?thesis using touches_keeps [of bdf "space (dev s)" "space d" _ 0] assms(2) by (intro exI [of _ d]) simp
qed

end

text \<open>The two copies, from ROM to RAM, once \<open>rom_check\<close> has been written or has not.\<close>

lemma shadow_copies:
  assumes rom: "apart SS n1 rc 1" "apart IS n2 rc 1" "apart IS n2 S n1" and parts: "apart I n2 S n1"
    and m1: "m1 = m \<or> m1 = m(rc := v)"
    and m2: "m2 = memcpy S SS w1 m1" and m3: "m3 = memcpy I IS w2 m2" and n1: "n1 = unat w1" and n2: "n2 = unat w2"
  shows "load_bytes m3 S n1 = load_bytes m SS n1" "load_bytes m3 I n2 = load_bytes m IS n2"
    "\<not> inside a S n1 \<Longrightarrow> \<not> inside a I n2 \<Longrightarrow> a \<noteq> rc \<Longrightarrow> m3 a = m a"
proof -
  have len: "n1 \<le> 2 ^ 32" "n2 \<le> 2 ^ 32" using unat_bound [of w1] unat_bound [of w2] by (simp_all add: n1 n2)
  have copy: "m2 = store_bytes m1 S (load_bytes m1 SS n1)" "m3 = store_bytes m2 I (load_bytes m2 IS n2)"
    by (simp_all add: m2 m3 memcpy_def n1 n2)
  have same: "load_bytes m1 q n = load_bytes m q n" if "apart q n rc 1" for q n
  proof -
    have "apart rc (length [v]) q n" using that by (simp add: apart_commute)
    then show ?thesis using load_store_apart [of rc "[v]" q n m] m1 by auto
  qed
  have image: "load_bytes m2 S n1 = load_bytes m SS n1"
    unfolding copy(1) using same [OF rom(1)] len by (simp add: load_store_same)
  have "load_bytes m2 IS n2 = load_bytes m1 IS n2"
    unfolding copy(1) by (rule load_store_apart) (use rom(3) in \<open>simp add: apart_commute\<close>)
  then have init: "load_bytes m2 IS n2 = load_bytes m IS n2" using same [OF rom(2)] by simp
  show "load_bytes m3 I n2 = load_bytes m IS n2"
    unfolding copy(2) using init len by (simp add: load_store_same)
  show "load_bytes m3 S n1 = load_bytes m SS n1"
    unfolding copy(2) image [symmetric] by (rule load_store_apart) (use parts in simp)
  show "\<not> inside a S n1 \<Longrightarrow> \<not> inside a I n2 \<Longrightarrow> a \<noteq> rc \<Longrightarrow> m3 a = m a"
    unfolding copy using len m1 by (auto simp: store_bytes_outside [where n = n1] store_bytes_outside [where n = n2])
qed

text \<open>
  How the attribute register PAM0 of the i440FX and the Q35, as documented, maps the F-segment: a store reaches RAM if bit 5 is set;
  a load sees RAM if bit 4 is set, and otherwise the ROM, which is also at the top of the address space.
\<close>

definition in_fseg :: "addr \<Rightarrow> bool" where
  "in_fseg a \<longleftrightarrow> 0xf0000 \<le> unat a \<and> unat a < 0x100000"

definition pam_controls :: "'d env \<Rightarrow> ('d \<Rightarrow> u32 \<Rightarrow> u8) \<Rightarrow> u32 \<Rightarrow> bool" where
  "pam_controls env space pb \<longleftrightarrow> (\<forall>d a.
     (in_fseg a \<longrightarrow> io_writable env d a = bit (space d (pci_reg 0 pb)) 5 \<and>
       (\<forall>m. io_read env d m a = (if bit (space d (pci_reg 0 pb)) 4 then m a else m (a + 0xfff00000)))) \<and>
     (0xfff00000 \<le> unat a \<longrightarrow> (\<forall>m. io_read env d m a = m a)))"

definition fseg_ram :: "(u32 \<Rightarrow> u8) \<Rightarrow> u32 \<Rightarrow> bool" where
  "fseg_ram sp pb \<longleftrightarrow> bit (sp (pci_reg 0 pb)) 4 \<and> bit (sp (pci_reg 0 pb)) 5"

lemma pam_bits: "x AND 0x30 = 0x30 \<Longrightarrow> bit (x :: u8) 4 \<and> bit x 5"
proof -
  assume h: "x AND 0x30 = 0x30"
  have "bit (x AND 0x30) 4 = bit (0x30 :: u8) 4" "bit (x AND 0x30) 5 = bit (0x30 :: u8) 5" unfolding h by (rule refl)+
  then show ?thesis by (simp add: bit_and_iff)
qed

text \<open>Once the F-segment is RAM, a copy from ROM into it is a plain one.\<close>

lemma rom_copy_plain:
  assumes pam: "pam_controls env space pb" "fseg_ram (space (dev s)) pb"
    and dest: "0xf0000 \<le> unat p" "unat p + unat n \<le> 0x100000"
  shows "rom_copy env p (p + 0xfff00000) n s = Ret () (s\<lparr>mem := memcpy p (p + 0xfff00000) n (mem s)\<rparr>)"
proof -
  have at: "unat (p + of_nat i) = unat p + i" if "i < unat n" for i
    using that dest by (subst unat_add_less) (simp_all add: unat_of_nat)
  have rom: "io_read env (dev s) m (p + 0xfff00000 + of_nat i) = m (p + 0xfff00000 + of_nat i)" if "i < unat n" for i m
  proof -
    have "p + 0xfff00000 + of_nat i = (p + of_nat i) + 0xfff00000" by simp
    then have "unat (p + 0xfff00000 + of_nat i) = unat p + i + 0xfff00000"
      using at [OF that] dest that by (simp only:) (subst unat_add_less; simp)
    then show ?thesis using pam(1) by (simp add: pam_controls_def)
  qed
  have load: "map (\<lambda>i. io_read env (dev s) m (p + 0xfff00000 + of_nat i)) [0..<unat n] = load_bytes m (p + 0xfff00000) (unat n)" for m
    using rom by (intro nth_equalityI) simp_all
  have mapped: "(if io_writable env (dev s) a then store_bytes m p (load_bytes m (p + 0xfff00000) (unat n)) a else m a)
      = memcpy p (p + 0xfff00000) n m a" for m a
  proof (cases "inside a p (unat n)")
    case True
    then have "in_fseg a" using dest inside_interval [of p "unat n" a] by (simp add: in_fseg_def)
    then show ?thesis using pam by (simp add: pam_controls_def fseg_ram_def memcpy_def)
  next
    case False
    then show ?thesis using unat_bound [of n] by (simp add: memcpy_def store_bytes_outside [where n = "unat n"])
  qed
  show ?thesis by (simp only: rom_copy_def bind_apply get_state_apply outcome.case on_mem_apply load mapped)
qed

text \<open>What setup_hw does once it has programmed the chipset: it makes sure of the F-segment, then it copies.\<close>

definition check_rom :: "'d env \<Rightarrow> u32 \<Rightarrow> ('d, unit) fw" where
  "check_rom env pb =
     bind (rom_load env (rom_check env)) (\<lambda>rom_check_value.
     andthen (try_store env (rom_check env) (rom_check_value + 1))
     (bind (rom_load env (rom_check env)) (\<lambda>v. when_do (v = rom_check_value) (setup_pam env 0 pb))))"

definition finish_hw :: "'d env \<Rightarrow> u32 \<Rightarrow> ('d, bool) fw" where
  "finish_hw env pb = andthen (check_rom env pb)
     (andthen (rom_copy env (stext env) (stext env + 0xfff00000) (edata env - stext env))
     (andthen (rom_copy env (sinit env) (sinit env + 0xfff00000) (einit env - sinit env))
     (andthen (setup_pic env)
     (ret True))))"

lemma check_rom_effect:
  assumes "pci_device env latch space wr" and pam: "pam_controls env space pb" and rc: "in_fseg (rom_check env)"
    and takes: "unat pb + 6 < 256" "takes wr (pci_reg 0 pb) 0x30" "\<And>k. k < 6 \<Longrightarrow> takes wr (pci_reg 0 (pb + 1 + of_nat k)) 0x33"
  obtains d m v where "check_rom env pb s = Ret () (s\<lparr>mem := m, dev := d\<rparr>)" "m = mem s \<or> m = (mem s)(rom_check env := v)"
    "fseg_ram (space d) pb"
    "\<not> fseg_ram (space (dev s)) pb \<longrightarrow> (\<forall>k < 6. space d (pci_reg 0 (pb + 1 + of_nat k)) AND 0x33 = 0x33)"
proof -
  let ?rc = "rom_check env" and ?W = "bit (space (dev s) (pci_reg 0 pb)) 5" and ?R = "bit (space (dev s) (pci_reg 0 pb)) 4"
  define v where "v = io_read env (dev s) (mem s) ?rc"
  define m where "m = (if ?W then (mem s)(?rc := v + 1) else mem s)"
  have mapped: "io_writable env (dev s) ?rc = ?W" "io_read env (dev s) x ?rc = (if ?R then x ?rc else x (?rc + 0xfff00000))" for x
    using pam rc by (simp_all add: pam_controls_def)
  have "?rc + 0xfff00000 \<noteq> ?rc" by simp
  then have again: "io_read env (dev s) m ?rc = v \<longleftrightarrow> \<not> fseg_ram (space (dev s)) pb"
    by (auto simp: mapped m_def v_def fseg_ram_def)
  have "try_store env ?rc (v + 1) s = Ret () (s\<lparr>mem := m\<rparr>)"
    by (simp add: try_store_def bind_apply mapped m_def when_do_def)
  then have run: "check_rom env pb s = when_do (\<not> fseg_ram (space (dev s)) pb) (setup_pam env 0 pb) (s\<lparr>mem := m\<rparr>)"
    by (simp add: check_rom_def bind_apply andthen_apply rom_load_def v_def [symmetric] again)
  have m: "m = mem s \<or> m = (mem s)(?rc := v + 1)" by (simp add: m_def)
  show thesis
  proof (cases "fseg_ram (space (dev s)) pb")
    case True
    then show ?thesis using run m by (intro that [of "dev s" m "v + 1"]) simp_all
  next
    case False
    obtain d where d: "setup_pam env 0 pb (s\<lparr>mem := m\<rparr>) = Ret () (s\<lparr>mem := m, dev := d\<rparr>)" "space d (pci_reg 0 pb) AND 0x30 = 0x30"
      "\<forall>k < 6. space d (pci_reg 0 (pb + 1 + of_nat k)) AND 0x33 = 0x33"
      using pci_port.pam_set [OF pci_port.intro [OF assms(1)] takes, of "s\<lparr>mem := m\<rparr>"] by auto
    have "check_rom env pb s = Ret () (s\<lparr>mem := m, dev := d\<rparr>)" using d(1) run False by simp
    then show ?thesis using m d(3) pam_bits [OF d(2)] by (intro that [of d m "v + 1"]) (simp_all add: fseg_ram_def)
  qed
qed

text \<open>The image is inside the F-segment, as the linker script places it.\<close>

definition image_in_fseg :: "'d env \<Rightarrow> nat \<Rightarrow> nat \<Rightarrow> bool" where
  "image_in_fseg env n1 n2 \<longleftrightarrow> n1 = unat (edata env - stext env) \<and> n2 = unat (einit env - sinit env) \<and>
     0xf0000 \<le> unat (stext env) \<and> unat (stext env) + n1 \<le> unat (sinit env) \<and> unat (sinit env) + n2 \<le> 0x100000 \<and>
     in_fseg (rom_check env)"

lemma image_apart:
  assumes "image_in_fseg env n1 n2"
  shows "apart (stext env + 0xfff00000) n1 (rom_check env) 1" "apart (sinit env + 0xfff00000) n2 (rom_check env) 1"
    "apart (sinit env + 0xfff00000) n2 (stext env) n1" "apart (sinit env) n2 (stext env) n1"
proof -
  show "apart (sinit env) n2 (stext env) n1"
    unfolding apart_commute [of "sinit env"] using assms by (intro apart_interval) (simp_all add: image_in_fseg_def)
  have rom: "apart (q + 0xfff00000) n p k" if "unat q + n \<le> 0x100000" "unat p + k \<le> 0x100000" "0xf0000 \<le> unat q" for q n p k
  proof (cases "n = 0")
    case False
    then have "unat (q + 0xfff00000) = unat q + 0xfff00000" using that by (subst unat_add_less) simp_all
    then show ?thesis unfolding apart_commute [of "q + 0xfff00000"] using that by (intro apart_interval) simp_all
  qed (simp add: apart_def)
  show "apart (stext env + 0xfff00000) n1 (rom_check env) 1" "apart (sinit env + 0xfff00000) n2 (rom_check env) 1"
    "apart (sinit env + 0xfff00000) n2 (stext env) n1"
    by (rule rom; use assms in \<open>simp add: image_in_fseg_def in_fseg_def\<close>)+
qed

lemma finish_hw_effect:
  assumes "pci_device env latch space wr" and "quiet_ports env space" and pam: "pam_controls env space pb"
    and takes: "unat pb + 6 < 256" "takes wr (pci_reg 0 pb) 0x30" "\<And>k. k < 6 \<Longrightarrow> takes wr (pci_reg 0 (pb + 1 + of_nat k)) 0x33"
    and image: "image_in_fseg env n1 n2"
  shows "\<exists>t. finish_hw env pb s = Ret True t \<and>
    load_bytes (mem t) (stext env) n1 = load_bytes (mem s) (stext env + 0xfff00000) n1 \<and>
    load_bytes (mem t) (sinit env) n2 = load_bytes (mem s) (sinit env + 0xfff00000) n2 \<and>
    (\<forall>a. \<not> inside a (stext env) n1 \<longrightarrow> \<not> inside a (sinit env) n2 \<longrightarrow> a \<noteq> rom_check env \<longrightarrow> mem t a = mem s a) \<and>
    fseg_ram (space (dev t)) pb \<and>
    (\<not> fseg_ram (space (dev s)) pb \<longrightarrow> (\<forall>k < 6. space (dev t) (pci_reg 0 (pb + 1 + of_nat k)) AND 0x33 = 0x33))"
proof -
  let ?w1 = "edata env - stext env" and ?w2 = "einit env - sinit env"
  have n: "n1 = unat ?w1" "n2 = unat ?w2" using image by (simp_all add: image_in_fseg_def)
  have rc: "in_fseg (rom_check env)" using image by (simp add: image_in_fseg_def)
  obtain d m1 v where c: "check_rom env pb s = Ret () (s\<lparr>mem := m1, dev := d\<rparr>)" "m1 = mem s \<or> m1 = (mem s)(rom_check env := v)"
    "fseg_ram (space d) pb"
    "\<not> fseg_ram (space (dev s)) pb \<longrightarrow> (\<forall>k < 6. space d (pci_reg 0 (pb + 1 + of_nat k)) AND 0x33 = 0x33)"
    by (rule check_rom_effect [OF assms(1) pam rc takes, of s])
  define m2 where "m2 = memcpy (stext env) (stext env + 0xfff00000) ?w1 m1"
  define m3 where "m3 = memcpy (sinit env) (sinit env + 0xfff00000) ?w2 m2"
  have swap: "s\<lparr>dev := x, mem := m\<rparr> = s\<lparr>mem := m, dev := x\<rparr>" for x m by (cases s) simp
  have copy1: "rom_copy env (stext env) (stext env + 0xfff00000) ?w1 (s\<lparr>mem := m1, dev := d\<rparr>) = Ret () (s\<lparr>mem := m2, dev := d\<rparr>)"
    using rom_copy_plain [OF pam, of "s\<lparr>mem := m1, dev := d\<rparr>" "stext env" ?w1] c(3) image
    by (simp add: image_in_fseg_def m2_def swap)
  have copy2: "rom_copy env (sinit env) (sinit env + 0xfff00000) ?w2 (s\<lparr>mem := m2, dev := d\<rparr>) = Ret () (s\<lparr>mem := m3, dev := d\<rparr>)"
    using rom_copy_plain [OF pam, of "s\<lparr>mem := m2, dev := d\<rparr>" "sinit env" ?w2] c(3) image
    by (simp add: image_in_fseg_def m3_def swap)
  obtain d3 where d3: "setup_pic env (s\<lparr>mem := m3, dev := d\<rparr>) = Ret () (s\<lparr>mem := m3, dev := d3\<rparr>)" "space d3 = space d"
    using quiet_pic [OF assms(2)] unfolding quiet_def by (auto dest!: spec [of _ "s\<lparr>mem := m3, dev := d\<rparr>"])
  have "finish_hw env pb s = Ret True (s\<lparr>mem := m3, dev := d3\<rparr>)"
    by (simp add: finish_hw_def andthen_apply c(1) copy1 copy2 d3(1))
  then show ?thesis
    using c(3,4) d3(2) shadow_copies [OF image_apart [OF image] c(2) m2_def m3_def n]
    by (intro exI [of _ "s\<lparr>mem := m3, dev := d3\<rparr>"]) simp
qed

text \<open>Up to there it reads the host bridge and writes registers of the south bridge.\<close>

lemma setup_hw_dispatch:
  fixes devid :: u32 and s :: "'d machine"
  assumes "pci_device env latch space wr" and devid: "devid = le_word (load_bytes (space (dev s)) (pci_reg 0 0) 4)"
  shows "\<exists>d. if devid = ID_INTEL_82441 \<or> devid = ID_INTEL_Q35_MCH
    then setup_hw env s = finish_hw env (if devid = ID_INTEL_82441 then 0x59 else 0x90) (s\<lparr>dev := d\<rparr>) \<and>
      (\<forall>a. space d (pci_reg 0 a) = space (dev s) (pci_reg 0 a))
    else setup_hw env s = Ret False (s\<lparr>dev := d\<rparr>) \<and> space d = space (dev s)"
proof -
  note port = pci_port.intro [OF assms(1)]
  obtain d0 where d0: "pci_config_readl env 0 0 s = Ret devid (s\<lparr>dev := d0\<rparr>)" "space d0 = space (dev s)"
    using pci_port.readl [OF port, of 0 0 s] devid by auto
  have finish: "bind (rom_load env (rom_check env)) (\<lambda>rom_check_value.
      andthen (try_store env (rom_check env) (rom_check_value + 1))
      (bind (rom_load env (rom_check env)) (\<lambda>v.
      andthen (when_do (v = rom_check_value) (setup_pam env 0 pb)) q))) = andthen (check_rom env pb) q" for pb and q :: "('d, bool) fw"
    by (simp add: check_rom_def andthen_def bind_assoc)
  note run = setup_hw_def Let_def bind_run [of "pci_config_readl env 0 0", OF d0(1)] finish finish_hw_def
  have two: "\<exists>d. andthen p (andthen q r) (s\<lparr>dev := d0\<rparr>) = r (s\<lparr>dev := d\<rparr>) \<and> (\<forall>a. space d (pci_reg 0 a) = space (dev s) (pci_reg 0 a))"
    if r1: "pci_port.runs space a p" "(ucast a :: u16) \<noteq> 0" and r2: "pci_port.runs space b q" "(ucast b :: u16) \<noteq> 0"
    for a b p q and r :: "('d, bool) fw"
  proof -
    obtain d1 where d1: "p (s\<lparr>dev := d0\<rparr>) = Ret () (s\<lparr>dev := d1\<rparr>)" "\<forall>a. space d1 (pci_reg 0 a) = space (dev s) (pci_reg 0 a)"
      using pci_port.runs_elsewhere [OF port r1, of "s\<lparr>dev := d0\<rparr>"] d0(2) by auto
    obtain d2 where "q (s\<lparr>dev := d1\<rparr>) = Ret () (s\<lparr>dev := d2\<rparr>)" "\<forall>a. space d2 (pci_reg 0 a) = space d1 (pci_reg 0 a)"
      using pci_port.runs_elsewhere [OF port r2, of "s\<lparr>dev := d1\<rparr>"] by auto
    then show ?thesis using d1 by (intro exI [of _ d2]) (simp add: andthen_apply)
  qed
  note piix = two [OF pci_port.runs_chipset(1) [OF port] _ pci_port.runs_chipset(2) [OF port]]
    and ich9 = two [OF pci_port.runs_chipset(3) [OF port] _ pci_port.runs_chipset(4) [OF port]]
  consider "devid = ID_INTEL_82441" | "devid = ID_INTEL_Q35_MCH" | "devid \<noteq> ID_INTEL_82441" "devid \<noteq> ID_INTEL_Q35_MCH" by blast
  then show ?thesis
  proof cases
    case 1
    then show ?thesis using piix unfolding run by simp
  next
    case 2
    then show ?thesis using ich9 unfolding run by simp
  next
    case 3
    then show ?thesis using d0(2) unfolding run by auto
  qed
qed

lemma setup_hw_effect:
  fixes devid :: u32
  assumes "pci_device env latch space wr" and "quiet_ports env space"
    and devid: "devid = le_word (load_bytes (space (dev s)) (pci_reg 0 0) 4)"
    and pb: "pb = (if devid = ID_INTEL_82441 then 0x59 else 0x90)" and pam: "pam_controls env space pb"
    and takes: "takes wr (pci_reg 0 pb) 0x30" "\<And>k. k < 6 \<Longrightarrow> takes wr (pci_reg 0 (pb + 1 + of_nat k)) 0x33"
    and image: "image_in_fseg env n1 n2"
  shows "if devid = ID_INTEL_82441 \<or> devid = ID_INTEL_Q35_MCH
    then \<exists>t. setup_hw env s = Ret True t \<and>
      load_bytes (mem t) (stext env) n1 = load_bytes (mem s) (stext env + 0xfff00000) n1 \<and>
      load_bytes (mem t) (sinit env) n2 = load_bytes (mem s) (sinit env + 0xfff00000) n2 \<and>
      (\<forall>a. \<not> inside a (stext env) n1 \<longrightarrow> \<not> inside a (sinit env) n2 \<longrightarrow> a \<noteq> rom_check env \<longrightarrow> mem t a = mem s a) \<and>
      fseg_ram (space (dev t)) pb \<and>
      (\<not> fseg_ram (space (dev s)) pb \<longrightarrow> (\<forall>k < 6. space (dev t) (pci_reg 0 (pb + 1 + of_nat k)) AND 0x33 = 0x33))
    else \<exists>t. setup_hw env s = Ret False t \<and> mem t = mem s \<and> space (dev t) = space (dev s)"
proof -
  let ?known = "devid = ID_INTEL_82441 \<or> devid = ID_INTEL_Q35_MCH"
  obtain d where d: "if ?known then setup_hw env s = finish_hw env pb (s\<lparr>dev := d\<rparr>) \<and> (\<forall>a. space d (pci_reg 0 a) = space (dev s) (pci_reg 0 a))
      else setup_hw env s = Ret False (s\<lparr>dev := d\<rparr>) \<and> space d = space (dev s)"
    using setup_hw_dispatch [OF assms(1) devid] unfolding pb by auto
  have small: "unat pb + 6 < 256" by (simp add: pb)
  show ?thesis
  proof (cases ?known)
    case True
    then have "fseg_ram (space d) pb = fseg_ram (space (dev s)) pb" using d by (simp add: fseg_ram_def)
    then show ?thesis using True d finish_hw_effect [OF assms(1,2) pam small takes image, of "s\<lparr>dev := d\<rparr>"] by simp
  next
    case False
    then show ?thesis using d by auto
  qed
qed

text \<open>
  C28: Shadowing. On an i440FX or Q35 machine, whose attribute registers map the F-segment as documented, setup_hw
  returns true, and the two parts of the image (text and data, initialisation code) are in RAM as they are in ROM,
  everything else in memory but \<open>rom_check\<close> being as before; the F-segment is now RAM for loads and stores, and
  if it was not when setup_hw was called, so that a store to it would have been lost or not seen, the other attribute
  registers have been set as well, from 0xc0000 on. On any other machine it returns false, memory and
  configuration space untouched.
\<close>

theorem setup_hw_shadows:
  fixes devid :: u32
  assumes "pci_device env latch space wr" and "quiet_ports env space"
    and devid: "devid = le_word (load_bytes (space (dev s)) (pci_reg 0 0) 4)"
    and pb: "pb = (if devid = ID_INTEL_82441 then 0x59 else 0x90)" and pam: "pam_controls env space pb"
    and takes: "takes wr (pci_reg 0 pb) 0x30" "\<And>k. k < 6 \<Longrightarrow> takes wr (pci_reg 0 (pb + 1 + of_nat k)) 0x33"
    and image: "image_in_fseg env n1 n2"
  shows "if devid = ID_INTEL_82441 \<or> devid = ID_INTEL_Q35_MCH
    then \<exists>t. setup_hw env s = Ret True t \<and>
      load_bytes (mem t) (stext env) n1 = load_bytes (mem s) (stext env + 0xfff00000) n1 \<and>
      load_bytes (mem t) (sinit env) n2 = load_bytes (mem s) (sinit env + 0xfff00000) n2 \<and>
      (\<forall>a. \<not> inside a (stext env) n1 \<longrightarrow> \<not> inside a (sinit env) n2 \<longrightarrow> a \<noteq> rom_check env \<longrightarrow> mem t a = mem s a) \<and>
      fseg_ram (space (dev t)) pb \<and>
      (\<not> fseg_ram (space (dev s)) pb \<longrightarrow> (\<forall>k < 6. space (dev t) (pci_reg 0 (pb + 1 + of_nat k)) AND 0x33 = 0x33))
    else \<exists>t. setup_hw env s = Ret False t \<and> mem t = mem s \<and> space (dev t) = space (dev s)"
  by (rule setup_hw_effect [OF assms])

lemma ref_quiet: "quiet_ports (ref_env E) cfg_space"
proof -
  have off: "data_port port \<Longrightarrow> \<not> (port < 0xcf8 \<or> 0xcff < port)" for port by (auto simp: data_port_def)
  show ?thesis unfolding quiet_ports_def using off by (auto simp: ref_env_def config_port_def log_write_def)
qed

lemma ref_pam: "pam_controls (ref_env E) cfg_space 0x59"
proof -
  have r: "pci_reg 0 0x59 = 0x59" by (simp add: pci_reg_def)
  have fseg: "in_fseg a \<longleftrightarrow> 0xf0000 \<le> a \<and> a < 0x100000" for a
    by (simp add: in_fseg_def word_le_nat_alt word_less_nat_alt)
  have "\<not> (0xf0000 \<le> a \<and> a < 0x100000)" if "0xfff00000 \<le> unat a" for a :: addr
    using that by (simp add: word_less_nat_alt)
  then show ?thesis unfolding pam_controls_def r fseg by (auto simp: ref_env_def)
qed

lemma ref_image: "image_in_fseg (ref_env E) 0x8000 0x80"
  by (simp add: image_in_fseg_def in_fseg_def)

text \<open>The i440FX machine at reset: the F-segment is mapped to ROM, RAM is 0 and the ROM is not.\<close>

definition reset_mem :: mem where
  "reset_mem a = (if a < 0xfff00000 then 0 else ucast a + 1)"

definition pc_machine :: "platform machine" where
  "pc_machine = boot_machine reset_mem
     \<lparr>dev := \<lparr>entry = 0, position = 0, pending = False, cfg_addr = 0, cfg_space = host_space, port_log = []\<rparr>\<rparr>"

lemma pc_machine_ready:
  "ID_INTEL_82441 = (le_word (load_bytes (cfg_space (dev pc_machine)) (pci_reg 0 0) 4) :: u32)"
  "bridges_of (cfg_space (dev pc_machine)) (bus_functions (cfg_space (dev pc_machine)) (bus pc_machine)) = []"
  using host_alone by (simp_all add: pc_machine_def boot_machine_def)

lemma pc_machine_rom: "\<not> fseg_ram (cfg_space (dev pc_machine)) 0x59"
  by (simp add: fseg_ram_def pc_machine_def host_space_def pci_reg_inject)

theorem setup_hw_shadows_witness:
  "\<exists>t. setup_hw (ref_env (\<lambda>_ _. 0)) pc_machine = Ret True t \<and> \<not> io_writable (ref_env (\<lambda>_ _. 0)) (dev pc_machine) 0xf0000 \<and>
     load_bytes (mem t) 0xf0000 0x8000 = load_bytes (\<lambda>a. ucast a + 1) 0xffff0000 0x8000 \<and>
     (\<forall>k < 6. cfg_space (dev t) (pci_reg 0 (0x59 + 1 + of_nat k)) AND 0x33 = 0x33)"
proof -
  let ?E = "ref_env (\<lambda>_ _. 0)"
  obtain t where t: "setup_hw ?E pc_machine = Ret True t"
    "load_bytes (mem t) (stext ?E) 0x8000 = load_bytes (mem pc_machine) (stext ?E + 0xfff00000) 0x8000"
    "\<forall>k < 6. cfg_space (dev t) (pci_reg 0 (0x59 + 1 + of_nat k)) AND 0x33 = 0x33"
    using setup_hw_shadows [OF ref_pci_device [of "\<lambda>_ _. 0"] ref_quiet pc_machine_ready(1) _ ref_pam takes_plain takes_plain ref_image]
      pc_machine_rom by auto
  have "load_bytes reset_mem 0xffff0000 0x8000 = load_bytes (\<lambda>a. ucast a + 1) 0xffff0000 0x8000"
  proof (rule load_bytes_cong)
    fix i :: nat assume "i < 0x8000"
    then have "unat (0xffff0000 + of_nat i :: addr) = 0xffff0000 + i" by (subst unat_add_less) (simp_all add: unat_of_nat)
    then show "reset_mem (0xffff0000 + of_nat i) = ucast (0xffff0000 + of_nat i :: addr) + 1"
      by (simp add: reset_mem_def word_less_nat_alt)
  qed
  moreover have "\<not> io_writable ?E (dev pc_machine) 0xf0000"
    by (simp add: ref_env_def pc_machine_def host_space_def pci_reg_def)
  ultimately show ?thesis using t by (intro exI [of _ t]) (simp add: pc_machine_def boot_machine_def)
qed

section \<open>The interrupt controllers\<close>

text \<open>
  The pair of 8259A controllers with their edge/level registers, as the manuals describe them. \<open>expect\<close> is the
  initialisation word a chip waits for at its odd port, 0 when it is operating. Writing a word with bit 4 set (ICW1)
  to the even port starts the initialisation and clears the mask; bit 0 of it says that ICW4 will come (without it
  the functions ICW4 selects are off), bit 1 that the chip is alone, so that no ICW3 comes, and bit 3 that all its
  inputs are level triggered. Of the edge/level registers only the bits of IRQ 3 to 7, 9 to 12, 14 and 15 exist.
\<close>

record i8259 =
  expect :: nat
  with_icw4 :: bool
  single :: bool
  all_level :: bool
  base_vector :: u8
  cascade :: u8
  mode :: u8
  imr :: u8

definition i8259_even :: "u8 \<Rightarrow> i8259 \<Rightarrow> i8259" where
  "i8259_even v c =
     (if bit v 4 then c\<lparr>expect := 2, with_icw4 := bit v 0, single := bit v 1, all_level := bit v 3,
        mode := if bit v 0 then mode c else 0, imr := 0\<rparr>
      else c)"

definition i8259_odd :: "u8 \<Rightarrow> i8259 \<Rightarrow> i8259" where
  "i8259_odd v c =
     (let icw4 = (if with_icw4 c then 4 else 0) in
      if expect c = 2 then c\<lparr>expect := if single c then icw4 else 3, base_vector := v AND 0xf8\<rparr>
      else if expect c = 3 then c\<lparr>expect := icw4, cascade := v\<rparr>
      else if expect c = 4 then c\<lparr>expect := 0, mode := v\<rparr>
      else c\<lparr>imr := v\<rparr>)"

record pic =
  master :: i8259
  slave :: i8259
  elcr_low :: u8
  elcr_high :: u8

definition pic_out :: "u16 \<Rightarrow> u8 \<Rightarrow> pic \<Rightarrow> pic" where
  "pic_out port v p =
     (if port = 0x20 then p\<lparr>master := i8259_even v (master p)\<rparr>
      else if port = 0x21 then p\<lparr>master := i8259_odd v (master p)\<rparr>
      else if port = 0xa0 then p\<lparr>slave := i8259_even v (slave p)\<rparr>
      else if port = 0xa1 then p\<lparr>slave := i8259_odd v (slave p)\<rparr>
      else if port = 0x4d0 then p\<lparr>elcr_low := v AND 0xf8\<rparr>
      else if port = 0x4d1 then p\<lparr>elcr_high := v AND 0xde\<rparr>
      else p)"

text \<open>Is interrupt line \<open>i\<close> level triggered?\<close>

definition level_triggered :: "pic \<Rightarrow> nat \<Rightarrow> bool" where
  "level_triggered p i \<longleftrightarrow>
     (if i < 8 then all_level (master p) \<or> bit (elcr_low p) i else all_level (slave p) \<or> bit (elcr_high p) (i - 8))"

definition has_pic :: "'d env \<Rightarrow> ('d \<Rightarrow> pic) \<Rightarrow> bool" where
  "has_pic env pic_of \<longleftrightarrow> (\<forall>port v m d. let (m', d') = io_outb env port v (m, d) in
     (port \<in> {0x20, 0x21, 0xa0, 0xa1, 0x4d0, 0x4d1} \<longrightarrow> m' = m) \<and> pic_of d' = pic_out port v (pic_of d))"

lemma pic_write:
  assumes "has_pic env pic_of" "port \<in> {0x20, 0x21, 0xa0, 0xa1, 0x4d0, 0x4d1}"
  shows "\<exists>d. outb env port v s = Ret () (s\<lparr>dev := d\<rparr>) \<and> pic_of d = pic_out port v (pic_of (dev s))"
proof -
  obtain m d where md: "io_outb env port v (mem s, dev s) = (m, d)" by (rule prod.exhaust)
  have "let (m', d') = io_outb env port v (mem s, dev s) in
      (port \<in> {0x20, 0x21, 0xa0, 0xa1, 0x4d0, 0x4d1} \<longrightarrow> m' = mem s) \<and> pic_of d' = pic_out port v (pic_of (dev s))"
    using assms(1) unfolding has_pic_def by blast
  then have "(port \<in> {0x20, 0x21, 0xa0, 0xa1, 0x4d0, 0x4d1} \<longrightarrow> m = mem s) \<and> pic_of d = pic_out port v (pic_of (dev s))"
    unfolding md Let_def prod.case .
  then have "m = mem s" "pic_of d = pic_out port v (pic_of (dev s))" using assms(2) by blast+
  then show ?thesis using md by (intro exI [of _ d]) (simp add: outb_def)
qed

text \<open>Port writes to the controllers, one after another.\<close>

definition drives :: "('d \<Rightarrow> pic) \<Rightarrow> ('d, unit) fw \<Rightarrow> (pic \<Rightarrow> pic) \<Rightarrow> bool" where
  "drives pic_of p f \<longleftrightarrow> (\<forall>s. \<exists>d. p s = Ret () (s\<lparr>dev := d\<rparr>) \<and> pic_of d = f (pic_of (dev s)))"

lemma drives_then:
  assumes "drives pic_of p f" "drives pic_of q g"
  shows "drives pic_of (andthen p q) (\<lambda>c. g (f c))"
  unfolding drives_def
proof
  fix s
  obtain d where d: "p s = Ret () (s\<lparr>dev := d\<rparr>)" "pic_of d = f (pic_of (dev s))" using assms(1) unfolding drives_def by blast
  obtain d' where "q (s\<lparr>dev := d\<rparr>) = Ret () (s\<lparr>dev := d\<rparr>\<lparr>dev := d'\<rparr>)" "pic_of d' = g (pic_of (dev (s\<lparr>dev := d\<rparr>)))"
    using assms(2) unfolding drives_def by blast
  with d show "\<exists>d. andthen p q s = Ret () (s\<lparr>dev := d\<rparr>) \<and> pic_of d = g (f (pic_of (dev s)))"
    by (intro exI [of _ d']) (simp add: andthen_apply)
qed

lemma drives_out:
  "has_pic env pic_of \<Longrightarrow> port \<in> {0x20, 0x21, 0xa0, 0xa1, 0x4d0, 0x4d1} \<Longrightarrow> drives pic_of (outb env port v) (pic_out port v)"
  unfolding drives_def by (blast intro: pic_write)

text \<open>
  C29: The interrupt controllers. Whatever state they were in, setup_pic takes both 8259s through their whole
  initialisation: IRQ 0 to 7 are at vectors 8 to 15 and IRQ 8 to 15 at 0x70 to 0x77, they are cascaded with the
  slave on input 2, both are in 8086 mode, only that input is unmasked, and just IRQ 10 and 11 (the lines the PCI
  interrupts are routed to) are level triggered, the others edge triggered.
\<close>

theorem setup_pic_programs:
  assumes "has_pic env pic_of"
  shows "\<exists>d. setup_pic env s = Ret () (s\<lparr>dev := d\<rparr>) \<and> (let p = pic_of d in
    expect (master p) = 0 \<and> base_vector (master p) = 8 \<and> \<not> single (master p) \<and> (\<forall>i < 8. bit (cascade (master p)) i = (i = 2)) \<and>
    mode (master p) = 1 \<and> (\<forall>i < 8. bit (imr (master p)) i = (i \<noteq> 2)) \<and>
    expect (slave p) = 0 \<and> base_vector (slave p) = 0x70 \<and> \<not> single (slave p) \<and> cascade (slave p) = 2 \<and>
    mode (slave p) = 1 \<and> (\<forall>i < 8. bit (imr (slave p)) i) \<and>
    (\<forall>i < 16. level_triggered p i \<longleftrightarrow> i = 10 \<or> i = 11))"
proof -
  note out = drives_out [OF assms]
  have "\<exists>f. drives pic_of (setup_pic env) f \<and> f = (\<lambda>c.
    pic_out 0x4d1 0x0c (pic_out 0x4d0 0 (pic_out 0xa1 (NOT 0) (pic_out 0x21 (NOT (push_bit 2 1)) (pic_out 0xa1 0x01
    (pic_out 0x21 0x01 (pic_out 0xa1 0x02 (pic_out 0x21 0x04 (pic_out 0xa1 0x70 (pic_out 0x21 8 (pic_out 0xa0 0x11
    (pic_out 0x20 0x11 c))))))))))))" (is "\<exists>f. _ \<and> f = ?f")
    unfolding setup_pic_def by (intro exI conjI) (rule drives_then out | simp)+
  then obtain d where d: "setup_pic env s = Ret () (s\<lparr>dev := d\<rparr>)" "pic_of d = ?f (pic_of (dev s))"
    unfolding drives_def by blast
  have eight: "(\<forall>i < 8. P i) \<longleftrightarrow> P 0 \<and> P 1 \<and> P 2 \<and> P 3 \<and> P 4 \<and> P 5 \<and> P 6 \<and> P 7" for P :: "nat \<Rightarrow> bool"
    by (simp add: numeral_eq_Suc All_less_Suc) blast
  have sixteen: "(\<forall>i < 16. P i) \<longleftrightarrow> (\<forall>i < 8. P i) \<and> (\<forall>i < 8. P (i + 8))" for P :: "nat \<Rightarrow> bool"
  proof -
    have "P i" if "\<forall>i < 8. P i" "\<forall>i < 8. P (i + 8)" "i < 16" for i
      using that(1) that(2) [rule_format, of "i - 8"] that(3) by (cases "i < 8") auto
    then show ?thesis by auto
  qed
  let ?p = "?f (pic_of (dev s))"
  have "master ?p = \<lparr>expect = 0, with_icw4 = True, single = False, all_level = False, base_vector = 8, cascade = 4, mode = 1, imr = 0xfb\<rparr>"
    "slave ?p = \<lparr>expect = 0, with_icw4 = True, single = False, all_level = False, base_vector = 0x70, cascade = 2, mode = 1, imr = 0xff\<rparr>"
    "elcr_low ?p = 0" "elcr_high ?p = 0x0c"
    by (simp_all add: pic_out_def i8259_even_def i8259_odd_def bit_simps)
  then show ?thesis using d by (intro exI [of _ d]) (simp add: Let_def level_triggered_def eight sixteen)
qed

text \<open>The controllers of the reference platform, from the log of its port writes.\<close>

definition ref_pic :: "platform \<Rightarrow> pic" where
  "ref_pic d = fold (\<lambda>(port, v). pic_out port (ucast v)) (port_log d)
     \<lparr>master = \<lparr>expect = 0, with_icw4 = False, single = False, all_level = False, base_vector = 0, cascade = 0, mode = 0, imr = 0\<rparr>,
      slave = \<lparr>expect = 0, with_icw4 = False, single = False, all_level = False, base_vector = 0, cascade = 0, mode = 0, imr = 0\<rparr>, elcr_low = 0, elcr_high = 0\<rparr>"

lemma ref_has_pic: "has_pic (ref_env E) ref_pic"
proof -
  have narrow: "ucast (ucast v :: u32) = v" for v :: u8 by (rule ucast_ucast_up) simp
  have "pic_out port v p = p" if "config_port d port" for d port v p using that by (auto simp: config_port_def data_port_def pic_out_def)
  moreover have "\<not> config_port d port" if "port \<in> {0x20, 0x21, 0xa0, 0xa1, 0x4d0, 0x4d1}" for d port
    using that by (auto simp: config_port_def data_port_def)
  ultimately show ?thesis unfolding has_pic_def by (auto simp: ref_env_def ref_pic_def log_write_def cfg_store_def narrow)
qed

theorem setup_pic_programs_witness:
  "\<exists>d. setup_pic (ref_env (\<lambda>_ _. 0)) (boot_machine (\<lambda>_. 0)) = Ret () (boot_machine (\<lambda>_. 0)\<lparr>dev := d\<rparr>) \<and>
     base_vector (master (ref_pic d)) = 8 \<and> base_vector (slave (ref_pic d)) = 0x70"
  using setup_pic_programs [OF ref_has_pic [of "\<lambda>_ _. 0"], of "boot_machine (\<lambda>_. 0)"] by (auto simp: Let_def)

section \<open>MMCONFIG\<close>

lemma q35_window_written:
  assumes "pci_device env latch space wr" and "\<forall>k < 8. takes wr (pci_reg 0 (0x60 + of_nat k)) 0xff"
  shows "\<exists>d. setup_q35_mmconfig env s = Ret () (s\<lparr>dev := d\<rparr>) \<and> load_bytes (space d) (pci_reg 0 0x60) 8 = le_bytes 8 (0xb0000001 :: u64)"
proof -
  note port = pci_port.intro [OF assms(1)]
  have at: "pci_reg 0 (0x60 + of_nat k) = 0x60 + of_nat k" if "k < 8" for k
  proof -
    have "0x60 + of_nat k = (of_nat (0x60 + k) :: u32)" by simp
    then have "unat (0x60 + of_nat k :: u32) = 0x60 + k" using that by (simp only:) (rule unat_of_nat_u32; simp)
    then show ?thesis using and_byte [of "0x60 + of_nat k"] that by (simp add: pci_reg_def)
  qed
  have rw: "takes wr (0x60 + of_nat k) 0xff" if "k < 8" for k using assms(2) at [OF that] that by metis
  have r60: "pci_reg 0 (0x60 AND 0xfc) = 0x60" "pci_reg 0 ((0x60 + 4) AND 0xfc) = 0x64" "pci_reg 0 0x60 = 0x60" by (simp_all add: pci_reg_def)
  obtain d1 where d1: "pci_config_writel env 0 0x60 0 s = Ret () (s\<lparr>dev := d1\<rparr>)"
    using pci_port.writel [OF port, of 0 "0x60" 0 s] by auto
  obtain d2 where d2: "pci_config_writel env 0 (0x60 + 4) 0 (s\<lparr>dev := d1\<rparr>) = Ret () (s\<lparr>dev := d2\<rparr>)"
    "space d2 = cfg_write wr 0x64 (le_bytes 4 (0 :: u32)) (space d1)"
    using pci_port.writel [OF port, of 0 "0x60 + 4" 0 "s\<lparr>dev := d1\<rparr>"] unfolding r60 by auto
  obtain d3 where d3: "pci_config_writel env 0 0x60 0xb0000001 (s\<lparr>dev := d2\<rparr>) = Ret () (s\<lparr>dev := d3\<rparr>)"
    "space d3 = cfg_write wr 0x60 (le_bytes 4 (0xb0000001 :: u32)) (space d2)"
    using pci_port.writel [OF port, of 0 "0x60" "0xb0000001" "s\<lparr>dev := d2\<rparr>"] unfolding r60 by auto
  have low: "load_bytes (space d3) 0x60 4 = le_bytes 4 (0xb0000001 :: u32)"
    using cfg_write_read [of "le_bytes 4 (0xb0000001 :: u32)" wr "0x60" "space d2"] rw unfolding d3(2) by simp
  have "load_bytes (space d3) 0x64 4 = load_bytes (space d2) 0x64 4"
    unfolding d3(2)
  proof (rule load_bytes_cong)
    fix i :: nat assume "i < 4"
    have "0x64 + of_nat i - 0x60 = (of_nat (4 + i) :: u32)" by simp
    then have "unat (0x64 + of_nat i - 0x60 :: u32) = 4 + i" using \<open>i < 4\<close> by (simp only:) (rule unat_of_nat_u32; simp)
    then show "cfg_write wr 0x60 (le_bytes 4 (0xb0000001 :: u32)) (space d2) (0x64 + of_nat i) = space d2 (0x64 + of_nat i)"
      by (intro cfg_write_outside) (simp_all add: inside_def)
  qed
  also have "\<dots> = le_bytes 4 (0 :: u32)"
    using cfg_write_read [of "le_bytes 4 (0 :: u32)" wr "0x64" "space d1"] rw [of "4 + k" for k] unfolding d2(2) by simp
  finally have high: "load_bytes (space d3) 0x64 4 = le_bytes 4 (0 :: u32)" .
  have "load_bytes (space d3) 0x60 8 = le_bytes 8 (0xb0000001 :: u64)"
  proof -
    have "le_bytes 4 (0xb0000001 :: u32) @ le_bytes 4 (0 :: u32) = le_bytes 8 (0xb0000001 :: u64)" by code_simp
    then show ?thesis using load_bytes_append [of "space d3" "0x60" 4 4] low high by simp
  qed
  then show ?thesis
    using d1 d2(1) d3(1) r60(3) by (intro exI [of _ d3]) (simp add: setup_q35_mmconfig_def andthen_apply)
qed

lemma setup_mmconfig_effect:
  fixes devid :: u32
  assumes "pci_device env latch space wr" and "\<forall>k < 8. takes wr (pci_reg 0 (0x60 + of_nat k)) 0xff"
    and "devid = le_word (load_bytes (space (dev s)) (pci_reg 0 0) 4)"
  shows "\<exists>d. setup_mmconfig env s = Ret (devid = ID_INTEL_Q35_MCH) (s\<lparr>dev := d\<rparr>) \<and>
    (if devid = ID_INTEL_Q35_MCH then load_bytes (space d) (pci_reg 0 0x60) 8 = le_bytes 8 (0xb0000001 :: u64)
     else space d = space (dev s))"
proof -
  obtain d0 where d0: "pci_config_readl env 0 0 s = Ret devid (s\<lparr>dev := d0\<rparr>)" "space d0 = space (dev s)"
    using pci_port.readl [OF pci_port.intro [OF assms(1)], of 0 0 s] assms(3) by auto
  obtain d where "setup_q35_mmconfig env (s\<lparr>dev := d0\<rparr>) = Ret () (s\<lparr>dev := d\<rparr>)"
    "load_bytes (space d) (pci_reg 0 0x60) 8 = le_bytes 8 (0xb0000001 :: u64)"
    using q35_window_written [OF assms(1,2), of "s\<lparr>dev := d0\<rparr>"] by auto
  then show ?thesis
    using d0 by (intro exI [of _ "if devid = ID_INTEL_Q35_MCH then d else d0"])
      (simp add: setup_mmconfig_def bind_run [of "pci_config_readl env 0 0", OF d0(1)] andthen_apply)
qed

text \<open>
  C30: The MMCONFIG window. On a Q35 machine setup_mmconfig returns true and the window register of the host
  bridge holds base 0xb0000000 with the enable bit, in all eight bytes; other machines get false and an
  untouched configuration space. Memory is the same in either case.
\<close>

theorem mmconfig_window:
  fixes devid :: u32
  assumes "pci_device env latch space wr" and "\<forall>k < 8. takes wr (pci_reg 0 (0x60 + of_nat k)) 0xff"
    and "devid = le_word (load_bytes (space (dev s)) (pci_reg 0 0) 4)"
  shows "\<exists>d. setup_mmconfig env s = Ret (devid = ID_INTEL_Q35_MCH) (s\<lparr>dev := d\<rparr>) \<and>
    (if devid = ID_INTEL_Q35_MCH then load_bytes (space d) (pci_reg 0 0x60) 8 = le_bytes 8 (0xb0000001 :: u64)
     else space d = space (dev s))"
  by (rule setup_mmconfig_effect [OF assms])

theorem mmconfig_window_witness:
  "\<exists>d. setup_mmconfig (ref_env (\<lambda>_ _. 0)) (boot_machine (\<lambda>_. 0)
       \<lparr>dev := \<lparr>entry = 0, position = 0, pending = False, cfg_addr = 0,
         cfg_space = (\<lambda>r. if r = 0 then 0x86 else if r = 1 then 0x80 else if r = 2 then 0xc0 else if r = 3 then 0x29 else 0),
         port_log = []\<rparr>\<rparr>) = Ret True d"
proof -
  let ?s = "boot_machine (\<lambda>_. 0)
       \<lparr>dev := \<lparr>entry = 0, position = 0, pending = False, cfg_addr = 0,
         cfg_space = (\<lambda>r. if r = 0 then 0x86 else if r = 1 then 0x80 else if r = 2 then 0xc0 else if r = 3 then 0x29 else 0),
         port_log = []\<rparr>\<rparr>"
  have "(ID_INTEL_Q35_MCH :: u32) = le_word (load_bytes (cfg_space (dev ?s)) (pci_reg 0 0) 4)"
    by (simp add: pci_reg_def load_bytes_numeral)
  from mmconfig_window [OF ref_pci_device _ this] show ?thesis by auto
qed

end
