(* ===== verification/Hwmain.thy ===== *)
theory Hwmain
  imports Hwspec Qboot
begin

text \<open>
  The hardware phase of \<open>main\<close> as a whole: the chipset, the shadow copy, MMCONFIG and PCI, up to where the tables are built.
\<close>

text \<open>The first part of \<open>main\<close>.\<close>

definition prepare_hardware :: "nat \<Rightarrow> 'd env \<Rightarrow> ('d, unit) fw" where
  "prepare_hardware n env =
     bind (setup_hw env) (\<lambda>have_pci.
     bind (setup_mmconfig env) (\<lambda>mmconfig.
     andthen (update (\<lambda>s. s\<lparr>have_mmconfig := mmconfig\<rparr>))
     (when_do have_pci (setup_pci n env))))"

section \<open>Programs that leave the identity of the PCI functions alone\<close>

definition same_ids :: "(u32 \<Rightarrow> u8) \<Rightarrow> (u32 \<Rightarrow> u8) \<Rightarrow> bool" where
  "same_ids sp sp' \<longleftrightarrow> (\<forall>v. dev_id sp' v = dev_id sp v \<and> hdr_type sp' v = hdr_type sp v \<and> class_of sp' v = class_of sp v)"

lemma same_ids_trans: "same_ids sp sp' \<Longrightarrow> same_ids sp' sp'' \<Longrightarrow> same_ids sp sp''"
  by (simp add: same_ids_def)

lemma same_ids_bridges:
  assumes "same_ids sp sp'"
  shows "bridges_of sp' (bus_functions sp' b) = bridges_of sp (bus_functions sp b)"
proof -
  have "present sp' = present sp" "hdr_type sp' = hdr_type sp" "class_of sp' = class_of sp"
    using assms by (auto simp: same_ids_def present_def fun_eq_iff)
  then show ?thesis by (simp add: bridges_of_def bus_functions_def slot_functions_def [abs_def] cong: if_cong)
qed

text \<open>Such a program returns, and changes nothing but memory and the devices.\<close>

definition calm :: "('d \<Rightarrow> u32 \<Rightarrow> u8) \<Rightarrow> ('d, 'a) fw \<Rightarrow> bool" where
  "calm space p \<longleftrightarrow> (\<forall>s. \<exists>v m d. p s = Ret v (s\<lparr>mem := m, dev := d\<rparr>) \<and> same_ids (space (dev s)) (space d))"

named_theorems calm_intros "programs that return and leave the PCI functions alone"

lemma calmI: "p s = Ret v (s\<lparr>mem := m, dev := d\<rparr>) \<Longrightarrow> same_ids (space (dev s)) (space d) \<Longrightarrow>
    \<exists>v m d. p s = Ret v (s\<lparr>mem := m, dev := d\<rparr>) \<and> same_ids (space (dev s)) (space d)"
  by blast

lemma calm_bind [calm_intros]:
  assumes "calm space p" "\<And>v. calm space (q v)"
  shows "calm space (bind p q)"
  unfolding calm_def
proof
  fix s
  obtain v m d where p: "p s = Ret v (s\<lparr>mem := m, dev := d\<rparr>)" "same_ids (space (dev s)) (space d)"
    using assms(1) unfolding calm_def by blast
  let ?s = "s\<lparr>mem := m, dev := d\<rparr>"
  obtain v' m' d' where q: "q v ?s = Ret v' (?s\<lparr>mem := m', dev := d'\<rparr>)" "same_ids (space (dev ?s)) (space d')"
    using assms(2) unfolding calm_def by blast
  show "\<exists>v m d. bind p q s = Ret v (s\<lparr>mem := m, dev := d\<rparr>) \<and> same_ids (space (dev s)) (space d)"
    by (rule calmI [where v = v' and m = m' and d = d']) (use p q in \<open>auto simp: bind_apply intro: same_ids_trans\<close>)
qed

lemma calm_andthen [calm_intros]: "calm space p \<Longrightarrow> calm space q \<Longrightarrow> calm space (andthen p q)"
  unfolding andthen_def by (rule calm_bind)

lemma calm_read: "(\<And>s. \<exists>v d. p s = Ret v (s\<lparr>dev := d\<rparr>) \<and> space d = space (dev s)) \<Longrightarrow> calm space p"
  unfolding calm_def
proof
  fix s assume "\<And>s. \<exists>v d. p s = Ret v (s\<lparr>dev := d\<rparr>) \<and> space d = space (dev s)"
  then obtain v d where "p s = Ret v (s\<lparr>dev := d\<rparr>)" "space d = space (dev s)" by blast
  then show "\<exists>v m d. p s = Ret v (s\<lparr>mem := m, dev := d\<rparr>) \<and> same_ids (space (dev s)) (space d)"
    by (intro calmI [where m = "mem s" and d = d]) (simp_all add: same_ids_def)
qed

lemma same_state: "\<exists>m d. s = s\<lparr>mem := m, dev := d\<rparr> \<and> same_ids (space (dev s)) (space d)"
  by (rule exI [of _ "mem s"], rule exI [of _ "dev s"]) (simp add: same_ids_def)

lemma calm_ret [calm_intros]: "calm space (ret v)"
  unfolding calm_def ret_def using same_state by metis

lemma calm_get_state [calm_intros]: "calm space get_state"
  unfolding calm_def get_state_apply using same_state by metis

lemma calm_on_mem [calm_intros]: "calm space (on_mem g)"
  unfolding calm_def
proof
  fix s
  show "\<exists>v m d. on_mem g s = Ret v (s\<lparr>mem := m, dev := d\<rparr>) \<and> same_ids (space (dev s)) (space d)"
    by (rule calmI [where m = "g (mem s)" and d = "dev s"]) (simp_all add: on_mem_def same_ids_def)
qed

lemma calm_when [calm_intros]: "calm space p \<Longrightarrow> calm space (when_do c p)"
  by (simp add: when_do_def calm_ret)

lemma calm_if [calm_intros]: "calm space p \<Longrightarrow> calm space q \<Longrightarrow> calm space (if c then p else q)"
  by simp

lemma calm_for_each: "(\<And>x. x \<in> set xs \<Longrightarrow> calm space (p x)) \<Longrightarrow> calm space (for_each xs p)"
  by (induction xs) (auto intro: calm_intros)

lemma calm_quiet: "quiet space p \<Longrightarrow> calm space p"
  unfolding quiet_def by (intro calm_read) blast

context pci_port
begin

lemma calm_runs:
  assumes "runs bdf p"
  shows "calm space p"
  unfolding calm_def
proof
  fix s
  obtain d where "p s = Ret () (s\<lparr>dev := d\<rparr>)" "touches bdf (space (dev s)) (space d)" using assms unfolding runs_def by blast
  then show "\<exists>v m d. p s = Ret v (s\<lparr>mem := m, dev := d\<rparr>) \<and> same_ids (space (dev s)) (space d)"
    by (intro calmI [where m = "mem s" and d = d]) (simp_all add: same_ids_def touches_config)
qed

lemma calm_readl: "calm space (pci_config_readl env bdf a)"
  by (rule calm_read) (use readl in blast)

lemma calm_pam:
  assumes "pb = 0x59 \<or> pb = 0x90"
  shows "calm space (setup_pam env 0 pb)"
proof -
  have "calm space (pci_config_writeb env 0 (pb + 1 + of_nat i) 0x33)" if "i < 6" for i
  proof -
    have "i \<in> {0, 1, 2, 3, 4, 5}" using that by auto
    then have "16 \<le> unat ((pb + 1 + of_nat i) AND 0xff)" using assms by auto
    from calm_runs [OF runs_writeb [OF this, of 0]] show ?thesis by simp
  qed
  moreover have "calm space (pci_config_writeb env 0 pb 0x30)"
    using calm_runs [OF runs_writeb [of pb 0]] assms by auto
  ultimately show ?thesis unfolding setup_pam_def Let_def by (intro calm_andthen calm_for_each) simp_all
qed

lemma calm_rom_load [calm_intros]: "calm space (rom_load env p)"
proof (rule calm_read)
  fix s
  show "\<exists>v d. rom_load env p s = Ret v (s\<lparr>dev := d\<rparr>) \<and> space d = space (dev s)"
    by (rule exI, rule exI [of _ "dev s"]) (simp add: rom_load_def)
qed

lemma calm_setup_hw:
  assumes "quiet_ports env space"
  shows "calm space (setup_hw env)"
  unfolding setup_hw_def Let_def try_store_def rom_copy_def
  by (intro calm_intros calm_readl calm_pam disjI1 disjI2 refl runs_chipset [THEN calm_runs] calm_quiet quiet_pic [OF assms])

lemma calm_setup_mmconfig: "calm space (setup_mmconfig env)"
proof -
  have "runs 0 (setup_q35_mmconfig env)"
    unfolding setup_q35_mmconfig_def Let_def
    by (intro runs_then runs_writel [of _ 0, simplified]) simp_all
  then show ?thesis unfolding setup_mmconfig_def by (intro calm_intros calm_readl calm_runs)
qed

lemma setup_mmconfig_calm:
  fixes devid :: u32
  assumes "devid = le_word (load_bytes (space (dev s)) (pci_reg 0 0) 4)"
  obtains d where "setup_mmconfig env s = Ret (devid = ID_INTEL_Q35_MCH) (s\<lparr>dev := d\<rparr>)" "same_ids (space (dev s)) (space d)"
proof -
  obtain d0 where d0: "pci_config_readl env 0 0 s = Ret devid (s\<lparr>dev := d0\<rparr>)" "space d0 = space (dev s)"
    using readl [of 0 0 s] assms by auto
  have "runs 0 (setup_q35_mmconfig env)"
    unfolding setup_q35_mmconfig_def Let_def
    by (intro runs_then runs_writel [of _ 0, simplified]) simp_all
  then obtain d where d: "setup_q35_mmconfig env (s\<lparr>dev := d0\<rparr>) = Ret () (s\<lparr>dev := d\<rparr>)" "touches 0 (space d0) (space d)"
    unfolding runs_def by (auto dest!: spec [of _ "s\<lparr>dev := d0\<rparr>"])
  have "same_ids (space (dev s)) (space (if devid = ID_INTEL_Q35_MCH then d else d0))"
    using touches_config [OF d(2)] d0(2) by (auto simp: same_ids_def)
  moreover have "setup_mmconfig env s = Ret (devid = ID_INTEL_Q35_MCH) (s\<lparr>dev := if devid = ID_INTEL_Q35_MCH then d else d0\<rparr>)"
    using d(1) by (simp add: setup_mmconfig_def bind_run [of "pci_config_readl env 0 0", OF d0(1)] andthen_apply)
  ultimately show thesis by (intro that)
qed

end

section \<open>The hardware phase\<close>

lemma hardware_ready:
  fixes devid :: u32 and s :: "'d machine"
  assumes dev: "pci_device env latch space wr" "quiet_ports env space"
    and devid: "devid = le_word (load_bytes (space (dev s)) (pci_reg 0 0) 4)"
    and known: "devid = ID_INTEL_82441 \<or> devid = ID_INTEL_Q35_MCH"
    and bus: "bridges_of (space (dev s)) (bus_functions (space (dev s)) (bus s)) = []"
    and pb: "pb = (if devid = ID_INTEL_82441 then 0x59 else 0x90)" and pam: "pam_controls env space pb"
    and takes: "takes wr (pci_reg 0 pb) 0x30" "\<And>k. k < 6 \<Longrightarrow> takes wr (pci_reg 0 (pb + 1 + of_nat k)) 0x33"
    and image: "image_in_fseg env n1 n2"
    and layout: "unat (stext env) + n1 \<le> unat (fseg_base s)" "unat (fseg_base s) + 32 \<le> unat (sinit env)"
  shows "\<exists>t p. prepare_hardware (Suc n) env s = Ret () t \<and>
    have_mmconfig t = (devid = ID_INTEL_Q35_MCH) \<and> use_i440fx_routing t = (devid = ID_INTEL_82441) \<and>
    unat (fseg_base s) \<le> unat p \<and> unat p < unat (fseg_base s) + 16 \<and> fseg_base t = p + 16 \<and>
    malloc_top t = malloc_top s \<and> file_address t = file_address s \<and>
    (\<exists>ck. load_bytes (mem t) p 16 = bios32_bytes (bios32_entry env) ck) \<and> sum_list (load_bytes (mem t) p 16) = 0 \<and>
    load_bytes (mem t) (stext env) n1 = load_bytes (mem s) (stext env + 0xfff00000) n1 \<and>
    load_bytes (mem t) (sinit env) n2 = load_bytes (mem s) (sinit env + 0xfff00000) n2"
proof -
  note port = pci_port.intro [OF dev(1)]
  have top: "unat (sinit env) + n2 \<le> 2 ^ 32" using image by (simp add: image_in_fseg_def)
  obtain t1 where t1: "setup_hw env s = Ret True t1"
    "load_bytes (mem t1) (stext env) n1 = load_bytes (mem s) (stext env + 0xfff00000) n1"
    "load_bytes (mem t1) (sinit env) n2 = load_bytes (mem s) (sinit env + 0xfff00000) n2"
    using setup_hw_effect [OF dev(1,2) devid pb pam takes image] known by auto
  obtain m d where d: "t1 = s\<lparr>mem := m, dev := d\<rparr>" "same_ids (space (dev s)) (space d)"
    using pci_port.calm_setup_hw [OF port dev(2)] t1(1) unfolding calm_def by (metis outcome.inject(1))
  have id1: "devid = le_word (load_bytes (space (dev t1)) (pci_reg 0 0) 4)"
    using spec [OF d(2) [unfolded same_ids_def], of 0] devid by (simp add: d(1) dev_id_def)
  obtain d2 where d2: "setup_mmconfig env t1 = Ret (devid = ID_INTEL_Q35_MCH) (t1\<lparr>dev := d2\<rparr>)" "same_ids (space (dev t1)) (space d2)"
    by (rule pci_port.setup_mmconfig_calm [OF port id1])
  let ?s = "t1\<lparr>dev := d2, have_mmconfig := (devid = ID_INTEL_Q35_MCH)\<rparr>"
  have same: "same_ids (space (dev s)) (space (dev ?s))" using d d2(2) same_ids_trans by auto
  have id2: "devid = le_word (load_bytes (space (dev ?s)) (pci_reg 0 0) 4)"
    using spec [OF same [unfolded same_ids_def], of 0] devid by (simp add: dev_id_def)
  have bus2: "bridges_of (space (dev ?s)) (bus_functions (space (dev ?s)) (bus ?s)) = []"
    using same_ids_bridges [OF same, of "bus s"] bus by (simp add: d(1))
  have fits: "fseg_fits 16 16 ?s" using layout(2) top unat_bound [of "sinit env"] by (simp add: fseg_fits_def d(1))
  obtain t p ck where t: "setup_pci (Suc n) env ?s = Ret () t" "mem t = store_bytes (mem ?s) p (bios32_bytes (bios32_entry env) ck)"
    "fseg_base t = p + 16" "sum_list (bios32_bytes (bios32_entry env) ck) = 0" "use_i440fx_routing t = (devid = ID_INTEL_82441)"
    "unat (fseg_base ?s) \<le> unat p" "unat p < unat (fseg_base ?s) + 16" "malloc_top t = malloc_top ?s" "file_address t = file_address ?s"
    "have_mmconfig t = have_mmconfig ?s"
    using setup_pci_returns [OF dev(1) id2 known bus2 fits, of n] by (elim exE conjE) (rule that; assumption)
  have p: "unat (fseg_base s) \<le> unat p" "unat p < unat (fseg_base s) + 16" using t(6,7) by (simp_all add: d(1))
  have bios32: "load_bytes (mem t) p 16 = bios32_bytes (bios32_entry env) ck"
    unfolding t(2) by (rule load_store_same) simp_all
  have "apart p 16 (sinit env) n2" using p layout top by (intro apart_interval) simp_all
  moreover have "apart p 16 (stext env) n1"
    unfolding apart_commute [of p] using p layout top by (intro apart_interval) simp_all
  ultimately have image: "load_bytes (mem t) (stext env) n1 = load_bytes (mem t1) (stext env) n1" "load_bytes (mem t) (sinit env) n2 = load_bytes (mem t1) (sinit env) n2"
    by (simp_all add: t(2) load_store_apart)
  have "prepare_hardware (Suc n) env s = Ret () t"
    using t(1) by (simp add: prepare_hardware_def bind_apply t1(1) d2(1) andthen_apply update_def when_do_def)
  then show ?thesis using t p bios32 image t1
    by (intro exI [of _ t] exI [of _ p] conjI exI [of _ ck]) (simp_all add: d(1))
qed

text \<open>
  C25: The hardware phase. On an i440FX or Q35 machine with one bus, whose attribute registers map the F-segment as documented, and
  with the image laid out as the linker lays it out, the first half of \<open>main\<close> returns, whatever functions are present: the image is in RAM as it was in ROM, the variables
  say which chipset it is, the F-segment heap has given out one block for the BIOS32 header, whose bytes add up to zero and
  name the entry point of the PCI BIOS, and the other heap and the table of files are as they were.
\<close>

theorem hardware_prepared:
  fixes devid :: u32 and s :: "'d machine"
  assumes dev: "pci_device env latch space wr" "quiet_ports env space"
    and devid: "devid = le_word (load_bytes (space (dev s)) (pci_reg 0 0) 4)"
    and known: "devid = ID_INTEL_82441 \<or> devid = ID_INTEL_Q35_MCH"
    and bus: "bridges_of (space (dev s)) (bus_functions (space (dev s)) (bus s)) = []"
    and pb: "pb = (if devid = ID_INTEL_82441 then 0x59 else 0x90)" and pam: "pam_controls env space pb"
    and takes: "takes wr (pci_reg 0 pb) 0x30" "\<And>k. k < 6 \<Longrightarrow> takes wr (pci_reg 0 (pb + 1 + of_nat k)) 0x33"
    and image: "image_in_fseg env n1 n2"
    and layout: "unat (stext env) + n1 \<le> unat (fseg_base s)" "unat (fseg_base s) + 32 \<le> unat (sinit env)"
  shows "\<exists>t p. prepare_hardware (Suc n) env s = Ret () t \<and>
    have_mmconfig t = (devid = ID_INTEL_Q35_MCH) \<and> use_i440fx_routing t = (devid = ID_INTEL_82441) \<and>
    unat (fseg_base s) \<le> unat p \<and> unat p < unat (fseg_base s) + 16 \<and> fseg_base t = p + 16 \<and>
    malloc_top t = malloc_top s \<and> file_address t = file_address s \<and>
    (\<exists>ck. load_bytes (mem t) p 16 = bios32_bytes (bios32_entry env) ck) \<and> sum_list (load_bytes (mem t) p 16) = 0 \<and>
    load_bytes (mem t) (stext env) n1 = load_bytes (mem s) (stext env + 0xfff00000) n1 \<and>
    load_bytes (mem t) (sinit env) n2 = load_bytes (mem s) (sinit env + 0xfff00000) n2"
  by (rule hardware_ready [OF assms])

lemma ref_layout:
  "unat (stext (ref_env E)) + 0x8000 \<le> unat (fseg_base pc_machine)" "unat (fseg_base pc_machine) + 32 \<le> unat (sinit (ref_env E))"
  by (simp_all add: pc_machine_def boot_machine_def)

lemma pc_machine_fields:
  "mem pc_machine = reset_mem" "malloc_top pc_machine = 0xf0000" "fseg_base pc_machine = 0xf8000" "file_address pc_machine = replicate 20 0"
  by (simp_all add: pc_machine_def boot_machine_def)

theorem hardware_prepared_witness:
  "\<exists>t p. prepare_hardware 1 (ref_env (\<lambda>_ _. 0)) pc_machine = Ret () t \<and> use_i440fx_routing t \<and> sum_list (load_bytes (mem t) p 16) = 0 \<and>
     load_bytes (mem t) 0xf0000 0x8000 = load_bytes reset_mem 0xffff0000 0x8000"
proof -
  let ?E = "ref_env (\<lambda>_ _. 0)"
  obtain t p where t: "prepare_hardware (Suc 0) ?E pc_machine = Ret () t" "use_i440fx_routing t" "sum_list (load_bytes (mem t) p 16) = 0"
    "load_bytes (mem t) (stext ?E) 0x8000 = load_bytes (mem pc_machine) (stext ?E + 0xfff00000) 0x8000"
    using hardware_prepared [OF ref_pci_device ref_quiet pc_machine_ready(1) _ pc_machine_ready(2) _ ref_pam takes_plain takes_plain
        ref_image ref_layout, of 0] by (simp (no_asm_use)) blast
  then show ?thesis by (intro exI [of _ t] exI [of _ p]) (simp add: pc_machine_fields)
qed

end
