(* ===== verification/Mainspec.thy ===== *)
theory Mainspec
  imports Bzspec Acpispec Hwmain
begin

text \<open>
  The components together: \<open>main\<close> from the prepared hardware to the first instruction of a Linux kernel, and what the
  components have built that is still there for the kernel to find.
\<close>

section \<open>Variables a program leaves alone\<close>

definition keeps :: "('s \<Rightarrow> 'x) \<Rightarrow> ('s, 'a) prog \<Rightarrow> bool" where
  "keeps f p \<longleftrightarrow> (\<forall>s a t. p s = Ret a t \<longrightarrow> f t = f s)"

named_theorems keeps_intros "variables kept by the operators and the steps"

lemma keepsD: "keeps f p \<Longrightarrow> p s = Ret a t \<Longrightarrow> f t = f s"
  unfolding keeps_def by blast

lemma keeps_ret [keeps_intros]: "keeps f (ret a)"
  by (simp add: keeps_def)

lemma keeps_get_state [keeps_intros]: "keeps f get_state"
  by (simp add: keeps_def)

lemma keeps_ends [keeps_intros]: "keeps f panic" "keeps f (\<lambda>_. Fault x)"
  by (simp_all add: keeps_def)

lemma keeps_bind [keeps_intros]: "keeps f p \<Longrightarrow> (\<And>v. keeps f (q v)) \<Longrightarrow> keeps f (bind p q)"
  unfolding keeps_def bind_apply by (auto split: outcome.splits)

lemma keeps_andthen [keeps_intros]: "keeps f p \<Longrightarrow> keeps f q \<Longrightarrow> keeps f (andthen p q)"
  unfolding andthen_def by (rule keeps_bind)

lemma keeps_if [keeps_intros]: "(c \<Longrightarrow> keeps f p) \<Longrightarrow> (\<not> c \<Longrightarrow> keeps f q) \<Longrightarrow> keeps f (if c then p else q)"
  by simp

lemma keeps_when [keeps_intros]: "keeps f p \<Longrightarrow> keeps f (when_do c p)"
  by (simp add: when_do_def keeps_ret)

lemma keeps_let: "(\<And>x. keeps f (p x)) \<Longrightarrow> keeps f (Let v p)"
  by simp

text \<open>Port accesses, memory and the allocators do not touch the variable have_mmconfig.\<close>

lemma keeps_ports [keeps_intros]:
  "keeps have_mmconfig (on_mem g)" "keeps have_mmconfig (inb env port)" "keeps have_mmconfig (outb env port b)"
  "keeps have_mmconfig (outw env port w)" "keeps have_mmconfig (outl env port l)"
  by (auto simp: keeps_def inb_def outb_def outw_def outl_def split: prod.splits)

lemma keeps_allocators [keeps_intros]: "keeps have_mmconfig (malloc_align n a)" "keeps have_mmconfig (malloc_fseg_align n a)"
  by (auto simp: keeps_def malloc_align_apply malloc_fseg_align_apply Let_def)

lemma keeps_insb [keeps_intros]: "keeps have_mmconfig (insb env buf port n)"
proof -
  have "keeps have_mmconfig (insb_loop env buf port k)" for k
    by (induction k arbitrary: buf) (auto intro!: keeps_intros)
  then show ?thesis by (simp add: insb_def)
qed

lemma keeps_dma_wait [keeps_intros]: "keeps have_mmconfig (dma_wait env)"
proof -
  have "have_mmconfig t = have_mmconfig s" if "while_option (dma_busy env) (poll env) s = Some t" for s t
    by (rule while_option_rule [where P = "\<lambda>t. have_mmconfig t = have_mmconfig s", OF _ that])
       (auto simp: poll_def split: prod.splits)
  then show ?thesis by (auto simp: keeps_def dma_wait_def split: option.splits)
qed

lemma keeps_reads [keeps_intros]: "keeps have_mmconfig (fw_cfg_read_file env i buf n)"
  unfolding fw_cfg_read_file_def fw_cfg_read_entry_def fw_cfg_dma_def fw_cfg_select_def Let_def
  by (intro keeps_intros)

lemma keeps_file_address [keeps_intros]: "keeps have_mmconfig (set_file_addr i p)" "keeps have_mmconfig (id_to_addr i)"
  by (auto simp: keeps_def set_file_addr_def id_to_addr_def prog_simps)

lemma keeps_loader [keeps_intros]: "keeps have_mmconfig (loader_loop env i k)"
  by (induction k arbitrary: i)
     (auto simp: do_alloc_def do_ptr_def do_checksum_def Let_def intro!: keeps_intros)

lemma extract_acpi_keeps: "keeps have_mmconfig (extract_acpi env)"
  unfolding extract_acpi_def Let_def by (intro keeps_intros)

section \<open>The hardware\<close>

lemma main_prepared:
  assumes "prepare_hardware n env s = Ret () s0"
  shows "main n env s = andthen (setup_idt env) (andthen (fw_cfg_setup env) (andthen (extract_acpi env) (andthen (extract_e820 env)
    (andthen (setup_mptable env) (andthen (extract_smbios env) (andthen (boot_from_fwcfg env) panic)))))) s0"
proof -
  have "main n env = andthen (prepare_hardware n env) (andthen (setup_idt env) (andthen (fw_cfg_setup env) (andthen (extract_acpi env)
    (andthen (extract_e820 env) (andthen (setup_mptable env) (andthen (extract_smbios env) (andthen (boot_from_fwcfg env) panic)))))))"
    by (simp only: main_def prepare_hardware_def andthen_def bind_assoc)
  then show ?thesis using assms by (simp only: andthen_apply outcome.case)
qed

section \<open>What the device offers\<close>

text \<open>A script for the linker/loader, of \<open>n\<close> bytes, or none.\<close>

definition script_offered :: "(u16 \<Rightarrow> nat \<Rightarrow> u8) \<Rightarrow> fw_cfg_file list \<Rightarrow> loader_cmd list \<Rightarrow> nat \<Rightarrow> bool" where
  "script_offered E ft cs n \<longleftrightarrow> (case file_of ft (chars ''etc/table-loader'') of
     None \<Rightarrow> cs = [] \<and> n = 0
   | Some l \<Rightarrow> n = size_of ft l \<and> script_of (entry_bytes E (file_select (ft ! l)) 0 n) cs \<and> well_formed ft {} cs)"

text \<open>An anchor and tables for SMBIOS, or none.\<close>

definition smbios_offered :: "(u16 \<Rightarrow> nat \<Rightarrow> u8) \<Rightarrow> fw_cfg_file list \<Rightarrow> (u8 list \<times> u8 list) option \<Rightarrow> bool" where
  "smbios_offered E ft sm \<longleftrightarrow> (case sm of
     None \<Rightarrow> file_of ft (chars ''etc/smbios/smbios-anchor'') = None
   | Some (A, T) \<Rightarrow> (case (file_of ft (chars ''etc/smbios/smbios-anchor''), file_of ft (chars ''etc/smbios/smbios-tables'')) of
        (Some i, Some j) \<Rightarrow> file_size (ft ! i) = 31 \<and> A = entry_bytes E (file_select (ft ! i)) 0 31 \<and>
          file_size (ft ! j) = ucast (le_word (take 2 (drop 22 A)) :: u16) \<and>
          T = entry_bytes E (file_select (ft ! j)) 0 (size_of ft j) \<and> length T + 46 < 2 ^ 16 \<and> 22 \<le> unat (A ! 5)
      | _ \<Rightarrow> False))"

definition smbios_space :: "(u8 list \<times> u8 list) option \<Rightarrow> nat" where
  "smbios_space sm = (case sm of None \<Rightarrow> 0 | Some (A, T) \<Rightarrow> length T + 340)"

text \<open>The anchor at \<open>ep\<close>: its checksums are good, and it points to the tables.\<close>

definition smbios_in :: "u8 list \<Rightarrow> u8 list \<Rightarrow> mem \<Rightarrow> addr \<Rightarrow> bool" where
  "smbios_in A T m ep \<longleftrightarrow> unat ep mod 16 = 0 \<and> sum_list (load_bytes m ep 16) = 0 \<and>
     sum_list (load_bytes m (ep + 16) (unat (A ! 5) - 16)) = 0 \<and>
     load_bytes m (tables_start m ep) (unat (lduw_p m (ep + 22))) \<in> {T, type_0_image @ T}"

section \<open>Parts of memory that stay\<close>

definition kept :: "nat \<Rightarrow> nat \<Rightarrow> mem \<Rightarrow> mem \<Rightarrow> bool" where
  "kept lo hi m m' \<longleftrightarrow> (\<forall>a. lo \<le> unat a \<longrightarrow> unat a < hi \<longrightarrow> m' a = m a)"

lemma kept_trans: "kept lo hi m m' \<Longrightarrow> kept lo hi m' m'' \<Longrightarrow> kept lo hi m m''"
  by (simp add: kept_def)

lemma kept_mono: "kept lo hi m m' \<Longrightarrow> lo \<le> lo' \<Longrightarrow> hi' \<le> hi \<Longrightarrow> kept lo' hi' m m'"
  by (simp add: kept_def)

lemma kept_load:
  assumes "kept lo hi m m'" "lo \<le> unat p" "unat p + n \<le> hi" "hi \<le> 2 ^ 32"
  shows "load_bytes m' p n = load_bytes m p n"
proof (rule load_bytes_cong)
  fix i assume "i < n"
  then have "unat (p + of_nat i) = unat p + i" using assms by (subst unat_add_less) (simp_all add: unat_of_nat)
  then show "m' (p + of_nat i) = m (p + of_nat i)" using assms \<open>i < n\<close> by (simp add: kept_def)
qed

lemma smbios_in_kept:
  assumes "smbios_in A T m ep" "kept lo hi m m'" "hi \<le> 2 ^ 32"
    and ep: "lo \<le> unat ep" "unat ep + 255 \<le> hi"
    and tables: "unat ep + 31 \<le> unat (tables_start m ep)" "unat (tables_start m ep) + unat (lduw_p m (ep + 22)) \<le> hi"
  shows "smbios_in A T m' ep"
proof -
  have at: "load_bytes m' (ep + of_nat i) n = load_bytes m (ep + of_nat i) n" if "i + n \<le> 255" for i n
  proof (cases "n = 0")
    case False
    then have "unat (ep + of_nat i) = unat ep + i" using that ep assms(3) by (subst unat_add_less) (simp_all add: unat_of_nat)
    then show ?thesis using that ep assms(3) by (intro kept_load [OF assms(2)]) simp_all
  qed simp
  have "load_bytes m' ep 16 = load_bytes m ep 16" "tables_start m' ep = tables_start m ep" "lduw_p m' (ep + 22) = lduw_p m (ep + 22)"
    using at [of 0 16] at [of 24 4] at [of 22 2] by (simp_all add: tables_start_def ldl_p_def lduw_p_def)
  moreover have "load_bytes m' (ep + 16) (unat (A ! 5) - 16) = load_bytes m (ep + 16) (unat (A ! 5) - 16)"
    using at [of 16 "unat (A ! 5) - 16"] unat_bound [of "A ! 5"] by simp
  moreover have "load_bytes m' (tables_start m ep) (unat (lduw_p m (ep + 22))) = load_bytes m (tables_start m ep) (unat (lduw_p m (ep + 22)))"
    using tables ep assms(3) by (intro kept_load [OF assms(2)]) simp_all
  ultimately show ?thesis using assms(1) by (simp add: smbios_in_def)
qed

section \<open>The steps\<close>

lemma outside_low:
  assumes "unat p + n \<le> unat a" "unat p + n \<le> 2 ^ 32"
  shows "\<not> inside a p n"
  using assms by (subst inside_interval) simp_all

text \<open>The linker/loader, with a script or without.\<close>

lemma acpi_step:
  fixes s :: "'d machine"
  assumes dev: "fw_cfg_device env sel off E" and ok: "blobs_ok env s" "file_address s = replicate 20 0" and ft: "ft = file_table s"
    and script: "script_offered E ft cs n"
    and place: "unat (loader_script env) + n \<le> b" "unat (dma_desc env) + 16 \<le> b" "apart (dma_desc env) 16 (loader_script env) n"
    and room: "b + space ft False cs \<le> unat (malloc_top s)" "unat (fseg_base s) + space ft True cs \<le> 2 ^ 32"
  obtains s' at where "extract_acpi env s = Ret () s'" "blobs_ok env s'" "file_table s' = ft" "have_mmconfig s' = have_mmconfig s"
    "\<forall>j \<in> allocated ft cs. load_bytes (mem s') (at j) (size_of ft j) = exec ft E at cs (\<lambda>_. []) j \<and> between s' (at j) (size_of ft j) \<and>
       (\<forall>k \<in> allocated ft cs. k \<noteq> j \<longrightarrow> apart (at j) (size_of ft j) (at k) (size_of ft k))"
    "unat (malloc_top s') \<le> unat (malloc_top s)" "unat (malloc_top s) \<le> unat (malloc_top s') + space ft False cs"
    "unat (fseg_base s) \<le> unat (fseg_base s')" "unat (fseg_base s') \<le> unat (fseg_base s) + space ft True cs"
    "\<forall>a. unat a < unat (malloc_top s') \<longrightarrow> \<not> inside a (dma_desc env) 16 \<longrightarrow> \<not> inside a (loader_script env) n \<longrightarrow> mem s' a = mem s a"
proof (cases "file_of ft (chars ''etc/table-loader'')")
  case None
  then have cs: "cs = []" using script by (simp add: script_offered_def)
  have str: "is_string (literal ''etc/table-loader'') (chars ''etc/table-loader'')"
    unfolding chars_def by (rule is_string_literal) simp
  have "fw_cfg_file_id (literal ''etc/table-loader'') s = - 1"
    using None ft fw_cfg_file_id_index [OF str, of s] by (simp add: file_of_def)
  then have "extract_acpi env s = Ret () s" by (simp add: extract_acpi_def prog_simps Let_def fw_cfg_file_size_def)
  with cs ok ft show ?thesis by (intro that [of s]) simp_all
next
  case (Some l)
  then have o: "n = size_of ft l" "script_of (entry_bytes E (file_select (ft ! l)) 0 n) cs" "well_formed ft {} cs"
    using script unfolding script_offered_def Some option.case by blast+
  obtain s' where s': "extract_acpi env s = Ret () s'" "fw_cfg_port.followed env E ft cs {} (\<lambda>_. []) s s'"
    "unat (malloc_top s') \<le> unat (malloc_top s)" "unat (malloc_top s) \<le> unat (malloc_top s') + space ft False cs"
    "unat (fseg_base s) \<le> unat (fseg_base s')" "unat (fseg_base s') \<le> unat (fseg_base s) + space ft True cs"
    "\<forall>a. unat a < unat (malloc_top s') \<longrightarrow> \<not> inside a (dma_desc env) 16 \<longrightarrow> \<not> inside a (loader_script env) n \<longrightarrow> mem s' a = mem s a"
    using extract_acpi_follows [OF dev ok ft Some o(1-3) place room] by blast
  then have f: "blobs_ok env s'" "file_table s' = ft" "{j. loaded s' j} = allocated ft cs"
    "\<forall>j \<in> allocated ft cs. blob s' j = exec ft E (\<lambda>j. file_address s' ! j) cs (\<lambda>_. []) j"
    by (simp_all add: fw_cfg_port.followed_def [OF fw_cfg_port.intro [OF dev]])
  have "load_bytes (mem s') (file_address s' ! j) (size_of ft j) = exec ft E (\<lambda>j. file_address s' ! j) cs (\<lambda>_. []) j \<and>
      between s' (file_address s' ! j) (size_of ft j) \<and>
      (\<forall>k \<in> allocated ft cs. k \<noteq> j \<longrightarrow> apart (file_address s' ! j) (size_of ft j) (file_address s' ! k) (size_of ft k))" if j: "j \<in> allocated ft cs" for j
  proof -
    have len: "file_len s' k = size_of ft k" for k by (simp add: file_len_def size_of_def f(2))
    have loaded: "k \<in> allocated ft cs \<longleftrightarrow> loaded s' k" for k using f(3) by blast
    have "between s' (file_address s' ! j) (file_len s' j)" "\<forall>k. loaded s' k \<longrightarrow> k \<noteq> j \<longrightarrow>
        apart (file_address s' ! j) (file_len s' j) (file_address s' ! k) (file_len s' k)"
      using f(1) j unfolding loaded by (simp_all add: blobs_ok_def)
    then show ?thesis using bspec [OF f(4) j] loaded by (simp add: blob_def len)
  qed
  with s' f keepsD [OF extract_acpi_keeps s'(1)] show ?thesis by (intro that [of s' "\<lambda>j. file_address s' ! j"]) simp_all
qed

text \<open>SMBIOS, with tables on the device or without.\<close>

lemma smbios_step:
  fixes s :: "'d machine"
  assumes dev: "fw_cfg_device env sel off E" and sm: "smbios_offered E (file_table s) sm"
    and place: "unat (dma_desc env) + 16 \<le> unat (files s)" "unat (files s) + 64 * length (file_table s) \<le> unat (fseg_base s)"
    and room: "unat (fseg_base s) + smbios_space sm \<le> 2 ^ 20"
  obtains s' where "extract_smbios env s = Ret () s'" "s' = s\<lparr>mem := mem s', dev := dev s', fseg_base := fseg_base s'\<rparr>"
    "\<forall>a. unat a < unat (fseg_base s) \<longrightarrow> \<not> inside a (dma_desc env) 16 \<longrightarrow> mem s' a = mem s a"
    "\<forall>A T lo m. sm = Some (A, T) \<longrightarrow> lo \<le> unat (fseg_base s) \<longrightarrow> kept lo (2 ^ 20) (mem s') m \<longrightarrow>
       (\<exists>ep. unat (fseg_base s) \<le> unat ep \<and> smbios_in A T m ep)"
proof (cases sm)
  case None
  have str: "is_string (literal ''etc/smbios/smbios-anchor'') (chars ''etc/smbios/smbios-anchor'')"
    unfolding chars_def by (rule is_string_literal) simp
  have "fw_cfg_file_id (literal ''etc/smbios/smbios-anchor'') s = - 1"
    using None sm fw_cfg_file_id_index [OF str, of s] by (simp add: file_of_def smbios_offered_def)
  then have "extract_smbios env s = Ret () s" by (simp add: extract_smbios_def prog_simps Let_def)
  then show ?thesis using None by (intro that [of s]) simp_all
next
  case (Some AT)
  then obtain A T where AT: "sm = Some (A, T)" by (cases AT) simp
  let ?ft = "file_table s"
  define len where "len = (le_word (take 2 (drop 22 A)) :: u16)"
  obtain i j where o: "index_of (file_named (chars ''etc/smbios/smbios-anchor'')) ?ft = Some i"
    "index_of (file_named (chars ''etc/smbios/smbios-tables'')) ?ft = Some j"
    "file_size (?ft ! i) = 31" "file_size (?ft ! j) = ucast len" "A = entry_bytes E (file_select (?ft ! i)) 0 31"
    "T = entry_bytes E (file_select (?ft ! j)) 0 (size_of ?ft j)" "length T + 46 < 2 ^ 16" "22 \<le> unat (A ! 5)"
    using sm unfolding AT smbios_offered_def len_def file_of_def by (auto split: option.splits)
  have len: "size_of ?ft j = unat len" "length T = unat len" using o(4,6) by (simp_all add: size_of_def)
  have r: "unat (fseg_base s) + unat len + 512 \<le> 2 ^ 32" "unat (fseg_base s) + unat len + 340 \<le> 2 ^ 20" "unat len + 46 < 2 ^ 16"
    using room o(7) len by (simp_all add: AT smbios_space_def)
  obtain s' ep q has where s': "extract_smbios env s = Ret () s'" "unat (fseg_base s) \<le> unat ep" "unat ep mod 16 = 0"
    "sum_list (load_bytes (mem s') ep 16) = 0" "sum_list (load_bytes (mem s') (ep + 16) (unat (A ! 5) - 16)) = 0"
    "load_bytes (mem s') (tables_start (mem s') ep) (unat (lduw_p (mem s') (ep + 22))) = (if has then T else type_0_image @ T)"
    "s' = s\<lparr>mem := mem s', dev := dev s', fseg_base := q + ucast len\<rparr>" "unat q + unat len \<le> unat (fseg_base s) + unat len + 110"
    "unat ep + 31 \<le> unat (tables_start (mem s') ep)"
    "unat (tables_start (mem s') ep) + unat (lduw_p (mem s') (ep + 22)) = unat q + unat len"
    "\<forall>a. unat a < unat (fseg_base s) \<longrightarrow> \<not> inside a (dma_desc env) 16 \<longrightarrow> mem s' a = mem s a"
    using extract_smbios_effect [OF dev place o(1-5) len_def o(6) [unfolded len(1)] r(1,3) o(8)]
    by (elim exE conjE) (rule that; assumption)
  have "smbios_in A T (mem s') ep" using s'(3-6) by (simp add: smbios_in_def)
  then have "smbios_in A T m ep" if "lo \<le> unat (fseg_base s)" "kept lo (2 ^ 20) (mem s') m" for lo m
    using that s'(2,8-10) r(2) by (intro smbios_in_kept [OF _ that(2)]) simp_all
  moreover have "s' = s\<lparr>mem := mem s', dev := dev s', fseg_base := fseg_base s'\<rparr>"
  proof -
    have "fseg_base s' = q + ucast len" using arg_cong [OF s'(7), of fseg_base] by simp
    then show ?thesis using s'(7) by (simp only:)
  qed
  ultimately show ?thesis using s'(1,2,11) AT by (intro that [of s']) auto
qed

text \<open>The places in memory that \<open>main\<close> works with: the stack is low, the heap and the F-segment are above the video memory.\<close>

definition stack_low :: "'d env \<Rightarrow> nat \<Rightarrow> bool" where
  "stack_low env n \<longleftrightarrow> 1024 \<le> unat (dma_desc env) \<and> unat (dma_desc env) + 16 \<le> 0x9fc00 \<and>
     1024 \<le> unat (loader_script env) \<and> unat (loader_script env) + n \<le> 0x9fc00 \<and>
     apart (dma_desc env) 16 (loader_script env) n"

definition enough_room :: "'d env \<Rightarrow> 'd machine \<Rightarrow> nat \<Rightarrow> nat \<Rightarrow> bool" where
  "enough_room env s heap fseg \<longleftrightarrow> 0xa0000 + heap \<le> unat (malloc_top s) \<and> unat (malloc_top s) \<le> unat (start_info env) \<and>
     unat (start_info env) + 56 \<le> unat (fseg_base s) \<and> unat (fseg_base s) + fseg \<le> 2 ^ 20"

lemma stack_outside:
  assumes "stack_low env n" "unat a < 1024 \<or> 0x9fc00 \<le> unat a"
  shows "\<not> inside a (dma_desc env) 16" "\<not> inside a (loader_script env) n"
  using assms by (auto simp: stack_low_def inside_interval)

text \<open>Up to the ACPI tables.\<close>

lemma directory_step:
  fixes s :: "'d machine"
  assumes dev: "fw_cfg_device env sel off E" and idt: "handlers_low env" and dir: "advertises E dir"
    and fresh: "file_address s = replicate 20 0" and stack: "stack_low env n"
    and room: "enough_room env s heap (16 + 64 * length dir + extra)"
  obtains s1 s2 where "setup_idt env s = Ret () s1" "fw_cfg_setup env s1 = Ret () s2" "\<forall>v < 256. ivt (mem s1) v = handler_of env v"
    "kept 0 1024 (mem s1) (mem s2)" "blobs_ok env s2" "file_address s2 = replicate 20 0" "file_table s2 = dir"
    "have_mmconfig s2 = have_mmconfig s" "malloc_top s2 = malloc_top s"
    "unat (fseg_base s) \<le> unat (fseg_base s2)" "unat (fseg_base s2) + extra \<le> 2 ^ 20"
proof -
  let ?n = "64 * length dir"
  have lim: "unat (dma_desc env) + 16 \<le> 0x9fc00" "0xa0000 \<le> unat (malloc_top s)" "unat (malloc_top s) \<le> unat (start_info env)"
    "unat (start_info env) + 56 \<le> unat (fseg_base s)" "unat (fseg_base s) + 16 + ?n + extra \<le> 2 ^ 20"
    using stack room by (simp_all add: stack_low_def enough_room_def)
  obtain m where m: "setup_idt env s = Ret () (s\<lparr>mem := m\<rparr>)" "\<forall>v < 256. ivt m v = handler_of env v"
    using setup_idt_table [OF idt] by blast
  let ?s1 = "s\<lparr>mem := m\<rparr>"
  have room1: "room_for env ?s1 ?n" using lim by (simp add: room_for_def)
  obtain s2 where s2: "fw_cfg_setup env ?s1 = Ret () s2" "file_table s2 = dir"
    "s2 = ?s1\<lparr>mem := mem s2, dev := dev s2, version := le_word (entry_bytes E FW_CFG_ID 0 4),
      filecnt := of_nat (length dir), files := fseg_next ?s1, fseg_base := fseg_next ?s1 + 64 * of_nat (length dir)\<rparr>"
    "\<forall>a. \<not> inside a (dma_desc env) 16 \<and> \<not> inside a (fseg_next ?s1) ?n \<longrightarrow> mem s2 a = mem ?s1 a"
    using fw_cfg_port.fw_cfg_setup_directory [OF fw_cfg_port.intro [OF dev] dir room1] by blast
  define p where "p = fseg_next ?s1"
  have f: "files s2 = p" "fseg_base s2 = p + 64 * of_nat (length dir)" "malloc_top s2 = malloc_top s"
    "file_address s2 = file_address s" "have_mmconfig s2 = have_mmconfig s"
    using arg_cong [OF s2(3), of files] arg_cong [OF s2(3), of fseg_base] arg_cong [OF s2(3), of malloc_top]
      arg_cong [OF s2(3), of file_address] arg_cong [OF s2(3), of have_mmconfig] by (simp_all add: p_def)
  have p: "unat (fseg_base s) \<le> unat p" "unat p < unat (fseg_base s) + 16"
    using fseg_next_bounds [OF room1] by (simp_all add: p_def)
  have dir32: "unat (64 * of_nat (length dir) :: u32) = ?n" using lim by (simp add: unat_word_ariths unat_of_nat)
  have base: "unat (fseg_base s2) = unat p + ?n"
    unfolding f(2) using dir32 p lim by (subst unat_add_less) simp_all
  have "mem s2 a = m a" if "unat a < 1024" for a
  proof -
    have "\<not> inside a p ?n" using that p lim by (subst inside_interval) simp_all
    then show ?thesis using s2(4) stack_outside [OF stack] that by (simp add: p_def)
  qed
  then have "kept 0 1024 (mem ?s1) (mem s2)" by (simp add: kept_def)
  moreover have "blobs_ok env s2"
  proof -
    have "\<not> loaded s2 i" for i using fresh by (simp add: loaded_def f(4))
    moreover have "apart (start_info env) 56 p ?n" using p lim by (intro apart_interval) simp_all
    ultimately show ?thesis using fresh lim p base by (simp add: blobs_ok_def between_def f(1,3,4) s2(2))
  qed
  ultimately show ?thesis using that [OF m(1) s2(1)] m(2) fresh f s2(2) base p lim by simp
qed

text \<open>The map of the device: its entries are \<open>es\<close>, and the first that starts at 0 is number \<open>j\<close>.\<close>

definition e820_offered :: "(u16 \<Rightarrow> nat \<Rightarrow> u8) \<Rightarrow> fw_cfg_file list \<Rightarrow> e820entry list \<Rightarrow> nat \<Rightarrow> bool" where
  "e820_offered E ft es j \<longleftrightarrow> (case file_of ft (chars ''etc/e820'') of
     None \<Rightarrow> False
   | Some i \<Rightarrow> file_size (ft ! i) = of_nat (20 * length es) \<and>
       entry_bytes E (file_select (ft ! i)) 0 (20 * length es) = concat (map enc_entry es) \<and> index_of starts_at_0 es = Some j)"

lemma e820_step:
  fixes s :: "'d machine"
  assumes dev: "fw_cfg_device env sel off E" and ok: "blobs_ok env s" and es: "e820_offered E (file_table s) es j"
    and stack: "stack_low env n"
    and room: "0xa0000 + e820_block (length es) + 16 \<le> unat (malloc_top s)" "unat (malloc_top s) \<le> 2 ^ 20"
  obtains s' junk where "extract_e820 env s = Ret () s'" "lowmem s' = ucast (entry_size (es ! j))"
    "e820_map s' = fixed_entries (have_mmconfig s) @ relocate (if have_mmconfig s then es else es @ [junk])" "e820_reachable s'"
    "0xa0000 \<le> unat (e820 s')" "unat (e820 s') + (4 + 20 * unat (e820_nr_map s')) \<le> unat (malloc_top s)"
    "kept 0 1024 (mem s) (mem s')" "kept (unat (malloc_top s)) (2 ^ 20) (mem s) (mem s')"
    "files s' = files s" "filecnt s' = filecnt s" "fseg_base s' = fseg_base s"
proof -
  have str: "is_string (literal ''etc/e820'') (chars ''etc/e820'')" unfolding chars_def by (rule is_string_literal) simp
  obtain i where o: "file_of (file_table s) (chars ''etc/e820'') = Some i" "file_size (file_table s ! i) = of_nat (20 * length es)"
    "entry_bytes E (file_select (file_table s ! i)) 0 (20 * length es) = concat (map enc_entry es)" "index_of starts_at_0 es = Some j"
    using es by (auto simp: e820_offered_def split: option.splits)
  note found = file_id_of [OF str o(1)]
  have between: "unat (malloc_top s) \<le> unat (files s)" "unat (files s) + 64 * length (file_table s) \<le> unat (fseg_base s)"
    using ok by (simp_all add: blobs_ok_def between_def)
  have "e820_room env s (length es)"
    using between room stack unat_bound [of "fseg_base s"] by (simp add: e820_room_def e820_block_def stack_low_def)
  then obtain s' xs where s': "extract_e820 env s = Ret () s'"
    "xs = (if have_mmconfig s then es else es @ [dec_entry (load_bytes (mem s) (e820 s' + 4 + 20 * of_nat (length es + 4)) 20)])"
    "e820_map s' = fixed_entries (have_mmconfig s) @ relocate xs"
    "lowmem s' = (case index_of starts_at_0 xs of None \<Rightarrow> lowmem s | Some j \<Rightarrow> ucast (entry_size (xs ! j)))"
    "e820 s' = malloc_top s'" "unat (malloc_top s') + e820_block (length es) \<le> unat (malloc_top s)" "e820_reachable s'"
    "\<forall>a. \<not> inside a (dma_desc env) 16 \<and> \<not> inside a (e820 s') (e820_block (length es)) \<longrightarrow> mem s' a = mem s a"
    "unat (malloc_top s) < unat (malloc_top s') + e820_block (length es) + 16"
    "s' = s\<lparr>mem := mem s', dev := dev s', malloc_top := malloc_top s', lowmem := lowmem s', e820 := e820 s', e820_seg := e820_seg s'\<rparr>"
    using extract_e820_effect [OF dev found o(2,3)] by blast
  have j: "j < length es" using index_of_less [OF o(4)] .
  have idx: "index_of starts_at_0 (es @ ys) = Some j" for ys using o(4)
    by (induction es arbitrary: j) (auto split: if_splits)
  have low: "lowmem s' = ucast (entry_size (es ! j))"
    using s'(2,4) o(4) idx j by (auto simp: nth_append split: if_splits)
  have nr: "unat (e820_nr_map s') = length es + 5"
  proof -
    have "unat (e820_nr_map s') = length (e820_map s')" by (simp add: e820_map_def)
    also have "\<dots> = length es + 5" using s'(2,3) by (auto simp: length_fixed_entries relocate_def split: option.splits)
    finally show ?thesis .
  qed
  have keep: "mem s' a = mem s a" if "unat a < 1024 \<or> unat (malloc_top s) \<le> unat a" for a
  proof -
    have "\<not> inside a (e820 s') (e820_block (length es))"
      using that s'(5,6,9) room unat_bound [of "malloc_top s"] by (subst inside_interval) auto
    then show ?thesis using s'(8) stack_outside(1) [OF stack, of a] that room by auto
  qed
  then have "kept 0 1024 (mem s) (mem s')" "kept (unat (malloc_top s)) (2 ^ 20) (mem s) (mem s')" by (simp_all add: kept_def)
  moreover have "files s' = files s" "filecnt s' = filecnt s" "fseg_base s' = fseg_base s"
    using arg_cong [OF s'(10), of files] arg_cong [OF s'(10), of filecnt] arg_cong [OF s'(10), of fseg_base] by simp_all
  ultimately show ?thesis
    using s'(2,3) s'(5-7,9) room nr
    by (intro that [OF s'(1) low, of "dec_entry (load_bytes (mem s) (e820 s' + 4 + 20 * of_nat (length es + 4)) 20)"])
       (simp_all add: e820_block_def)
qed

text \<open>The MP tables, and what stays of the memory below and above them.\<close>

definition mp_tables :: "'d env \<Rightarrow> (u16 \<Rightarrow> nat \<Rightarrow> u8) \<Rightarrow> u8 list" where
  "mp_tables env E = mp_image (io_cpuid env) (le_word (entry_bytes E FW_CFG_NB_CPUS 0 4))
     ((le_word (entry_bytes E FW_CFG_IRQ0_OVERRIDE 0 4) :: u32) \<noteq> 0)"

lemma mptable_step:
  fixes s :: "'d machine"
  assumes dev: "fw_cfg_device env sel off E" and few: "nat (sint (le_word (entry_bytes E FW_CFG_NB_CPUS 0 4) :: u32)) \<le> 40"
  obtains s' where "setup_mptable env s = Ret () s'" "only_mem s s'"
    "load_bytes (mem s') MPTABLE_START (length (mp_tables env E)) = mp_tables env E" "length (mp_tables env E) \<le> 0x400"
    "kept 0 0x9fc00 (mem s) (mem s')" "kept 0xa0000 (2 ^ 20) (mem s) (mem s')"
proof -
  let ?img = "mp_tables env E"
  have len: "length ?img \<le> 0x400" using few by (auto simp: mp_tables_def length_mp_image)
  obtain d where d: "setup_mptable env s = Ret () (s\<lparr>mem := store_bytes (mem s) MPTABLE_START ?img, dev := d\<rparr>)"
    using fw_cfg_port.setup_mptable_writes [OF fw_cfg_port.intro [OF dev] refl refl, of s] few by (auto simp: mp_tables_def)
  have "store_bytes (mem s) MPTABLE_START ?img a = mem s a" if "unat a < 0x9fc00 \<or> 0xa0000 \<le> unat a" for a
  proof -
    have "\<not> inside a (0x9fc00 :: addr) 0x400" using that by (subst inside_interval) auto
    then show ?thesis using len by (simp add: store_bytes_outside [where n = "0x400"])
  qed
  then show ?thesis using d len by (intro that [OF d]) (simp_all add: only_mem_step kept_def load_store_same)
qed

text \<open>What the firmware has built, as the memory \<open>mem t\<close> shows it.\<close>

definition firmware_tables :: "'d env \<Rightarrow> (u16 \<Rightarrow> nat \<Rightarrow> u8) \<Rightarrow> fw_cfg_file list \<Rightarrow> e820entry list \<Rightarrow> loader_cmd list \<Rightarrow>
    (u8 list \<times> u8 list) option \<Rightarrow> bool \<Rightarrow> 'd machine \<Rightarrow> bool" where
  "firmware_tables env E ft es cs sm mmconfig t \<longleftrightarrow>
     (\<forall>v < 256. ivt (mem t) v = handler_of env v) \<and>
     (\<exists>junk. e820_map t = fixed_entries mmconfig @ relocate (if mmconfig then es else es @ [junk])) \<and> e820_reachable t \<and>
     load_bytes (mem t) MPTABLE_START (length (mp_tables env E)) = mp_tables env E \<and>
     (\<exists>at. \<forall>j \<in> allocated ft cs. load_bytes (mem t) (at j) (size_of ft j) = exec ft E at cs (\<lambda>_. []) j \<and>
        0xa0000 \<le> unat (at j) \<and> unat (at j) + size_of ft j \<le> 2 ^ 20 \<and>
        (\<forall>k \<in> allocated ft cs. k \<noteq> j \<longrightarrow> apart (at j) (size_of ft j) (at k) (size_of ft k))) \<and>
     (case sm of None \<Rightarrow> True | Some (A, T) \<Rightarrow> \<exists>ep. smbios_in A T (mem t) ep)"

lemma only_mem_fields:
  assumes "only_mem s t"
  shows "files t = files s" "filecnt t = filecnt s" "fseg_base t = fseg_base s" "malloc_top t = malloc_top s"
    "e820 t = e820 s" "e820_seg t = e820_seg s" "lowmem t = lowmem s"
proof -
  have "f t = f (s\<lparr>mem := mem t, dev := dev t\<rparr>)" for f :: "'a machine \<Rightarrow> 'c" using assms unfolding only_mem_def by (rule arg_cong)
  note this [of files] this [of filecnt] this [of fseg_base] this [of malloc_top] this [of e820] this [of e820_seg] this [of lowmem]
  then show "files t = files s" "filecnt t = filecnt s" "fseg_base t = fseg_base s" "malloc_top t = malloc_top s"
    "e820 t = e820 s" "e820_seg t = e820_seg s" "lowmem t = lowmem s" by simp_all
qed

lemma kept_map:
  assumes "kept lo hi (mem s) (mem t)" "e820 t = e820 s" "e820_seg t = e820_seg s" "e820_reachable s"
    and "lo \<le> unat (e820 s)" "unat (e820 s) + (4 + 20 * unat (e820_nr_map s)) \<le> hi" "hi \<le> 2 ^ 32"
  shows "e820_map t = e820_map s" "e820_reachable t"
proof -
  have "mem t a = mem s a" if "inside a (e820 s) (4 + 20 * unat (e820_nr_map s))" for a
    using that assms(1,5-7) by (subst (asm) inside_interval) (auto simp: kept_def)
  moreover have "4 + 20 * unat (e820_nr_map s) < 2 ^ 32" using assms(4) by (simp add: e820_reachable_def)
  ultimately show "e820_map t = e820_map s" "e820_reachable t"
    using e820_map_cong(2,3) [of t s] assms(2-4) by simp_all
qed

lemma kept_files:
  assumes "kept lo hi (mem s) (mem s')" "files s' = files s" "filecnt s' = filecnt s" "hi \<le> 2 ^ 32"
    and "lo \<le> unat (files s)" "unat (files s) + 64 * length (file_table s) \<le> hi"
  shows "file_table s' = file_table s"
proof (rule table_unchanged)
  fix a assume "inside a (files s) (64 * length (file_table s))"
  then show "mem s' a = mem s a" using assms by (subst (asm) inside_interval) (auto simp: kept_def)
qed (use assms in simp_all)

lemma kept_ivt:
  assumes "kept 0 1024 m m'" "v < 256"
  shows "ivt m' v = ivt m v"
proof -
  have "unat (of_nat (4 * v) :: addr) = 4 * v" "unat (of_nat (4 * v) + 2 :: addr) = 4 * v + 2"
    using assms(2) by (simp_all add: unat_word_ariths unat_of_nat)
  then have "load_bytes m' (of_nat (4 * v)) 2 = load_bytes m (of_nat (4 * v)) 2"
    "load_bytes m' (of_nat (4 * v) + 2) 2 = load_bytes m (of_nat (4 * v) + 2) 2"
    using assms(2) by (auto intro!: kept_load [OF assms(1)] simp del: of_nat_mult)
  then show ?thesis by (simp add: ivt_def lduw_p_def)
qed

text \<open>The parts of a state that the tables are found in are still there: the vectors, and the memory from the MP tables to \<open>hi\<close>.\<close>

definition tables_kept :: "nat \<Rightarrow> 'd machine \<Rightarrow> 'd machine \<Rightarrow> bool" where
  "tables_kept hi s t \<longleftrightarrow> kept 0 1024 (mem s) (mem t) \<and> kept 0x9fc00 hi (mem s) (mem t) \<and> e820 t = e820 s \<and> e820_seg t = e820_seg s"

lemma tables_kept_trans: "tables_kept hi s t \<Longrightarrow> tables_kept hi t u \<Longrightarrow> tables_kept hi s u"
  unfolding tables_kept_def by (auto intro: kept_trans)

lemma tables_kept_mono: "tables_kept hi s t \<Longrightarrow> hi' \<le> hi \<Longrightarrow> tables_kept hi' s t"
  unfolding tables_kept_def by (auto intro: kept_mono)

lemma firmware_before_smbios:
  fixes s :: "'d machine"
  assumes dev: "fw_cfg_device env sel off E" and idt: "handlers_low env" and dir: "advertises E dir"
    and fresh: "file_address s = replicate 20 0" and stack: "stack_low env n" and script: "script_offered E dir cs n"
    and es: "e820_offered E dir es j" and few: "nat (sint (le_word (entry_bytes E FW_CFG_NB_CPUS 0 4) :: u32)) \<le> 40"
    and room: "enough_room env s (space dir False cs + e820_block (length es) + 16) (16 + 64 * length dir + (space dir True cs + extra))"
  obtains s' where "\<forall>k :: ('d, unit) fw. andthen (setup_idt env) (andthen (fw_cfg_setup env) (andthen (extract_acpi env)
      (andthen (extract_e820 env) (andthen (setup_mptable env) k)))) s = k s'"
    "lowmem s' = ucast (entry_size (es ! j))" "file_table s' = dir"
    "0xa0000 \<le> unat (files s')" "unat (files s') + 64 * length dir \<le> unat (fseg_base s')" "unat (fseg_base s') + extra \<le> 2 ^ 20"
    "\<forall>t. tables_kept (unat (fseg_base s')) s' t \<longrightarrow> firmware_tables env E dir es cs None (have_mmconfig s) t"
proof -
  have lim: "0xa0000 + space dir False cs + (e820_block (length es) + 16) \<le> unat (malloc_top s)" "unat (malloc_top s) + 56 \<le> unat (fseg_base s)"
    "unat (fseg_base s) \<le> 2 ^ 20" using room by (simp_all add: enough_room_def)
  obtain s1 s2 where r2: "setup_idt env s = Ret () s1" "fw_cfg_setup env s1 = Ret () s2" "\<forall>v < 256. ivt (mem s1) v = handler_of env v"
    "kept 0 1024 (mem s1) (mem s2)" "blobs_ok env s2" "file_address s2 = replicate 20 0" "file_table s2 = dir"
    "have_mmconfig s2 = have_mmconfig s" "malloc_top s2 = malloc_top s"
    "unat (fseg_base s) \<le> unat (fseg_base s2)" "unat (fseg_base s2) + (space dir True cs + extra) \<le> 2 ^ 20"
    by (rule directory_step [OF dev idt dir fresh stack room])
  have places: "unat (loader_script env) + n \<le> 0xa0000" "unat (dma_desc env) + 16 \<le> 0xa0000" "apart (dma_desc env) 16 (loader_script env) n"
    "0xa0000 + space dir False cs \<le> unat (malloc_top s2)" "unat (fseg_base s2) + space dir True cs \<le> 2 ^ 32"
    using stack r2(9,11) lim by (simp_all add: stack_low_def)
  obtain s3 at where r3: "extract_acpi env s2 = Ret () s3" "blobs_ok env s3" "file_table s3 = dir" "have_mmconfig s3 = have_mmconfig s2"
    "\<forall>j \<in> allocated dir cs. load_bytes (mem s3) (at j) (size_of dir j) = exec dir E at cs (\<lambda>_. []) j \<and> between s3 (at j) (size_of dir j) \<and>
       (\<forall>k \<in> allocated dir cs. k \<noteq> j \<longrightarrow> apart (at j) (size_of dir j) (at k) (size_of dir k))"
    "unat (malloc_top s3) \<le> unat (malloc_top s2)" "unat (malloc_top s2) \<le> unat (malloc_top s3) + space dir False cs"
    "unat (fseg_base s2) \<le> unat (fseg_base s3)" "unat (fseg_base s3) \<le> unat (fseg_base s2) + space dir True cs"
    "\<forall>a. unat a < unat (malloc_top s3) \<longrightarrow> \<not> inside a (dma_desc env) 16 \<longrightarrow> \<not> inside a (loader_script env) n \<longrightarrow> mem s3 a = mem s2 a"
    by (rule acpi_step [OF dev r2(5,6) r2(7) [symmetric] script places])
  have top: "0xa0000 + e820_block (length es) + 16 \<le> unat (malloc_top s3)" "unat (malloc_top s3) \<le> 2 ^ 20"
    using lim r2(9) r3(6,7) by simp_all
  have "mem s3 a = mem s2 a" if "unat a < 1024" for a using spec [OF r3(10), of a] stack_outside [OF stack, of a] that top by simp
  then have low3: "kept 0 1024 (mem s2) (mem s3)" by (simp add: kept_def)
  have "e820_offered E (file_table s3) es j" using es r3(3) by simp
  then obtain s4 junk where r4: "extract_e820 env s3 = Ret () s4" "lowmem s4 = ucast (entry_size (es ! j))"
    "e820_map s4 = fixed_entries (have_mmconfig s3) @ relocate (if have_mmconfig s3 then es else es @ [junk])" "e820_reachable s4"
    "0xa0000 \<le> unat (e820 s4)" "unat (e820 s4) + (4 + 20 * unat (e820_nr_map s4)) \<le> unat (malloc_top s3)"
    "kept 0 1024 (mem s3) (mem s4)" "kept (unat (malloc_top s3)) (2 ^ 20) (mem s3) (mem s4)"
    "files s4 = files s3" "filecnt s4 = filecnt s3" "fseg_base s4 = fseg_base s3"
    using e820_step [OF dev r3(2) _ stack top] by blast
  obtain s5 where r5: "setup_mptable env s4 = Ret () s5" "only_mem s4 s5"
    "load_bytes (mem s5) MPTABLE_START (length (mp_tables env E)) = mp_tables env E" "length (mp_tables env E) \<le> 0x400"
    "kept 0 0x9fc00 (mem s4) (mem s5)" "kept 0xa0000 (2 ^ 20) (mem s4) (mem s5)"
    by (rule mptable_step [OF dev few])
  have run: "andthen (setup_idt env) (andthen (fw_cfg_setup env) (andthen (extract_acpi env)
      (andthen (extract_e820 env) (andthen (setup_mptable env) k)))) s = k s5" for k :: "('d, unit) fw"
    using r2(1,2) r3(1) r4(1) r5(1) by (simp add: andthen_apply)
  have between: "unat (malloc_top s3) \<le> unat (files s3)" "unat (files s3) + 64 * length dir \<le> unat (fseg_base s3)"
    using r3(2,3) by (simp_all add: blobs_ok_def between_def)
  have base: "fseg_base s5 = fseg_base s3" "files s5 = files s3" "filecnt s5 = filecnt s3" "e820 s5 = e820 s4" "e820_seg s5 = e820_seg s4"
      "lowmem s5 = lowmem s4"
    using only_mem_fields [OF r5(2)] r4(9-11) by simp_all
  have high: "kept (unat (malloc_top s3)) (2 ^ 20) (mem s3) (mem s5)"
    by (rule kept_trans [OF r4(8) kept_mono [OF r5(6)]]) (use top in simp_all)
  have fseg: "unat (fseg_base s3) + extra \<le> 2 ^ 20" "0xa0000 \<le> unat (fseg_base s3)" using r2(10,11) r3(8,9) lim by simp_all
  have ft: "file_table s5 = dir"
    using kept_files [OF high base(2,3)] between r3(3) fseg by simp
  have "firmware_tables env E dir es cs None (have_mmconfig s) t" if "tables_kept (unat (fseg_base s5)) s5 t" for t
  proof -
    have m: "kept 0 1024 (mem s5) (mem t)" "kept 0x9fc00 (unat (fseg_base s5)) (mem s5) (mem t)" "e820 t = e820 s5" "e820_seg t = e820_seg s5"
      using that by (simp_all add: tables_kept_def)
    have "kept 0 1024 (mem s1) (mem t)"
      by (rule kept_trans [OF kept_trans [OF kept_trans [OF kept_trans [OF r2(4) low3] r4(7)] kept_mono [OF r5(5)]] m(1)]) simp_all
    then have "\<forall>v < 256. ivt (mem t) v = handler_of env v" using r2(3) kept_ivt by simp
    moreover have "e820_map t = e820_map s4" "e820_reachable t"
    proof -
      have "kept 0xa0000 (unat (fseg_base s5)) (mem s4) (mem t)"
        by (rule kept_trans [OF kept_mono [OF r5(6)] kept_mono [OF m(2)]]) (use fseg base(1) in simp_all)
      then show "e820_map t = e820_map s4" "e820_reachable t"
        using kept_map [of "0xa0000" "unat (fseg_base s5)" s4 t] m(3,4) base r4(4-6) between fseg by simp_all
    qed
    moreover have "load_bytes (mem t) MPTABLE_START (length (mp_tables env E)) = mp_tables env E"
      using kept_load [OF m(2), of MPTABLE_START "length (mp_tables env E)"] r5(3,4) fseg base(1) by simp
    moreover have "load_bytes (mem t) (at k) (size_of dir k) = load_bytes (mem s3) (at k) (size_of dir k)"
        "0xa0000 \<le> unat (at k)" "unat (at k) + size_of dir k \<le> 2 ^ 20" if "k \<in> allocated dir cs" for k
    proof -
      have "kept (unat (malloc_top s3)) (unat (fseg_base s5)) (mem s3) (mem t)"
        by (rule kept_trans [OF kept_mono [OF high] kept_mono [OF m(2)]]) (use top fseg base(1) in simp_all)
      then show "load_bytes (mem t) (at k) (size_of dir k) = load_bytes (mem s3) (at k) (size_of dir k)"
        "0xa0000 \<le> unat (at k)" "unat (at k) + size_of dir k \<le> 2 ^ 20"
        using bspec [OF r3(5) that] top fseg base(1) by (simp_all add: between_def kept_load)
    qed
    ultimately show ?thesis
      unfolding firmware_tables_def using r4(3,4) r3(4,5) r2(8)
      by (intro conjI exI [of _ junk] exI [of _ at]) simp_all
  qed
  with run ft base between fseg r4(2) top show ?thesis by (intro that [of s5]) simp_all
qed

text \<open>With SMBIOS, up to the boot.\<close>

lemma firmware_built:
  fixes s :: "'d machine"
  assumes dev: "fw_cfg_device env sel off E" and idt: "handlers_low env" and dir: "advertises E dir"
    and fresh: "file_address s = replicate 20 0" and stack: "stack_low env n" and script: "script_offered E dir cs n"
    and es: "e820_offered E dir es j" and few: "nat (sint (le_word (entry_bytes E FW_CFG_NB_CPUS 0 4) :: u32)) \<le> 40"
    and sm: "smbios_offered E dir sm"
    and room: "enough_room env s (space dir False cs + e820_block (length es) + 16)
      (16 + 64 * length dir + (space dir True cs + smbios_space sm))"
  obtains s' where "\<forall>k :: ('d, unit) fw. andthen (setup_idt env) (andthen (fw_cfg_setup env) (andthen (extract_acpi env)
      (andthen (extract_e820 env) (andthen (setup_mptable env) (andthen (extract_smbios env) k))))) s = k s'"
    "lowmem s' = ucast (entry_size (es ! j))"
    "\<forall>t. tables_kept (2 ^ 20) s' t \<longrightarrow> firmware_tables env E dir es cs sm (have_mmconfig s) t"
proof -
  obtain s5 where r5: "\<forall>k :: ('d, unit) fw. andthen (setup_idt env) (andthen (fw_cfg_setup env) (andthen (extract_acpi env)
      (andthen (extract_e820 env) (andthen (setup_mptable env) k)))) s = k s5"
    "lowmem s5 = ucast (entry_size (es ! j))" "file_table s5 = dir"
    "0xa0000 \<le> unat (files s5)" "unat (files s5) + 64 * length dir \<le> unat (fseg_base s5)" "unat (fseg_base s5) + smbios_space sm \<le> 2 ^ 20"
    "\<forall>t. tables_kept (unat (fseg_base s5)) s5 t \<longrightarrow> firmware_tables env E dir es cs None (have_mmconfig s) t"
    by (rule firmware_before_smbios [OF dev idt dir fresh stack script es few room])
  have places: "smbios_offered E (file_table s5) sm" "unat (dma_desc env) + 16 \<le> unat (files s5)"
      "unat (files s5) + 64 * length (file_table s5) \<le> unat (fseg_base s5)"
    using sm r5(3-5) stack by (simp_all add: stack_low_def)
  obtain s6 where r6: "extract_smbios env s5 = Ret () s6" "s6 = s5\<lparr>mem := mem s6, dev := dev s6, fseg_base := fseg_base s6\<rparr>"
    "\<forall>a. unat a < unat (fseg_base s5) \<longrightarrow> \<not> inside a (dma_desc env) 16 \<longrightarrow> mem s6 a = mem s5 a"
    "\<forall>A T lo m. sm = Some (A, T) \<longrightarrow> lo \<le> unat (fseg_base s5) \<longrightarrow> kept lo (2 ^ 20) (mem s6) m \<longrightarrow>
       (\<exists>ep. unat (fseg_base s5) \<le> unat ep \<and> smbios_in A T m ep)"
    by (rule smbios_step [OF dev places r5(6)])
  have same: "lowmem s6 = lowmem s5" "e820 s6 = e820 s5" "e820_seg s6 = e820_seg s5"
    using arg_cong [OF r6(2), of lowmem] arg_cong [OF r6(2), of e820] arg_cong [OF r6(2), of e820_seg] by simp_all
  have "mem s6 a = mem s5 a" if "unat a < 1024 \<or> 0x9fc00 \<le> unat a \<and> unat a < unat (fseg_base s5)" for a
    using spec [OF r6(3), of a] stack_outside(1) [OF stack, of a] that r5(4,5) by auto
  then have low: "tables_kept (unat (fseg_base s5)) s5 s6" by (simp add: tables_kept_def kept_def same)
  have base: "unat (fseg_base s5) \<le> 2 ^ 20" "0x9fc00 \<le> unat (fseg_base s5)" using r5(4-6) by simp_all
  have "firmware_tables env E dir es cs sm (have_mmconfig s) t" if m: "tables_kept (2 ^ 20) s6 t" for t
  proof -
    have "firmware_tables env E dir es cs None (have_mmconfig s) t"
      using r5(7) tables_kept_trans [OF low tables_kept_mono [OF m base(1)]] by blast
    moreover have "\<exists>ep. smbios_in A T (mem t) ep" if "sm = Some (A, T)" for A T
      using r6(4) that base(2) m by (auto simp: tables_kept_def)
    ultimately show ?thesis by (simp add: firmware_tables_def split: option.split)
  qed
  with r5(1,2) r6(1) same show ?thesis by (intro that [of s6]) (simp_all add: andthen_apply)
qed

section \<open>From the hardware to the kernel\<close>

text \<open>What a region of memory must leave alone: the vectors, and all from the MP tables to the end of the first megabyte.\<close>

definition off_tables :: "addr \<times> nat \<Rightarrow> bool" where
  "off_tables r \<longleftrightarrow> apart (fst r) (snd r) 0 1024 \<and> apart (fst r) (snd r) 0x9fc00 0x60400"

lemma apart_inside: "apart p n q m \<Longrightarrow> inside a q m \<Longrightarrow> \<not> inside a p n"
  using apart_not_inside [of p n q m "unat (a - q)"] by (simp add: inside_def)

lemma changes_keep_tables:
  assumes "only_mem s t" "changes (mem s) (mem t) (rs @ [(dma_desc env, 16)])" "\<forall>r \<in> set rs. off_tables r" "stack_low env n"
  shows "tables_kept (2 ^ 20) s t"
proof -
  have "mem t a = mem s a" if "unat a < 1024 \<or> 0x9fc00 \<le> unat a \<and> unat a < 2 ^ 20" for a
  proof -
    have "inside a 0 1024 \<or> inside a 0x9fc00 0x60400" using that by (subst (1 2) inside_interval) simp_all
    then have "\<not> inside a (fst r) (snd r)" if "r \<in> set rs" for r
      using bspec [OF assms(3) that] apart_inside unfolding off_tables_def by blast
    then show ?thesis using assms(2) stack_outside(1) [OF assms(4), of a] that by (auto simp: changes_def)
  qed
  then show ?thesis using only_mem_fields(5,6) [OF assms(1)] by (simp add: tables_kept_def kept_def)
qed

text \<open>
  C1: A machine comes up. When the hardware is prepared, the device offers a directory with a memory map, possibly a script for
  the linker/loader and SMBIOS tables, and a bzImage, and the places for all of them are free, then \<open>main\<close> starts that kernel in
  real mode, with the kernel, its command line and its initrd in memory as they were offered. What the firmware has built on the
  way is all there for the kernel to find: the vectors, the E820 map with the fixed entries and the device's own, behind int 15h,
  the MP tables for the machine's CPUs, the blobs of the linker/loader as its script says, and SMBIOS with good checksums.
\<close>

theorem main_boots_linux:
  fixes E :: "u16 \<Rightarrow> nat \<Rightarrow> u8" and s0 :: "'d machine"
  defines "h \<equiv> entry_word E FW_CFG_SETUP_ADDR" and "ks \<equiv> unat (entry_word E FW_CFG_KERNEL_SIZE)"
    and "cl \<equiv> unat (entry_word E FW_CFG_CMDLINE_SIZE)" and "il \<equiv> unat (entry_word E FW_CFG_INITRD_SIZE)"
  assumes ready: "prepare_hardware b env s = Ret () s0" "file_address s0 = replicate 20 0"
    and dev: "fw_cfg_device env sel off E" "handlers_low env" "advertises E dir"
    and offered: "script_offered E dir cs n" "e820_offered E dir es j" "smbios_offered E dir sm"
      "nat (sint (le_word (entry_bytes E FW_CFG_NB_CPUS 0 4) :: u32)) \<le> 40"
      "entry_word E FW_CFG_KERNEL_SIZE + entry_word E FW_CFG_SETUP_SIZE \<noteq> 0" "bzimage (setup_image E) h"
    and args: "args = placed (ucast (entry_size (es ! j))) (offered_args E) (setup_image E)" "k = max 8192 (unat (setup_size args))"
    and places: "stack_low env n" "enough_room env s0 (space dir False cs + e820_block (length es) + 16)
        (16 + 64 * length dir + (space dir True cs + smbios_space sm))"
      "separate [(h, k), (kernel_addr args, ks), (cmdline_addr args, cl), (initrd_addr args, il), (dma_desc env, 16)]"
      "\<forall>r \<in> set [(h, k), (kernel_addr args, ks), (cmdline_addr args, cl), (initrd_addr args, il)]. off_tables r"
  shows "\<exists>t. main b env s = Handoff (Jump16 (ucast (drop_bit 4 h)) (cmdline_addr args - h - 16)) t \<and>
    firmware_tables env E dir es cs sm (have_mmconfig s0) t \<and>
    load_bytes (mem t) (kernel_addr args) ks = entry_bytes E FW_CFG_KERNEL_DATA 0 ks \<and>
    load_bytes (mem t) (cmdline_addr args) cl = entry_bytes E FW_CFG_CMDLINE_DATA 0 cl \<and>
    load_bytes (mem t) (initrd_addr args) il = entry_bytes E FW_CFG_INITRD_DATA 0 il \<and>
    ldl_p (mem t) (h + 0x218) = initrd_addr args \<and> unat (ldl_p (mem t) (h + 0x21c)) = il"
proof -
  obtain s6 where s6: "\<forall>k :: ('d, unit) fw. andthen (setup_idt env) (andthen (fw_cfg_setup env) (andthen (extract_acpi env)
      (andthen (extract_e820 env) (andthen (setup_mptable env) (andthen (extract_smbios env) k))))) s0 = k s6"
    "lowmem s6 = ucast (entry_size (es ! j))"
    "\<forall>t. tables_kept (2 ^ 20) s6 t \<longrightarrow> firmware_tables env E dir es cs sm (have_mmconfig s0) t"
    by (rule firmware_built [OF dev ready(2) places(1) offered(1,2,4,3) places(2)])
  have "args = placed (lowmem s6) (offered_args E) (setup_image E)" using args(1) s6(2) by simp
  then obtain t where t: "boot_from_fwcfg env s6 = Handoff (Jump16 (ucast (drop_bit 4 h)) (cmdline_addr args - h - 16)) t"
    "load_bytes (mem t) (kernel_addr args) ks = entry_bytes E FW_CFG_KERNEL_DATA 0 ks"
    "load_bytes (mem t) (cmdline_addr args) cl = entry_bytes E FW_CFG_CMDLINE_DATA 0 cl"
    "load_bytes (mem t) (initrd_addr args) il = entry_bytes E FW_CFG_INITRD_DATA 0 il"
    "ldl_p (mem t) (h + 0x218) = initrd_addr args" "unat (ldl_p (mem t) (h + 0x21c)) = il" "only_mem s6 t"
    "changes (mem s6) (mem t) [(h, k), (kernel_addr args, ks), (cmdline_addr args, cl), (initrd_addr args, il), (dma_desc env, 16)]"
    using bzimage_boots [OF dev(1) offered(5,6) [unfolded h_def] _ args(2)] places(3)
    unfolding h_def ks_def cl_def il_def by blast
  have "tables_kept (2 ^ 20) s6 t" using changes_keep_tables [OF t(7) _ places(4,1)] t(8) by simp
  then have "firmware_tables env E dir es cs sm (have_mmconfig s0) t" using s6(3) by blast
  moreover have "main b env s = andthen (boot_from_fwcfg env) panic s6" unfolding main_prepared [OF ready(1)] using s6(1) by blast
  ultimately show ?thesis using t(1-6) by (intro exI [of _ t]) (simp add: andthen_apply)
qed

section \<open>A machine that comes up\<close>

text \<open>The i440FX machine with two processors, 128 MB of memory, ACPI and SMBIOS tables and a kernel.\<close>

definition main_files :: "(string \<times> u8 list) list" where
  "main_files = demo_files @ demo_e820 @ demo_smbios"

definition main_contents :: "u16 \<Rightarrow> nat \<Rightarrow> u8" where
  "main_contents e =
     (if 0x20 \<le> e \<and> unat e < 0x20 + length main_files \<or> e = FW_CFG_ID \<or> e = FW_CFG_FILE_DIR then contents main_files e
      else if e = FW_CFG_NB_CPUS then byte_of [2] else bz_contents e)"

lemma main_files_entries:
  "length main_files = 6" "map fst main_files = [''etc/acpi/rsdp'', ''etc/acpi/tables'', ''etc/table-loader'', ''etc/e820'',
     ''etc/smbios/smbios-anchor'', ''etc/smbios/smbios-tables'']"
  "map (length \<circ> snd) main_files = [20, 4, 512, 20, 31, 6]"
  by (simp_all add: main_files_def demo_files_def demo_acpi_def demo_e820_def demo_smbios_def demo_script_cmds chars_def enc_entry_def)

lemma main_files_good: "good_files main_files"
  using demo_files_good demo_e820_good demo_smbios_good main_files_entries(1) by (auto simp: good_files_def main_files_def)

lemma main_contents_files:
  "main_contents FW_CFG_FILE_DIR = contents main_files FW_CFG_FILE_DIR"
  "k < 6 \<Longrightarrow> entry_bytes main_contents (file_select (make_dir main_files ! k)) 0 (length (snd (main_files ! k))) = snd (main_files ! k)"
proof -
  show "main_contents FW_CFG_FILE_DIR = contents main_files FW_CFG_FILE_DIR" by (simp add: main_contents_def)
  assume k: "k < 6"
  have "main_contents (file_select (make_dir main_files ! k)) = contents main_files (file_select (make_dir main_files ! k))"
  proof -
    have "unat (0x20 + of_nat k :: u16) = 0x20 + k" using k by (simp add: unat_word_ariths unat_of_nat)
    then have "(0x20 :: u16) \<le> 0x20 + of_nat k" by (simp add: word_le_nat_alt)
    then show ?thesis using k \<open>unat (0x20 + of_nat k :: u16) = 0x20 + k\<close>
      by (simp add: main_contents_def make_dir_def make_file_def main_files_entries)
  qed
  then show "entry_bytes main_contents (file_select (make_dir main_files ! k)) 0 (length (snd (main_files ! k))) = snd (main_files ! k)"
    using make_dir_entry(2) [OF main_files_good, of k] k by (simp add: entry_bytes_def main_files_entries)
qed

lemma main_contents_kernel:
  "entry_word main_contents FW_CFG_SETUP_ADDR = 0x10000" "entry_word main_contents FW_CFG_KERNEL_SIZE = 8"
  "entry_word main_contents FW_CFG_SETUP_SIZE = 0x400" "entry_word main_contents FW_CFG_CMDLINE_SIZE = 4"
  "entry_word main_contents FW_CFG_INITRD_SIZE = 16" "main_contents FW_CFG_SETUP_DATA = bz_contents FW_CFG_SETUP_DATA"
  "main_contents FW_CFG_KERNEL_DATA = bz_contents FW_CFG_KERNEL_DATA"
  "le_word (entry_bytes main_contents FW_CFG_NB_CPUS 0 4) = (2 :: u32)"
proof -
  show "le_word (entry_bytes main_contents FW_CFG_NB_CPUS 0 4) = (2 :: u32)" by code_simp
qed (use bz_contents_words in \<open>simp_all add: entry_word_def entry_bytes_def main_contents_def\<close>)

lemma main_setup: "setup_image main_contents = setup_image bz_contents"
  by (rule ext) (simp add: setup_image_def main_contents_kernel bz_contents_words)

lemma main_dir:
  "file_of (make_dir main_files) (chars ''etc/acpi/rsdp'') = Some 0" "file_of (make_dir main_files) (chars ''etc/acpi/tables'') = Some 1"
  "file_of (make_dir main_files) (chars ''etc/table-loader'') = Some 2" "file_of (make_dir main_files) (chars ''etc/e820'') = Some 3"
  "file_of (make_dir main_files) (chars ''etc/smbios/smbios-anchor'') = Some 4"
  "file_of (make_dir main_files) (chars ''etc/smbios/smbios-tables'') = Some 5"
proof -
  have f: "fst (main_files ! k) = [''etc/acpi/rsdp'', ''etc/acpi/tables'', ''etc/table-loader'', ''etc/e820'',
     ''etc/smbios/smbios-anchor'', ''etc/smbios/smbios-tables''] ! k" if "k < 6" for k
    using arg_cong [OF main_files_entries(2), of "\<lambda>xs. xs ! k"] that main_files_entries(1) by simp
  have "distinct (map fst main_files)" by (simp add: main_files_entries(2))
  then have "fst (main_files ! j) \<noteq> fst (main_files ! k)" if "k < 6" "j < k" for j k
    using that main_files_entries(1) nth_eq_iff_index_eq [of "map fst main_files" j k] by simp
  then have "file_of (make_dir main_files) (chars (fst (main_files ! k))) = Some k" if "k < 6" for k
    unfolding file_of_def loaded_file_table [OF main_files_good, symmetric]
    by (intro loaded_file_index [OF main_files_good]) (use that main_files_entries(1) in simp_all)
  from this [of 0] this [of 1] this [of 2] this [of 3] this [of 4] this [of 5]
  show "file_of (make_dir main_files) (chars ''etc/acpi/rsdp'') = Some 0" "file_of (make_dir main_files) (chars ''etc/acpi/tables'') = Some 1"
    "file_of (make_dir main_files) (chars ''etc/table-loader'') = Some 2" "file_of (make_dir main_files) (chars ''etc/e820'') = Some 3"
    "file_of (make_dir main_files) (chars ''etc/smbios/smbios-anchor'') = Some 4"
    "file_of (make_dir main_files) (chars ''etc/smbios/smbios-tables'') = Some 5"
    by (simp_all add: f)
qed

lemma main_sizes:
  "k < 6 \<Longrightarrow> length (snd (main_files ! k)) = [20, 4, 512, 20, 31, 6] ! k"
  "k < 6 \<Longrightarrow> file_size (make_dir main_files ! k) = of_nat ([20, 4, 512, 20, 31, 6] ! k)"
  using arg_cong [OF main_files_entries(3), of "\<lambda>xs. xs ! k"] main_files_entries(1) make_dir_entry(1) [OF main_files_good, of k] by simp_all

lemma main_parts:
  "snd (main_files ! 1) = [1, 2, 3, 4]" "snd (main_files ! 2) = demo_script" "snd (main_files ! 3) = enc_entry demo_ram"
  "snd (main_files ! 4) = snd (demo_smbios ! 0)" "snd (main_files ! 5) = snd (demo_smbios ! 1)"
  by (simp_all add: main_files_def demo_files_def demo_acpi_def demo_e820_def demo_smbios_def)

lemma main_ready:
  obtains t where "prepare_hardware 1 (ref_env E) pc_machine = Ret () t" "file_address t = replicate 20 0" "\<not> have_mmconfig t"
    "malloc_top t = 0xf0000" "0xf8000 \<le> unat (fseg_base t)" "unat (fseg_base t) < 0xf8020"
proof -
  obtain t p where t: "prepare_hardware (Suc 0) (ref_env E) pc_machine = Ret () t" "have_mmconfig t = ((ID_INTEL_82441 :: u32) = ID_INTEL_Q35_MCH)"
    "unat (fseg_base pc_machine) \<le> unat p" "unat p < unat (fseg_base pc_machine) + 16" "fseg_base t = p + 16"
    "malloc_top t = malloc_top pc_machine" "file_address t = file_address pc_machine"
    using hardware_ready [OF ref_pci_device [of E] ref_quiet pc_machine_ready(1) _ pc_machine_ready(2) _ ref_pam takes_plain takes_plain
        ref_image ref_layout, of 0] by (simp (no_asm_use)) blast
  have "unat (p + 16) = unat p + 16" using t(4) by (subst unat_add_less) (simp_all add: pc_machine_fields)
  with t show thesis by (intro that [of t]) (simp_all add: pc_machine_fields)
qed

theorem main_boots_linux_witness:
  "\<exists>t. main 1 (ref_env main_contents) pc_machine = Handoff (Jump16 0x1000 0xfff0) t \<and>
     load_bytes (mem t) 0x100000 8 = replicate 8 0x90 \<and> ldl_p (mem t) 0x10218 = 0x7fff000 \<and>
     take 5 (e820_map t) = fixed_entries False @ [above_1M demo_ram] \<and> ivt (mem t) 0x15 = 0xf1040"
proof -
  let ?E = "main_contents" and ?dir = "make_dir main_files"
  obtain s0 where s0: "prepare_hardware 1 (ref_env ?E) pc_machine = Ret () s0" "file_address s0 = replicate 20 0" "\<not> have_mmconfig s0"
    "malloc_top s0 = 0xf0000" "0xf8000 \<le> unat (fseg_base s0)" "unat (fseg_base s0) < 0xf8020" by (rule main_ready)
  note entry = main_contents_files(2)
  have dir: "advertises ?E ?dir"
    using contents_advertises [OF main_files_good] by (simp add: advertises_def entry_bytes_def main_contents_files(1))
  have sizes: "size_of ?dir 0 = 20" "size_of ?dir (Suc 0) = 4" "size_of ?dir 2 = 512" "size_of ?dir 5 = 6"
    using main_sizes(2) [of 0] main_sizes(2) [of 1] main_sizes(2) [of 2] main_sizes(2) [of 5] by (simp_all add: size_of_def)
  have space: "space ?dir False demo_cmds = 68" "space ?dir True demo_cmds = 36"
    by (simp_all add: demo_cmds_def main_dir sizes min_align_def)
  have "power_of_two 64" unfolding power_of_two_def by (rule exI [of _ 6]) simp
  then have "well_formed ?dir {} demo_cmds" by (simp add: demo_cmds_def main_dir sizes min_align_def)
  then have script: "script_offered ?E ?dir demo_cmds 512"
    using entry [of 2] demo_script_cmds by (simp add: script_offered_def main_dir sizes main_parts)
  have map: "e820_offered ?E ?dir [demo_ram] 0"
    using entry [of 3] main_sizes [of 3] by (simp add: e820_offered_def main_dir main_parts starts_at_0_def demo_ram_def)
  let ?A = "snd (demo_smbios ! 0)" and ?T = "snd (demo_smbios ! 1)"
  have len: "le_word (take 2 (drop 22 ?A)) = (6 :: u16)" "length ?T = 6" "22 \<le> unat (?A ! 5)" by (simp_all add: demo_smbios_def)
  have smbios: "smbios_offered ?E ?dir (Some (?A, ?T))"
    using entry [of 4] entry [of 5] main_sizes [of 4] main_sizes [of 5] len by (simp add: smbios_offered_def main_dir main_parts sizes)
  have args: "placed (ucast (entry_size ([demo_ram] ! 0))) (offered_args ?E) (setup_image ?E) =
     \<lparr>setup_addr = 0x10000, cmdline_addr = 0x20000, kernel_addr = 0x100000, initrd_addr = 0x7fff000,
      setup_size = 1024, kernel_size = 0x407, cmdline_size = 4, vmlinuz_size = 0x408, initrd_size = 16\<rparr>"
    using bz_placed by (simp add: demo_ram_def main_setup offered_args_def main_contents_kernel bz_contents_words)
  have kernel: "entry_bytes ?E FW_CFG_KERNEL_DATA 0 8 = replicate 8 0x90"
  proof -
    have "entry_bytes bz_contents FW_CFG_KERNEL_DATA 0 8 = replicate 8 0x90" by code_simp
    then show ?thesis by (simp add: entry_bytes_def main_contents_kernel)
  qed
  have low: "handlers_low (ref_env ?E)" "stack_low (ref_env ?E) 512" by (simp_all add: handlers_low_def stack_low_def apart_def)
  have room: "enough_room (ref_env ?E) s0 (space ?dir False demo_cmds + e820_block (length [demo_ram]) + 16)
      (16 + 64 * length ?dir + (space ?dir True demo_cmds + smbios_space (Some (?A, ?T))))"
    using s0(4-6) by (simp add: enough_room_def space main_files_entries(1) smbios_space_def len len(2) [simplified] e820_block_def)
  have cpus: "nat (sint (le_word (entry_bytes ?E FW_CFG_NB_CPUS 0 4) :: u32)) \<le> 40" by (simp add: main_contents_kernel)
  from main_boots_linux [OF s0(1,2) ref_device low(1) dir script map smbios cpus _ _ args [symmetric] refl low(2) room]
  obtain t where t: "main 1 (ref_env ?E) pc_machine = Handoff (Jump16 0x1000 0xfff0) t"
    "firmware_tables (ref_env ?E) ?E ?dir [demo_ram] demo_cmds (Some (?A, ?T)) False t"
    "load_bytes (mem t) 0x100000 8 = replicate 8 0x90" "ldl_p (mem t) 0x10218 = 0x7fff000"
    by (auto simp: main_contents_kernel main_setup bz_header apart_def off_tables_def kernel s0(3))
  have "take 5 (e820_map t) = fixed_entries False @ [above_1M demo_ram]"
    using t(2) by (auto simp: firmware_tables_def relocate_def starts_at_0_def demo_ram_def length_fixed_entries)
  moreover have "ivt (mem t) 0x15 = 0xf1040" using t(2) by (simp add: firmware_tables_def handler_of_def)
  ultimately show ?thesis using t by blast
qed

end
