(* ===== verification/Printf.thy ===== *)
theory Printf
  imports Reference
begin

text \<open>
  printf.c: formatted output into a buffer. A stream has the buffer's next free byte, the room that
  remains, and the number of characters so far; memory is threaded along, since the buffer is in it.
\<close>

section \<open>Streams\<close>

record pstream =
  buffer :: addr
  remain :: int
  added :: int

record strprops =
  pad :: u8
  npad :: int

type_synonym sink = "mem \<times> pstream"

text \<open>The counters are ints, whose range their steps must not leave: a piece of output yields a sink or a fault.\<close>

definition addchar :: "u8 \<Rightarrow> sink \<Rightarrow> fault + sink" where
  "addchar c k =
     (let (m, p) = k;
          (m, p) = (if remain p \<noteq> 0
            then (m(buffer p := c), p\<lparr>buffer := buffer p + 1, remain := remain p - 1\<rparr>)
            else (m, p))
      in if remain p < - (2 ^ 31) \<or> added p + 1 \<ge> 2 ^ 31 then Inl Signed_overflow
         else Inr (m, p\<lparr>added := added p + 1\<rparr>))"

definition if_ok :: "fault + 'a \<Rightarrow> ('a \<Rightarrow> fault + 'b) \<Rightarrow> fault + 'b" where
  "if_ok r f = (case r of Inl x \<Rightarrow> Inl x | Inr k \<Rightarrow> f k)"

primrec put_chars :: "u8 list \<Rightarrow> sink \<Rightarrow> fault + sink" where
  "put_chars [] k = Inr k"
| "put_chars (c # cs) k = if_ok (addchar c k) (put_chars cs)"

definition add_pad :: "u8 \<Rightarrow> int \<Rightarrow> sink \<Rightarrow> fault + sink" where
  "add_pad c n k = put_chars (replicate (nat n) c) k"

text \<open>\<open>npad -= strlen(s)\<close> and \<open>npad += strlen(s)\<close>: the sum is an unsigned one, and an int again when it is stored.\<close>

definition minus_len :: "int \<Rightarrow> u32 \<Rightarrow> int" where
  "minus_len left n = sint (word_of_int left - n)"

definition plus_len :: "int \<Rightarrow> u32 \<Rightarrow> int" where
  "plus_len left n = sint (word_of_int left + n)"

text \<open>
  \<open>print_str\<close> for a string that is given by its characters (a constant, or a local array), and for
  one in memory, which is measured first and then read character by character. The first loop leaves \<open>npad\<close> at
  most 0.
\<close>

definition print_chars :: "u8 list \<Rightarrow> strprops \<Rightarrow> sink \<Rightarrow> fault + sink" where
  "print_chars cs props k =
     (let len = of_nat (length cs) in
      if_ok (if npad props > 0
          then let left = minus_len (npad props) len in
            map_sum id (\<lambda>k. (k, min left 0)) (add_pad (pad props) left k)
          else Inr (k, npad props)) (\<lambda>(k, left).
      if_ok (put_chars cs k) (\<lambda>k.
      if left < 0 then add_pad 32 (- plus_len left len) k else Inr k)))"

partial_function (option) put_str :: "addr \<Rightarrow> sink \<Rightarrow> (fault + sink) option" where
  "put_str s k =
     (if fst k s = 0 then Some (Inr k)
      else case addchar (fst k s) k of Inl x \<Rightarrow> Some (Inl x) | Inr k \<Rightarrow> put_str (s + 1) k)"

definition print_str :: "addr \<Rightarrow> strprops \<Rightarrow> sink \<Rightarrow> (fault + sink) option" where
  "print_str s props k =
     Option.bind (if npad props > 0
       then Option.bind (strlen (fst k) s) (\<lambda>n. let left = minus_len (npad props) n in
              Some (map_sum id (\<lambda>k. (k, min left 0)) (add_pad (pad props) left k)))
       else Some (Inr (k, npad props))) (\<lambda>r. case r of Inl x \<Rightarrow> Some (Inl x) | Inr (k, left) \<Rightarrow>
     Option.bind (put_str s k) (\<lambda>r. case r of Inl x \<Rightarrow> Some (Inl x) | Inr k \<Rightarrow>
     if left < 0 then Option.bind (strlen (fst k) s) (\<lambda>n. Some (add_pad 32 (- plus_len left n) k))
     else Some (Inr k)))"

section \<open>Numbers\<close>

definition digit :: "nat \<Rightarrow> u8" where
  "digit d = chars ''0123456789abcdef'' ! d"

text \<open>The digits are produced in a local array, lowest first, by a loop that ends for any base above 1.\<close>

function digit_loop :: "nat \<Rightarrow> nat \<Rightarrow> u8 list" where
  "digit_loop base n = (if n = 0 \<or> base < 2 then [] else digit (n mod base) # digit_loop base (n div base))"
  by pat_completeness auto
termination by (relation "measure snd") (auto intro: div_less_dividend)

declare digit_loop.simps [simp del]

text \<open>The array is reversed in place.\<close>

definition reverse_array :: "u8 list \<Rightarrow> u8 list" where
  "reverse_array buf =
     fold (\<lambda>i xs. xs[i := xs ! (length buf - 1 - i), length buf - 1 - i := xs ! i]) [0..<length buf div 2] buf"

definition int_chars :: "int \<Rightarrow> nat \<Rightarrow> u8 list" where
  "int_chars n base =
     (let s = n < 0;
          buf = digit_loop base (nat (if s then - n else n));
          buf = (if s then buf @ [45] else buf);
          buf = (if buf = [] then [48] else buf)
      in reverse_array buf)"

text \<open>The smallest \<open>long\<close> has no negation.\<close>

definition print_int :: "int \<Rightarrow> nat \<Rightarrow> strprops \<Rightarrow> sink \<Rightarrow> fault + sink" where
  "print_int n base props k =
     (if n = - (2 ^ 31) then Inl Signed_overflow else print_chars (int_chars n base) props k)"

definition unsigned_chars :: "nat \<Rightarrow> nat \<Rightarrow> u8 list" where
  "unsigned_chars n base =
     (let buf = digit_loop base n;
          buf = (if buf = [] then [48] else buf)
      in reverse_array buf)"

definition print_unsigned :: "u32 \<Rightarrow> nat \<Rightarrow> strprops \<Rightarrow> sink \<Rightarrow> fault + sink" where
  "print_unsigned n base props k = print_chars (unsigned_chars (unat n) base) props k"

section \<open>Format strings\<close>

partial_function (option) digits_end :: "mem \<Rightarrow> addr \<Rightarrow> addr option" where
  "digits_end m f = (if 48 \<le> sint (m f) \<and> sint (m f) \<le> 57 then digits_end m (f + 1) else Some f)"

text \<open>The number, and where the format string goes on.\<close>

definition fmtnum :: "mem \<Rightarrow> addr \<Rightarrow> (fault + int \<times> addr) option" where
  "fmtnum m fmt =
     Option.bind (digits_end m (if m fmt = 45 then fmt + 1 else fmt)) (\<lambda>f.
     map_option (map_sum id (\<lambda>num. (num, f))) (atol m fmt))"

record directive =
  nlong :: nat
  props :: strprops

text \<open>
  \<open>None\<close>: the next character is copied or starts a directive; \<open>Some d\<close>: the loop is at \<open>morefmt\<close>. The
  arguments are the words \<open>va_arg\<close> has still to deliver. As in the code, a flag 0 moves on one character
  without looking at it.
\<close>

partial_function (option) vsnprintf_loop ::
    "addr \<Rightarrow> directive option \<Rightarrow> u32 list \<Rightarrow> sink \<Rightarrow> (sink, u32 list) outcome option" where
  "vsnprintf_loop fmt dir va k =
     (let m = fst k; f = m fmt in
      case dir of
        None \<Rightarrow>
          if f = 0 then Some (Ret va k)
          else if f \<noteq> 37 then (case addchar f k of Inl x \<Rightarrow> Some (Fault x)
            | Inr k \<Rightarrow> vsnprintf_loop (fmt + 1) None va k)
          else vsnprintf_loop (fmt + 1) (Some \<lparr>nlong = 0, props = \<lparr>pad = 32, npad = 0\<rparr>\<rparr>) va k
      | Some d \<Rightarrow>
          if f = 37 then (case addchar 37 k of Inl x \<Rightarrow> Some (Fault x)
            | Inr k \<Rightarrow> vsnprintf_loop (fmt + 1) None va k)
          else if f = 99 then
            (case va of [] \<Rightarrow> Some (Fault Missing_vararg)
             | x # va \<Rightarrow> (case addchar (ucast x) k of Inl x \<Rightarrow> Some (Fault x)
                | Inr k \<Rightarrow> vsnprintf_loop (fmt + 1) None va k))
          else if f = 0 then vsnprintf_loop fmt None va k
          else if 49 \<le> sint f \<and> sint f \<le> 57 \<or> f = 45 then
            Option.bind (fmtnum m fmt) (\<lambda>r. case r of Inl x \<Rightarrow> Some (Fault x)
              | Inr (num, fmt) \<Rightarrow> vsnprintf_loop fmt (Some (d\<lparr>props := (props d)\<lparr>npad := num\<rparr>\<rparr>)) va k)
          else if f = 108 then
            (if nlong d + 1 \<ge> 2 ^ 31 then Some (Fault Signed_overflow)
             else vsnprintf_loop (fmt + 1) (Some (d\<lparr>nlong := nlong d + 1\<rparr>)) va k)
          else if f = 100 then
            (if nlong d > 1 then Some (Panic k)
             else case va of [] \<Rightarrow> Some (Fault Missing_vararg)
             | x # va \<Rightarrow> (case print_int (sint x) 10 (props d) k of Inl x \<Rightarrow> Some (Fault x)
                | Inr k \<Rightarrow> vsnprintf_loop (fmt + 1) None va k))
          else if f = 120 then
            (if nlong d > 1 then Some (Panic k)
             else case va of [] \<Rightarrow> Some (Fault Missing_vararg)
             | x # va \<Rightarrow> (case print_unsigned x 16 (props d) k of Inl x \<Rightarrow> Some (Fault x)
                | Inr k \<Rightarrow> vsnprintf_loop (fmt + 1) None va k))
          else if f = 112 then
            (case va of [] \<Rightarrow> Some (Fault Missing_vararg)
             | x # va \<Rightarrow> (case if_ok (print_chars (chars ''0x'') (props d) k) (print_unsigned x 16 (props d)) of
                  Inl x \<Rightarrow> Some (Fault x)
                | Inr k \<Rightarrow> vsnprintf_loop (fmt + 1) None va k))
          else if f = 115 then
            (case va of [] \<Rightarrow> Some (Fault Missing_vararg)
             | x # va \<Rightarrow> Option.bind (print_str x (props d) k) (\<lambda>r. case r of Inl x \<Rightarrow> Some (Fault x)
                | Inr k \<Rightarrow> vsnprintf_loop (fmt + 1) None va k))
          else if f = 48 then (case addchar 48 k of Inl x \<Rightarrow> Some (Fault x)
            | Inr k \<Rightarrow> vsnprintf_loop (fmt + 2) None va k)
          else (case addchar f k of Inl x \<Rightarrow> Some (Fault x)
            | Inr k \<Rightarrow> vsnprintf_loop (fmt + 1) None va k))"

text \<open>The outcome: the memory and the number of characters, the closing NUL included, which is counted last.\<close>

definition vsnprintf :: "addr \<Rightarrow> int \<Rightarrow> addr \<Rightarrow> u32 list \<Rightarrow> mem \<Rightarrow> (mem, int) outcome" where
  "vsnprintf buf sz fmt va m =
     (if sz - 1 < - (2 ^ 31) then Fault Signed_overflow
      else case vsnprintf_loop fmt None va (m, \<lparr>buffer = buf, remain = sz - 1, added = 0\<rparr>) of
        None \<Rightarrow> Hang
      | Some (Ret _ (m, p)) \<Rightarrow>
          if added p + 1 \<ge> 2 ^ 31 then Fault Signed_overflow else Ret (added p + 1) (m(buffer p := 0))
      | Some (Panic (m, p)) \<Rightarrow> Panic m
      | Some (Fault x) \<Rightarrow> Fault x
      | Some _ \<Rightarrow> Hang)"

definition snprintf :: "addr \<Rightarrow> int \<Rightarrow> addr \<Rightarrow> u32 list \<Rightarrow> mem \<Rightarrow> (mem, int) outcome" where
  "snprintf buf sz fmt args m = vsnprintf buf sz fmt args m"

section \<open>Output\<close>

text \<open>The index is an int; it can count \<open>2 ^ 31\<close> characters.\<close>

primrec puts_loop :: "'d env \<Rightarrow> addr \<Rightarrow> nat \<Rightarrow> nat \<Rightarrow> ('d, nat) fw" where
  "puts_loop env c n 0 = (\<lambda>_. Fault Signed_overflow)"
| "puts_loop env c n (Suc k) =
     bind get_state (\<lambda>s. if mem s (c + of_nat n) = 0 then ret n
       else andthen (outb env 0x3f8 (mem s (c + of_nat n))) (puts_loop env c (n + 1) k))"

definition puts :: "'d env \<Rightarrow> addr \<Rightarrow> ('d, nat) fw" where
  "puts env c = puts_loop env c 0 (2 ^ 31)"

text \<open>\<open>buf\<close> is the local array of 2000 bytes.\<close>

definition printf :: "'d env \<Rightarrow> addr \<Rightarrow> addr \<Rightarrow> u32 list \<Rightarrow> ('d, int) fw" where
  "printf env buf fmt args s =
     (case vsnprintf buf 2000 fmt args (mem s) of
        Ret r m \<Rightarrow> andthen (puts env buf) (ret r) (s\<lparr>mem := m\<rparr>)
      | Panic m \<Rightarrow> Panic (s\<lparr>mem := m\<rparr>)
      | Handoff h m \<Rightarrow> Handoff h (s\<lparr>mem := m\<rparr>)
      | Hang \<Rightarrow> Hang
      | Fault x \<Rightarrow> Fault x)"

end
