(* ===== verification/Printspec.thy ===== *)
theory Printspec
  imports Printf
begin

text \<open>
  What printf.c promises: the numbers it prints denote their value, and whatever the format says, the buffer
  receives the output cut to its size. The stream is refined to the list of characters put into it.
\<close>

section \<open>The stream as a list of characters\<close>

text \<open>
  The sink after the characters \<open>cs\<close> were put into a buffer of \<open>Suc n\<close> bytes at \<open>buf\<close>: the first \<open>n\<close> of them
  are stored, all are counted.
\<close>

definition emitted :: "mem \<Rightarrow> addr \<Rightarrow> nat \<Rightarrow> u8 list \<Rightarrow> sink" where
  "emitted m buf n cs = (store_bytes m buf (take n cs),
     \<lparr>buffer = buf + of_nat (min n (length cs)), remain = int n - int (min n (length cs)), added = int (length cs)\<rparr>)"

lemma emitted_Nil: "emitted m buf n [] = (m, \<lparr>buffer = buf, remain = int n, added = 0\<rparr>)"
  by (simp add: emitted_def)

text \<open>The stream goes on to \<open>cs\<close> unless there are more characters than an int can count.\<close>

definition emit_result :: "mem \<Rightarrow> addr \<Rightarrow> nat \<Rightarrow> u8 list \<Rightarrow> fault + sink" where
  "emit_result m buf n cs = (if length cs < 2 ^ 31 then Inr (emitted m buf n cs) else Inl Signed_overflow)"

lemma addchar_step:
  "addchar c (emitted m buf n cs) = (if length cs + 1 < 2 ^ 31 then Inr (emitted m buf n (cs @ [c])) else Inl Signed_overflow)"
proof (cases "length cs < n")
  case True
  then show ?thesis
    by (simp add: addchar_def emitted_def store_bytes_append algebra_simps)
next
  case False
  then show ?thesis by (simp add: addchar_def emitted_def)
qed

lemma addchar_emitted: "addchar c (emitted m buf n cs) = emit_result m buf n (cs @ [c])"
  by (simp add: addchar_step emit_result_def)

lemma if_ok_simps [simp]: "if_ok (Inl x) f = Inl x" "if_ok (Inr k) f = f k"
  by (simp_all add: if_ok_def)

text \<open>One piece of output after another: the second is run on a stream that has not overflown.\<close>

lemma if_ok_emit:
  assumes "length cs < 2 ^ 31 \<Longrightarrow> f (emitted m buf n cs) = emit_result m buf n (cs @ ds)"
  shows "if_ok (emit_result m buf n cs) f = emit_result m buf n (cs @ ds)"
  using assms by (simp add: emit_result_def)

lemma put_chars_emitted:
  "length cs < 2 ^ 31 \<Longrightarrow> put_chars ds (emitted m buf n cs) = emit_result m buf n (cs @ ds)"
proof (induction ds arbitrary: cs)
  case (Cons d ds)
  then show ?case using if_ok_emit [of "cs @ [d]" "put_chars ds" m buf n ds] by (simp add: addchar_emitted)
qed (simp add: emit_result_def)

lemma add_pad_emitted:
  "length cs < 2 ^ 31 \<Longrightarrow> add_pad c k (emitted m buf n cs) = emit_result m buf n (cs @ replicate (nat k) c)"
  by (simp add: add_pad_def put_chars_emitted)

text \<open>A field: padded on the left to a positive width, with blanks on the right for a negative one.\<close>

definition field :: "strprops \<Rightarrow> u8 list \<Rightarrow> u8 list" where
  "field p cs =
     (if 0 < npad p then replicate (nat (npad p) - length cs) (pad p) @ cs
      else cs @ replicate (nat (- npad p) - length cs) 32)"

definition int_width :: "strprops \<Rightarrow> bool" where
  "int_width p \<longleftrightarrow> - (2 ^ 31) \<le> npad p \<and> npad p < 2 ^ 31"

lemma sint_in_range: "- (2 ^ 31) \<le> z \<Longrightarrow> z < 2 ^ 31 \<Longrightarrow> sint (word_of_int z :: u32) = z"
  by (simp add: sint_sbintrunc' signed_take_bit_int_eq_self)

lemma len_arith:
  assumes "k < 2 ^ 31"
  shows "0 < left \<Longrightarrow> left < 2 ^ 31 \<Longrightarrow> minus_len left (of_nat k) = left - int k"
    and "left < 0 \<Longrightarrow> - (2 ^ 31) \<le> left \<Longrightarrow> plus_len left (of_nat k) = left + int k"
  using assms sint_in_range [of "left - int k"] sint_in_range [of "left + int k"]
  by (simp_all add: minus_len_def plus_len_def)

lemma field_parts:
  "0 < npad p \<Longrightarrow> nat (npad p - int (length ds)) = nat (npad p) - length ds"
  "nat (- (npad p + int (length ds))) = nat (- npad p) - length ds"
  by simp_all

lemma pad_first:
  assumes "length cs < 2 ^ 31"
  shows "map_sum id (\<lambda>k. (k, min left 0)) (add_pad c left (emitted m buf n cs)) =
    (if length (cs @ replicate (nat left) c) < 2 ^ 31
     then Inr (emitted m buf n (cs @ replicate (nat left) c), min left 0) else Inl Signed_overflow)"
  by (simp add: add_pad_emitted [OF assms] emit_result_def)

text \<open>What both versions of \<open>print_str\<close> do once the string has been padded on the left.\<close>

lemma pad_last:
  assumes "length cs < 2 ^ 31" "length ds < 2 ^ 31" "int_width p" and left: "left = npad p \<and> npad p \<le> 0 \<or> left = min (npad p - int (length ds)) 0 \<and> 0 < npad p"
  shows "(if left < 0 then add_pad 32 (- plus_len left (of_nat (length ds))) (emitted m buf n cs) else Inr (emitted m buf n cs)) =
    emit_result m buf n (cs @ replicate (if 0 < npad p then 0 else nat (- npad p) - length ds) 32)"
proof -
  have "- (2 ^ 31) \<le> left" using left assms(2,3) by (auto simp: int_width_def)
  then have "left < 0 \<Longrightarrow> - plus_len left (of_nat (length ds)) = - (left + int (length ds))"
    using len_arith(2) [OF assms(2), of left] by simp
  then show ?thesis
    using assms(1) left field_parts(2) [of p ds] by (auto simp: add_pad_emitted [OF assms(1)] min_def emit_result_def)
qed

lemma print_chars_emitted:
  assumes "length cs < 2 ^ 31" "length ds < 2 ^ 31" "int_width p"
  shows "print_chars ds p (emitted m buf n cs) = emit_result m buf n (cs @ field p ds)"
proof -
  let ?pre = "replicate (if 0 < npad p then nat (npad p) - length ds else 0) (pad p)"
  let ?left = "if 0 < npad p then min (npad p - int (length ds)) 0 else npad p"
  have minus: "0 < npad p \<Longrightarrow> minus_len (npad p) (of_nat (length ds)) = npad p - int (length ds)"
    using len_arith(1) [OF assms(2)] assms(3) by (simp add: int_width_def)
  have first: "(if npad p > 0 then let left = minus_len (npad p) (of_nat (length ds)) in
        map_sum id (\<lambda>k. (k, min left 0)) (add_pad (pad p) left (emitted m buf n cs))
      else Inr (emitted m buf n cs, npad p)) =
    (if length (cs @ ?pre) < 2 ^ 31 then Inr (emitted m buf n (cs @ ?pre), ?left) else Inl Signed_overflow)"
    using assms(1) by (cases "0 < npad p") (auto simp: minus pad_first [OF assms(1)] Let_def field_parts(1))
  show ?thesis
  proof (cases "length (cs @ ?pre @ ds) < 2 ^ 31")
    case True
    then have "put_chars ds (emitted m buf n (cs @ ?pre)) = Inr (emitted m buf n (cs @ ?pre @ ds))"
      by (subst put_chars_emitted) (simp_all add: emit_result_def)
    then show ?thesis
      unfolding print_chars_def Let_def [of "of_nat (length ds)"] first
      using True pad_last [OF True assms(2,3), of ?left m buf n] by (simp add: field_def)
  next
    case False
    then have "put_chars ds (emitted m buf n (cs @ ?pre)) = Inl Signed_overflow" if "length (cs @ ?pre) < 2 ^ 31"
      using that by (subst put_chars_emitted) (simp_all add: emit_result_def)
    moreover have "\<not> length (cs @ field p ds) < 2 ^ 31" using False by (simp add: field_def split: if_splits)
    ultimately show ?thesis
      unfolding print_chars_def Let_def [of "of_nat (length ds)"] first by (simp add: emit_result_def)
  qed
qed

section \<open>Numbers\<close>

lemma reverse_array_rev: "reverse_array buf = rev buf"
proof -
  let ?n = "length buf"
  let ?f = "\<lambda>i xs. xs[i := xs ! (?n - 1 - i), ?n - 1 - i := xs ! i]"
  have "k \<le> ?n div 2 \<Longrightarrow> length (fold ?f [0..<k] buf) = ?n \<and>
      (\<forall>j < ?n. fold ?f [0..<k] buf ! j = (if j < k \<or> ?n - 1 - j < k then buf ! (?n - 1 - j) else buf ! j))" for k
  proof (induction k)
    case (Suc k)
    then have len: "length (fold ?f [0..<k] buf) = ?n"
      and at: "\<forall>j < ?n. fold ?f [0..<k] buf ! j = (if j < k \<or> ?n - 1 - j < k then buf ! (?n - 1 - j) else buf ! j)" by auto
    have k: "k < ?n" "?n - 1 - k < ?n" "\<not> ?n - 1 - k < k" "k \<noteq> ?n - 1 - k" "?n - 1 - (?n - 1 - k) = k" using Suc.prems by auto
    show ?case using len k at by (auto simp: nth_list_update less_Suc_eq)
  qed simp
  from this [of "?n div 2"] have len: "length (reverse_array buf) = ?n"
    and at: "\<And>j. j < ?n \<Longrightarrow> reverse_array buf ! j = (if j < ?n div 2 \<or> ?n - 1 - j < ?n div 2 then buf ! (?n - 1 - j) else buf ! j)"
    by (auto simp: reverse_array_def)
  show ?thesis
  proof (rule nth_equalityI)
    fix j assume "j < length (reverse_array buf)"
    then have j: "j < ?n" using len by simp
    have "?n - 1 - j = j" if "\<not> (j < ?n div 2 \<or> ?n - 1 - j < ?n div 2)" using that j by presburger
    then show "reverse_array buf ! j = rev buf ! j" using at [OF j] j by (auto simp: rev_nth)
  qed (simp add: len)
qed

text \<open>The decimal digits of a number, highest first.\<close>

function decimal :: "nat \<Rightarrow> nat list" where
  "decimal n = (if n < 10 then [n] else decimal (n div 10) @ [n mod 10])"
  by pat_completeness auto
termination by (relation "measure id") auto

declare decimal.simps [simp del]

lemma dec_value_append: "dec_value a (ds @ es) = dec_value (dec_value a ds) es"
  by (simp add: dec_value_def)

lemma decimal_digits: "\<forall>d \<in> set (decimal n). d < 10" "decimal n \<noteq> []" "dec_value 0 (decimal n) = int n"
  by (induction n rule: decimal.induct; subst decimal.simps; auto simp: dec_value_append zmod_int zdiv_int)+

lemma digit_decimal: "d < 10 \<Longrightarrow> digit d = digit_char d"
  by (drule digit_char_cases) (auto simp: digit_def chars_def digit_char_def)

lemma digit_loop_decimal: "0 < n \<Longrightarrow> rev (digit_loop 10 n) = map digit_char (decimal n)"
proof (induction n rule: decimal.induct)
  case (1 n)
  have "digit_loop 10 n = digit (n mod 10) # digit_loop 10 (n div 10)" using 1(2) by (subst digit_loop.simps) simp
  then show ?case using 1 by (subst decimal.simps) (auto simp: digit_decimal digit_loop.simps [of 10 0])
qed

lemma int_chars_decimal:
  "int_chars z 10 = (if z < 0 then [45] else []) @ map digit_char (decimal (nat \<bar>z\<bar>))"
proof (cases "z = 0")
  case True
  then show ?thesis by (simp add: int_chars_def reverse_array_rev digit_loop.simps decimal.simps digit_char_def)
next
  case False
  then have "0 < nat \<bar>z\<bar>" by simp
  from digit_loop_decimal [OF this] have "digit_loop 10 (nat \<bar>z\<bar>) = rev (map digit_char (decimal (nat \<bar>z\<bar>)))"
    by (metis rev_rev_ident)
  moreover have "decimal (nat \<bar>z\<bar>) \<noteq> []" by (rule decimal_digits)
  ultimately show ?thesis by (auto simp: int_chars_def Let_def reverse_array_rev rev_map abs_if split: if_splits)
qed

text \<open>
  What it means that characters are the numeral of \<open>n\<close> in a base of at most 16: they are digits of this base, the
  highest first, of value \<open>n\<close>, without leading zeros.
\<close>

definition numeral_char :: "nat \<Rightarrow> u8" where
  "numeral_char d = (if d < 10 then of_nat (48 + d) else of_nat (87 + d))"

definition value_of :: "nat \<Rightarrow> nat list \<Rightarrow> nat" where
  "value_of b ds = foldl (\<lambda>v d. b * v + d) 0 ds"

definition numeral_of :: "nat \<Rightarrow> nat \<Rightarrow> u8 list \<Rightarrow> bool" where
  "numeral_of b n cs \<longleftrightarrow> (\<exists>ds. cs = map numeral_char ds \<and> (\<forall>d \<in> set ds. d < b) \<and> value_of b ds = n \<and>
     (if n = 0 then ds = [0] else ds \<noteq> [] \<and> hd ds \<noteq> 0))"

lemma digit_numeral: "d < 16 \<Longrightarrow> digit d = numeral_char d"
proof -
  assume "d < 16"
  moreover have "\<forall>d < 16. digit d = numeral_char d"
    by (simp add: numeral_eq_Suc All_less_Suc digit_def numeral_char_def chars_def)
  ultimately show ?thesis by blast
qed

lemma digit_loop_value:
  assumes "2 \<le> b"
  shows "\<forall>d \<in> set ds. d < b \<Longrightarrow> ds \<noteq> [] \<longrightarrow> hd ds \<noteq> 0 \<Longrightarrow> digit_loop b (value_of b ds) = rev (map digit ds)"
proof (induction ds rule: rev_induct)
  case Nil
  then show ?case by (simp add: value_of_def digit_loop.simps)
next
  case (snoc d ds)
  let ?v = "value_of b ds"
  have v: "value_of b (ds @ [d]) = b * ?v + d" by (simp add: value_of_def)
  have ih: "digit_loop b ?v = rev (map digit ds)" using snoc by (cases ds) auto
  have "b * ?v + d \<noteq> 0"
  proof (cases "ds = []")
    case True
    then show ?thesis using snoc.prems(2) by simp
  next
    case False
    then have "digit_loop b ?v \<noteq> []" using ih by simp
    then have "?v \<noteq> 0" by (intro notI) (simp add: digit_loop.simps [of b 0])
    then show ?thesis using assms by simp
  qed
  moreover have "(b * ?v + d) mod b = d" "(b * ?v + d) div b = ?v" using snoc.prems(1) by simp_all
  ultimately show ?case using assms ih unfolding v by (subst digit_loop.simps) simp
qed

text \<open>There is one numeral, and it is the one the code computes.\<close>

lemma numeral_printed:
  assumes "numeral_of b n cs" "2 \<le> b" "b \<le> 16"
  shows "unsigned_chars n b = cs" "int_chars (int n) b = cs" "0 < n \<Longrightarrow> int_chars (- int n) b = 45 # cs"
proof -
  obtain ds where ds: "cs = map numeral_char ds" "\<forall>d \<in> set ds. d < b" "value_of b ds = n" "if n = 0 then ds = [0] else ds \<noteq> [] \<and> hd ds \<noteq> 0"
    using assms(1) unfolding numeral_of_def by blast
  have cs: "cs = map digit ds" using ds(1,2) assms(3) by (auto simp: digit_numeral)
  have loop: "digit_loop b n = rev cs" "cs \<noteq> []" if "0 < n"
    using that ds digit_loop_value [OF assms(2) ds(2)] by (simp_all add: cs)
  have zero: "digit_loop b 0 = []" "n = 0 \<Longrightarrow> cs = [48]" using ds by (auto simp: digit_loop.simps numeral_char_def)
  show "unsigned_chars n b = cs" using loop zero by (cases "n = 0") (simp_all add: unsigned_chars_def reverse_array_rev)
  show "int_chars (int n) b = cs" using loop zero by (cases "n = 0") (simp_all add: int_chars_def reverse_array_rev)
  show "int_chars (- int n) b = 45 # cs" if "0 < n" using loop [OF that] that by (simp add: int_chars_def reverse_array_rev)
qed

lemma value_of_positive: "hd ds \<noteq> 0 \<Longrightarrow> ds \<noteq> [] \<Longrightarrow> 2 \<le> b \<Longrightarrow> 2 ^ (length ds - 1) \<le> value_of b ds"
proof (induction ds rule: rev_induct)
  case (snoc d ds)
  show ?case
  proof (cases "ds = []")
    case True
    then show ?thesis using snoc.prems by (simp add: value_of_def)
  next
    case False
    then obtain k where k: "length ds = Suc k" by (cases ds) auto
    have "2 ^ (length ds - 1) \<le> value_of b ds" using snoc False by simp
    then have "2 * 2 ^ k \<le> b * value_of b ds" using snoc.prems(3) k by (intro mult_le_mono) simp_all
    then show ?thesis by (simp add: value_of_def k)
  qed
qed simp

lemma numeral_length:
  assumes "numeral_of b k cs" "k < 2 ^ 32" "2 \<le> b"
  shows "length cs \<le> 32"
proof -
  obtain ds where ds: "length cs = length ds" "value_of b ds = k" "if k = 0 then ds = [0] else ds \<noteq> [] \<and> hd ds \<noteq> 0"
    using assms(1) unfolding numeral_of_def by auto
  show ?thesis
  proof (cases "k = 0")
    case False
    then have "(2 :: nat) ^ (length ds - 1) \<le> k" using value_of_positive [of ds b] ds assms(3) by simp
    then have "(2 :: nat) ^ (length ds - 1) < 2 ^ 32" using assms(2) by simp
    then have "length ds - 1 < 32" by (simp only: power_strict_increasing_iff semiring_norm)
    then show ?thesis using ds(1) by simp
  qed (use ds in simp)
qed

section \<open>Reading the format while the buffer is written\<close>

text \<open>The text \<open>tx\<close> is at \<open>f\<close>, out of the buffer's way.\<close>

definition stays :: "mem \<Rightarrow> addr \<Rightarrow> nat \<Rightarrow> addr \<Rightarrow> u8 list \<Rightarrow> bool" where
  "stays m buf n f tx \<longleftrightarrow> load_bytes m f (length tx) = tx \<and> apart buf n f (length tx)"

lemma stays_emitted:
  assumes "stays m buf n f tx"
  shows "load_bytes (fst (emitted m buf n cs)) f (length tx) = tx"
proof -
  have "apart buf (length (take n cs)) f (length tx)"
    by (rule apart_mono [where n = n and m = "length tx"]) (use assms in \<open>auto simp: stays_def\<close>)
  then show ?thesis using assms by (simp add: emitted_def stays_def load_store_apart)
qed

lemma stays_append:
  assumes "stays m buf n f (as @ bs)"
  shows "stays m buf n f as" "stays m buf n (f + of_nat (length as)) bs"
proof -
  have l: "load_bytes m f (length as + length bs) = as @ bs" and a: "apart buf n f (length as + length bs)"
    using assms by (simp_all add: stays_def)
  show "stays m buf n f as"
    using l apart_mono [OF a, of n "length as"] unfolding load_bytes_append by (simp add: stays_def)
  have "apart (f + of_nat (length as)) (length bs) buf n"
    by (rule apart_sub [where n = "length as + length bs"]) (use a in \<open>simp_all add: apart_commute\<close>)
  then show "stays m buf n (f + of_nat (length as)) bs"
    using l unfolding load_bytes_append by (simp add: stays_def apart_commute)
qed

lemma stays_Cons:
  assumes "stays m buf n f (c # tx)"
  shows "fst (emitted m buf n cs) f = c" "stays m buf n (f + 1) tx"
proof -
  show "fst (emitted m buf n cs) f = c" using stays_emitted [OF assms, of cs] by simp
  show "stays m buf n (f + 1) tx" using stays_append(2) [of m buf n f "[c]" tx] assms by simp
qed

text \<open>A whole string that stays is read by strlen and put into the stream.\<close>

lemma put_str_emitted:
  assumes "stays m buf n s (ds @ [0])" "0 \<notin> set ds" "length cs < 2 ^ 31"
  shows "put_str s (emitted m buf n cs) = Some (emit_result m buf n (cs @ ds))"
  using assms
proof (induction ds arbitrary: s cs)
  case Nil
  then show ?case using stays_Cons(1) [of m buf n s 0 "[]" cs] by (subst put_str.simps) (simp add: emit_result_def)
next
  case (Cons d ds)
  then have "fst (emitted m buf n cs) s = d" "stays m buf n (s + 1) (ds @ [0])" using stays_Cons [of m buf n s d "ds @ [0]"] by auto
  then show ?case using Cons.IH [of "s + 1" "cs @ [d]"] Cons.prems(2)
    by (subst put_str.simps) (simp add: addchar_step emit_result_def)
qed

lemma strlen_emitted:
  assumes "stays m buf n s (ds @ [0])" "0 \<notin> set ds"
  shows "strlen (fst (emitted m buf n cs)) s = Some (of_nat (length ds))"
proof (rule strlen_cstring)
  show "cstring (fst (emitted m buf n cs)) s ds"
    using stays_emitted [OF assms(1), of cs] assms(2) by (simp add: cstring_iff_load del: load_bytes.simps)
qed

lemma print_str_emitted:
  assumes "stays m buf n s (ds @ [0])" "0 \<notin> set ds" "length ds < 2 ^ 31" "length cs < 2 ^ 31" "int_width p"
  shows "print_str s p (emitted m buf n cs) = Some (emit_result m buf n (cs @ field p ds))"
proof -
  let ?pre = "replicate (if 0 < npad p then nat (npad p) - length ds else 0) (pad p)"
  let ?left = "if 0 < npad p then min (npad p - int (length ds)) 0 else npad p"
  note str = strlen_emitted [OF assms(1,2)] put_str_emitted [OF assms(1,2)]
  have minus: "0 < npad p \<Longrightarrow> minus_len (npad p) (of_nat (length ds)) = npad p - int (length ds)"
    using len_arith(1) [OF assms(3)] assms(5) by (simp add: int_width_def)
  have first: "(if npad p > 0 then Option.bind (strlen (fst (emitted m buf n cs)) s) (\<lambda>n'. let left = minus_len (npad p) n' in
        Some (map_sum id (\<lambda>k. (k, min left 0)) (add_pad (pad p) left (emitted m buf n cs))))
      else Some (Inr (emitted m buf n cs, npad p))) =
    Some (if length (cs @ ?pre) < 2 ^ 31 then Inr (emitted m buf n (cs @ ?pre), ?left) else Inl Signed_overflow)"
    using assms(4) by (cases "0 < npad p") (auto simp: str(1) minus pad_first [OF assms(4)] Let_def field_parts(1))
  show ?thesis
  proof (cases "length (cs @ ?pre @ ds) < 2 ^ 31")
    case True
    let ?k = "emitted m buf n (cs @ ?pre @ ds)"
    have "(if ?left < 0 then Option.bind (strlen (fst ?k) s) (\<lambda>n'. Some (add_pad 32 (- plus_len ?left n') ?k)) else Some (Inr ?k))
        = Some (if ?left < 0 then add_pad 32 (- plus_len ?left (of_nat (length ds))) ?k else Inr ?k)"
      by (cases "?left < 0") (simp_all only: str(1) Option.bind.bind_lunit if_True if_False)
    also have "\<dots> = Some (emit_result m buf n (cs @ field p ds))"
      by (subst pad_last [OF True assms(3,5)]) (auto simp: field_def)
    finally have last: "(if ?left < 0 then Option.bind (strlen (fst ?k) s) (\<lambda>n'. Some (add_pad 32 (- plus_len ?left n') ?k)) else Some (Inr ?k))
        = Some (emit_result m buf n (cs @ field p ds))" .
    have "length (cs @ ?pre) < 2 ^ 31" "put_str s (emitted m buf n (cs @ ?pre)) = Some (Inr ?k)"
      using True by (simp_all add: str(2) emit_result_def)
    then show ?thesis
      unfolding print_str_def first by (simp only: if_True Option.bind.bind_lunit sum.case prod.case last)
  next
    case False
    moreover have "\<not> length (cs @ field p ds) < 2 ^ 31" using False by (simp add: field_def split: if_splits)
    ultimately show ?thesis
      unfolding print_str_def first by (simp add: str(2) emit_result_def)
  qed
qed

section \<open>Format strings\<close>

text \<open>
  The formats whose meaning is fixed: ordinary characters, two percent signs, and directives with an optional
  width (a sign and digits, the first of which is not 0 unless the sign comes before it), an optional l, and a
  conversion.
\<close>

datatype conv = Char_conv | Decimal | Hex | Pointer | String_conv

datatype item = Text u8 | Percent | Directive "(bool \<times> nat list) option" bool conv

fun conv_char :: "conv \<Rightarrow> u8" where
  "conv_char Char_conv = 99"
| "conv_char Decimal = 100"
| "conv_char Hex = 120"
| "conv_char Pointer = 112"
| "conv_char String_conv = 115"

fun width_text :: "(bool \<times> nat list) option \<Rightarrow> u8 list" where
  "width_text None = []"
| "width_text (Some (left, ds)) = (if left then [45] else []) @ map digit_char ds"

fun width_ok :: "(bool \<times> nat list) option \<Rightarrow> bool" where
  "width_ok None = True"
| "width_ok (Some (left, ds)) \<longleftrightarrow> (\<forall>d \<in> set ds. d < 10) \<and> ds \<noteq> [] \<and> (left \<or> hd ds \<noteq> 0) \<and> dec_value 0 ds < 2 ^ 31"

fun width :: "(bool \<times> nat list) option \<Rightarrow> int" where
  "width None = 0"
| "width (Some (left, ds)) = (if left then - dec_value 0 ds else dec_value 0 ds)"

fun item_text :: "item \<Rightarrow> u8 list" where
  "item_text (Text c) = [c]"
| "item_text Percent = [37, 37]"
| "item_text (Directive w l cv) = 37 # width_text w @ (if l then [108] else []) @ [conv_char cv]"

definition blanks :: "(bool \<times> nat list) option \<Rightarrow> strprops" where
  "blanks w = \<lparr>pad = 32, npad = width w\<rparr>"

text \<open>
  What a list of items prints for the arguments \<open>va\<close>, when memory has been written in the first \<open>n\<close> bytes of
  the buffer only: numbers by their numerals, a negative one behind a minus sign.
\<close>

inductive prints :: "mem \<Rightarrow> addr \<Rightarrow> nat \<Rightarrow> item list \<Rightarrow> u32 list \<Rightarrow> u8 list \<Rightarrow> bool"
  for m :: mem and buf :: addr and n :: nat where
  end_of_format: "prints m buf n [] va []"
| ordinary: "c \<noteq> 0 \<Longrightarrow> c \<noteq> 37 \<Longrightarrow> prints m buf n is va cs \<Longrightarrow> prints m buf n (Text c # is) va (c # cs)"
| percent: "prints m buf n is va cs \<Longrightarrow> prints m buf n (Percent # is) va (37 # cs)"
| char: "width_ok w \<Longrightarrow> prints m buf n is va cs \<Longrightarrow>
    prints m buf n (Directive w l Char_conv # is) (x # va) (ucast x # cs)"
| decimal: "width_ok w \<Longrightarrow> sint x \<noteq> - (2 ^ 31) \<Longrightarrow> numeral_of 10 (nat \<bar>sint x\<bar>) ds \<Longrightarrow> prints m buf n is va cs \<Longrightarrow>
    prints m buf n (Directive w l Decimal # is) (x # va)
      (field (blanks w) ((if sint x < 0 then [45] else []) @ ds) @ cs)"
| hex: "width_ok w \<Longrightarrow> numeral_of 16 (unat x) ds \<Longrightarrow> prints m buf n is va cs \<Longrightarrow>
    prints m buf n (Directive w l Hex # is) (x # va) (field (blanks w) ds @ cs)"
| pointer: "width_ok w \<Longrightarrow> numeral_of 16 (unat x) ds \<Longrightarrow> prints m buf n is va cs \<Longrightarrow>
    prints m buf n (Directive w l Pointer # is) (x # va)
      (field (blanks w) [48, 120] @ field (blanks w) ds @ cs)"
| string: "width_ok w \<Longrightarrow> stays m buf n x (ds @ [0]) \<Longrightarrow> 0 \<notin> set ds \<Longrightarrow> length ds < 2 ^ 31 \<Longrightarrow>
    prints m buf n is va cs \<Longrightarrow>
    prints m buf n (Directive w l String_conv # is) (x # va) (field (blanks w) ds @ cs)"

inductive_cases prints_Cons: "prints m buf n (i # is) va cs"

lemma digits_end_stop:
  "stays m buf n f (map digit_char ds @ [c]) \<Longrightarrow> \<forall>d \<in> set ds. d < 10 \<Longrightarrow> \<not> (48 \<le> sint c \<and> sint c \<le> 57) \<Longrightarrow>
   digits_end (fst (emitted m buf n cs)) f = Some (f + of_nat (length ds))"
proof (induction ds arbitrary: f)
  case Nil
  then show ?case using stays_Cons(1) [of m buf n f c "[]" cs] by (subst digits_end.simps) auto
next
  case (Cons d ds)
  then have "fst (emitted m buf n cs) f = digit_char d" "stays m buf n (f + 1) (map digit_char ds @ [c])"
    using stays_Cons [of m buf n f "digit_char d" "map digit_char ds @ [c]"] by auto
  then show ?case using Cons.IH [of "f + 1"] Cons.prems by (subst digits_end.simps) (auto simp: algebra_simps)
qed

lemma fmtnum_width:
  assumes "stays m buf n f (width_text (Some (left, ds)) @ [c])" "width_ok (Some (left, ds))"
    and c: "number_end c" "\<not> (48 \<le> sint c \<and> sint c \<le> 57)"
  shows "fmtnum (fst (emitted m buf n cs)) f =
    Some (Inr (width (Some (left, ds)), f + of_nat (length (width_text (Some (left, ds))))))"
proof -
  let ?m = "fst (emitted m buf n cs)" and ?sg = "if left then [45] else [] :: u8 list"
  obtain d ds' where ds: "ds = d # ds'" "d < 10" "\<forall>d \<in> set ds. d < 10" using assms(2) by (cases ds) auto
  have tx: "width_text (Some (left, ds)) @ [c] = ?sg @ map digit_char ds @ [c]" by simp
  note st = assms(1) [unfolded tx]
  have first: "?m f = (if left then 45 else digit_char d)"
    using stays_Cons(1) [of m buf n f _ _ cs] st ds(1) by (cases left) auto
  have rest: "stays m buf n (f + of_nat (length ?sg)) (map digit_char ds @ [c])"
    using stays_append(2) [OF st] .
  have start: "(if ?m f = 45 then f + 1 else f) = f + of_nat (length ?sg)"
    using first ds(2) by (cases left) simp_all
  have de: "digits_end ?m (if ?m f = 45 then f + 1 else f) = Some (f + of_nat (length ?sg) + of_nat (length ds))"
    unfolding start by (rule digits_end_stop [OF rest ds(3) c(2)])
  have "atol ?m f = Some (if dec_value 0 ds < 2 ^ 31
      then Inr (if ?sg = [45] then - dec_value 0 ds else dec_value 0 ds) else Inl Signed_overflow)"
    using stays_emitted [OF st, of cs] ds c(1) by (intro atol_number [where ws = "[]"]) auto
  then have "atol ?m f = Some (Inr (width (Some (left, ds))))" using assms(2) by auto
  with de show ?thesis by (cases left) (simp_all add: fmtnum_def algebra_simps)
qed

section \<open>One step of the loop\<close>

text \<open>The loop goes on at \<open>f\<close> behind a piece of output.\<close>

definition resume :: "addr \<Rightarrow> u32 list \<Rightarrow> fault + sink \<Rightarrow> (sink, u32 list) outcome option" where
  "resume f va r = (case r of Inl x \<Rightarrow> Some (Fault x) | Inr k \<Rightarrow> vsnprintf_loop f None va k)"

lemma loop_text:
  "fst k f = 0 \<Longrightarrow> vsnprintf_loop f None va k = Some (Ret va k)"
  "fst k f \<noteq> 0 \<Longrightarrow> fst k f \<noteq> 37 \<Longrightarrow> vsnprintf_loop f None va k = resume (f + 1) va (addchar (fst k f) k)"
  "fst k f = 37 \<Longrightarrow> vsnprintf_loop f None va k = vsnprintf_loop (f + 1) (Some \<lparr>nlong = 0, props = \<lparr>pad = 32, npad = 0\<rparr>\<rparr>) va k"
  by (subst vsnprintf_loop.simps; simp add: Let_def resume_def)+

lemma loop_percent:
  "fst k f = 37 \<Longrightarrow> vsnprintf_loop f (Some d) va k = resume (f + 1) va (addchar 37 k)"
  by (subst vsnprintf_loop.simps) (simp add: Let_def resume_def)

lemma loop_long:
  "fst k f = 108 \<Longrightarrow> nlong d = 0 \<Longrightarrow> vsnprintf_loop f (Some d) va k = vsnprintf_loop (f + 1) (Some (d\<lparr>nlong := 1\<rparr>)) va k"
  by (subst vsnprintf_loop.simps) (simp add: Let_def)

lemma loop_width:
  assumes "49 \<le> sint (fst k f) \<and> sint (fst k f) \<le> 57 \<or> fst k f = 45" and "fmtnum (fst k) f = Some (Inr (num, f'))"
  shows "vsnprintf_loop f (Some d) va k = vsnprintf_loop f' (Some (d\<lparr>props := (props d)\<lparr>npad := num\<rparr>\<rparr>)) va k"
proof -
  have "fst k f \<noteq> 37" "fst k f \<noteq> 99" "fst k f \<noteq> 0" using assms(1) by auto
  then show ?thesis using assms by (subst vsnprintf_loop.simps) (simp add: Let_def)
qed

lemma loop_conversion:
  "fst k f = 99 \<Longrightarrow> vsnprintf_loop f (Some d) (x # va) k = resume (f + 1) va (addchar (ucast x) k)"
  "fst k f = 100 \<Longrightarrow> nlong d \<le> 1 \<Longrightarrow>
    vsnprintf_loop f (Some d) (x # va) k = resume (f + 1) va (print_int (sint x) 10 (props d) k)"
  "fst k f = 120 \<Longrightarrow> nlong d \<le> 1 \<Longrightarrow>
    vsnprintf_loop f (Some d) (x # va) k = resume (f + 1) va (print_unsigned x 16 (props d) k)"
  "fst k f = 112 \<Longrightarrow> vsnprintf_loop f (Some d) (x # va) k =
    resume (f + 1) va (if_ok (print_chars (chars ''0x'') (props d) k) (print_unsigned x 16 (props d)))"
  "fst k f = 115 \<Longrightarrow> print_str x (props d) k = Some r \<Longrightarrow>
    vsnprintf_loop f (Some d) (x # va) k = resume (f + 1) va r"
  by (subst vsnprintf_loop.simps; simp add: Let_def resume_def)+

text \<open>From the percent sign to the conversion.\<close>

lemma loop_directive:
  assumes st: "stays m buf n f (item_text (Directive w l cv) @ rest)" and w: "width_ok w"
    and k: "k = emitted m buf n cs"
  obtains f' where "vsnprintf_loop f None va k = vsnprintf_loop f' (Some \<lparr>nlong = (if l then 1 else 0), props = blanks w\<rparr>) va k"
    "fst k f' = conv_char cv" "stays m buf n (f' + 1) rest"
proof -
  let ?start = "\<lparr>nlong = 0, props = \<lparr>pad = 32, npad = 0\<rparr>\<rparr>" and ?long = "if l then [108] else [] :: u8 list"
  have s1: "fst k f = 37" "stays m buf n (f + 1) (width_text w @ ?long @ conv_char cv # rest)"
    using stays_Cons [of m buf n f 37 "width_text w @ ?long @ conv_char cv # rest"] st by (simp_all add: k)
  define f2 where "f2 = f + 1 + of_nat (length (width_text w))"
  have s2: "stays m buf n f2 (?long @ conv_char cv # rest)" using stays_append(2) [OF s1(2)] by (simp add: f2_def)
  have w2: "vsnprintf_loop (f + 1) (Some ?start) va k = vsnprintf_loop f2 (Some \<lparr>nlong = 0, props = blanks w\<rparr>) va k"
  proof (cases w)
    case None
    then show ?thesis by (simp add: f2_def blanks_def)
  next
    case (Some lw)
    obtain left ds where lw: "lw = (left, ds)" by force
    define c where "c = hd (?long @ conv_char cv # rest)"
    have c: "?long @ conv_char cv # rest = c # tl (?long @ conv_char cv # rest)" "c \<in> {108, 99, 100, 120, 112, 115}"
      by (cases l; cases cv; simp add: c_def)+
    have "stays m buf n (f + 1) ((width_text w @ [c]) @ tl (?long @ conv_char cv # rest))" using s1(2) c(1) by simp
    note num = stays_append(1) [OF this, unfolded Some lw]
    have nd: "number_end c" "\<not> (48 \<le> sint c \<and> sint c \<le> 57)" using c(2) by (auto simp: number_end_def)
    obtain d ds' where ds: "ds = d # ds'" "d < 10" "left \<or> d \<noteq> 0" using w Some lw by (cases ds) auto
    have first: "fst k (f + 1) = (if left then 45 else digit_char d)"
      using stays_Cons(1) [of m buf n "f + 1" _ _ cs] num ds(1) by (cases left) (auto simp: k)
    have "49 \<le> sint (fst k (f + 1)) \<and> sint (fst k (f + 1)) \<le> 57 \<or> fst k (f + 1) = 45"
      using first ds(2,3) by (cases left) auto
    from loop_width [OF this] fmtnum_width [OF num w [unfolded Some lw] nd]
    show ?thesis by (simp add: k f2_def Some lw blanks_def algebra_simps)
  qed
  show thesis
  proof (cases l)
    case True
    have "fst k f2 = 108" "stays m buf n (f2 + 1) (conv_char cv # rest)"
      using stays_Cons [of m buf n f2 108 "conv_char cv # rest"] s2 True by (simp_all add: k)
    moreover have "fst k (f2 + 1) = conv_char cv" "stays m buf n (f2 + 1 + 1) rest"
      using stays_Cons [OF calculation(2)] by (simp_all add: k)
    ultimately show thesis using s1(1) w2 True
      by (intro that [of "f2 + 1"]) (simp_all add: loop_text(3) loop_long)
  next
    case False
    have "fst k f2 = conv_char cv" "stays m buf n (f2 + 1) rest"
      using stays_Cons [of m buf n f2 "conv_char cv" rest] s2 False by (simp_all add: k)
    then show thesis using s1(1) w2 False by (intro that [of f2]) (simp_all add: loop_text(3))
  qed
qed

text \<open>What the conversions for numbers put out.\<close>

lemma int_width_blanks: "width_ok w \<Longrightarrow> int_width (blanks w)"
proof (cases w)
  case (Some lw)
  obtain left ds where lw: "lw = (left, ds)" by force
  assume "width_ok w"
  moreover have "0 \<le> dec_value 0 ds" if "\<forall>d \<in> set ds. d < 10"
  proof -
    have "0 \<le> a \<Longrightarrow> 0 \<le> dec_value a ds" for a by (induction ds arbitrary: a) (simp_all add: dec_value_def)
    then show ?thesis by simp
  qed
  ultimately show ?thesis by (auto simp: int_width_def blanks_def Some lw)
qed (simp add: int_width_def blanks_def)

lemma numbers_emitted:
  fixes x y :: u32
  assumes "length cs < 2 ^ 31" "int_width p"
  shows "numeral_of 10 (nat \<bar>sint x\<bar>) ds \<Longrightarrow> sint x \<noteq> - (2 ^ 31) \<Longrightarrow>
      print_int (sint x) 10 p (emitted m buf n cs) = emit_result m buf n (cs @ field p ((if sint x < 0 then [45] else []) @ ds))"
    and "numeral_of 16 (unat y) ds \<Longrightarrow> print_unsigned y 16 p (emitted m buf n cs) = emit_result m buf n (cs @ field p ds)"
proof -
  show "print_int (sint x) 10 p (emitted m buf n cs) = emit_result m buf n (cs @ field p ((if sint x < 0 then [45] else []) @ ds))"
    if h: "numeral_of 10 (nat \<bar>sint x\<bar>) ds" "sint x \<noteq> - (2 ^ 31)"
  proof -
    have c: "int_chars (sint x) 10 = (if sint x < 0 then [45] else []) @ ds"
      using numeral_printed(2,3) [OF h(1)] by (cases "sint x < 0") simp_all
    have "nat \<bar>sint x\<bar> < 2 ^ 32" using sint_greater_eq [of x] sint_less [of x] by simp
    then have "length ds \<le> 32" by (rule numeral_length [OF h(1)]) simp_all
    then show ?thesis using h(2) assms by (simp add: print_int_def c print_chars_emitted)
  qed
  show "print_unsigned y 16 p (emitted m buf n cs) = emit_result m buf n (cs @ field p ds)" if h: "numeral_of 16 (unat y) ds"
  proof -
    have "length ds \<le> 32" by (rule numeral_length [OF h]) (use unat_bound [of y] in simp_all)
    then show ?thesis using assms numeral_printed(1) [OF h] by (simp add: print_unsigned_def print_chars_emitted)
  qed
qed

text \<open>How the loop ends when the stream would come to hold \<open>cs\<close>.\<close>

definition loop_end :: "mem \<Rightarrow> addr \<Rightarrow> nat \<Rightarrow> u8 list \<Rightarrow> (sink, u32 list) outcome option \<Rightarrow> bool" where
  "loop_end m buf n cs r \<longleftrightarrow> (if length cs < 2 ^ 31 then \<exists>va. r = Some (Ret va (emitted m buf n cs))
     else r = Some (Fault Signed_overflow))"

lemma loop_end_resume:
  assumes "length cs < 2 ^ 31 \<Longrightarrow> loop_end m buf n (cs @ ds) (vsnprintf_loop f None va (emitted m buf n cs))"
  shows "loop_end m buf n (cs @ ds) (resume f va (emit_result m buf n cs))"
  using assms by (auto simp: resume_def emit_result_def loop_end_def)

text \<open>A directive, given what its conversion does and what the rest of the format prints.\<close>

lemma directive_prints:
  assumes st: "stays m buf n f (concat (map item_text (Directive w l cv # is)) @ [0])" and w: "width_ok w"
    and conversion: "\<And>f' d. fst (emitted m buf n cs) f' = conv_char cv \<Longrightarrow> nlong d \<le> 1 \<Longrightarrow> props d = blanks w \<Longrightarrow>
      vsnprintf_loop f' (Some d) va (emitted m buf n cs) = resume (f' + 1) va2 (emit_result m buf n (cs @ es))"
    and rest: "\<And>f cs. stays m buf n f (concat (map item_text is) @ [0]) \<Longrightarrow> length cs < 2 ^ 31 \<Longrightarrow>
      loop_end m buf n (cs @ ds) (vsnprintf_loop f None va2 (emitted m buf n cs))"
  shows "loop_end m buf n (cs @ es @ ds) (vsnprintf_loop f None va (emitted m buf n cs))"
proof -
  have "stays m buf n f (item_text (Directive w l cv) @ concat (map item_text is) @ [0])"
    using st by (simp only: list.map concat.simps append_assoc)
  then obtain f' where f': "vsnprintf_loop f None va (emitted m buf n cs)
      = vsnprintf_loop f' (Some \<lparr>nlong = (if l then 1 else 0), props = blanks w\<rparr>) va (emitted m buf n cs)"
    "fst (emitted m buf n cs) f' = conv_char cv" "stays m buf n (f' + 1) (concat (map item_text is) @ [0])"
    by (rule loop_directive [OF _ w refl]) blast
  have "loop_end m buf n ((cs @ es) @ ds) (resume (f' + 1) va2 (emit_result m buf n (cs @ es)))"
    by (rule loop_end_resume [OF rest [OF f'(3)]])
  then show ?thesis unfolding f'(1) by (subst conversion [OF f'(2)]) simp_all
qed

text \<open>The loop prints what the items say, and comes to the end of the format.\<close>

lemma loop_prints:
  assumes "prints m buf n is va ds" "stays m buf n f (concat (map item_text is) @ [0])" "length cs < 2 ^ 31"
  shows "loop_end m buf n (cs @ ds) (vsnprintf_loop f None va (emitted m buf n cs))"
  using assms
proof (induction arbitrary: f cs rule: prints.induct)
  case (end_of_format va)
  then have "fst (emitted m buf n cs) f = 0" using stays_Cons(1) [of m buf n f 0 "[]" cs] by simp
  then show ?case using end_of_format(2) by (simp add: loop_text(1) loop_end_def)
next
  case (ordinary c "is" va ds)
  have st: "fst (emitted m buf n cs) f = c" "stays m buf n (f + 1) (concat (map item_text is) @ [0])"
    using stays_Cons [of m buf n f c "concat (map item_text is) @ [0]"] ordinary.prems by simp_all
  show ?case
    using st(1) ordinary.hyps loop_end_resume [OF ordinary.IH [OF st(2)], of "cs @ [c]"]
    by (simp add: loop_text(2) addchar_emitted)
next
  case (percent "is" va ds)
  let ?rest = "concat (map item_text is) @ [0]"
  have s1: "fst (emitted m buf n cs) f = 37" "stays m buf n (f + 1) (37 # ?rest)"
    using stays_Cons [of m buf n f 37 "37 # ?rest"] percent.prems by simp_all
  have s2: "fst (emitted m buf n cs) (f + 1) = 37" "stays m buf n (f + 1 + 1) ?rest"
    using stays_Cons [OF s1(2)] by simp_all
  show ?case using s1(1) s2(1) loop_end_resume [OF percent.IH [OF s2(2)], of "cs @ [37]"]
    by (simp add: loop_text(3) loop_percent addchar_emitted)
next
  case (char w "is" va ds l x)
  show ?case
    using directive_prints [OF char.prems(1) char.hyps(1) _ char.IH, of cs "x # va" "[ucast x]"] by (simp add: loop_conversion addchar_emitted)
next
  case (decimal w x es "is" va ds l)
  show ?case
    by (rule directive_prints [OF decimal.prems(1) decimal.hyps(1) _ decimal.IH])
      (simp_all only: conv_char.simps loop_conversion(2) numbers_emitted(1) [OF decimal.prems(2) int_width_blanks [OF decimal.hyps(1)] decimal.hyps(3,2)])
next
  case (hex w x es "is" va ds l)
  show ?case
    by (rule directive_prints [OF hex.prems(1) hex.hyps(1) _ hex.IH])
      (simp_all only: conv_char.simps loop_conversion(3) numbers_emitted(2) [OF hex.prems(2) int_width_blanks [OF hex.hyps(1)] hex.hyps(2)])
next
  case (pointer w x es "is" va ds l)
  note wd = int_width_blanks [OF pointer.hyps(1)]
  have ox: "chars ''0x'' = [48, 120]" by (simp add: chars_def)
  have two: "if_ok (print_chars [48, 120] (blanks w) (emitted m buf n cs)) (print_unsigned x 16 (blanks w)) =
      emit_result m buf n (cs @ field (blanks w) [48, 120] @ field (blanks w) es)"
    using if_ok_emit [of "cs @ field (blanks w) [48, 120]" "print_unsigned x 16 (blanks w)" m buf n "field (blanks w) es"]
      numbers_emitted(2) [OF _ wd pointer.hyps(2)] print_chars_emitted [OF pointer.prems(2) _ wd, of "[48, 120]"] by simp
  show ?case unfolding append_assoc [symmetric, of "field (blanks w) [48, 120]"]
    by (rule directive_prints [OF pointer.prems(1) pointer.hyps(1) _ pointer.IH])
      (simp_all only: conv_char.simps loop_conversion(4) ox two)
next
  case (string w x es "is" va ds l)
  show ?case
    by (rule directive_prints [OF string.prems(1) string.hyps(1) _ string.IH])
      (simp_all only: conv_char.simps loop_conversion(5) print_str_emitted [OF string.hyps(2,3,4) string.prems(2) int_width_blanks [OF string.hyps(1)]])
qed

section \<open>vsnprintf\<close>

lemma emitted_finish:
  assumes "emitted m buf n cs = (m1, p)"
  shows "m1(buffer p := 0) = store_bytes m buf (take n cs @ [0])" "added p = int (length cs)"
proof -
  have "m1 = store_bytes m buf (take n cs)" "p = snd (emitted m buf n cs)" using assms by (simp_all add: emitted_def)
  then show "m1(buffer p := 0) = store_bytes m buf (take n cs @ [0])" "added p = int (length cs)"
    by (simp_all add: store_bytes_append emitted_def min.commute)
qed

text \<open>
  C38: Formatted output. For a format made of ordinary characters, two percent signs, and directives with the
  conversions c, d, x, p and s, vsnprintf returns: the buffer of \<open>Suc n\<close> bytes holds the text the format
  denotes for its arguments (numbers as decimal or hexadecimal numerals), cut to n characters, and a NUL, nothing else in
  memory changes, and the result is the length of the whole text plus one. This is so as long as an int can hold
  the result; a longer text, which wide fields can ask for, overflows the counter of characters.
\<close>

theorem vsnprintf_prints:
  assumes "prints m buf n is va cs" and "stays m buf n fmt (concat (map item_text is) @ [0])"
  shows "vsnprintf buf (int n + 1) fmt va m =
    (if int (length cs) + 1 < 2 ^ 31 then Ret (int (length cs) + 1) (store_bytes m buf (take n cs @ [0]))
     else Fault Signed_overflow)"
proof -
  have run: "loop_end m buf n cs (vsnprintf_loop fmt None va (emitted m buf n []))"
    using loop_prints [OF assms, of "[]"] by simp
  obtain m1 p where k: "emitted m buf n cs = (m1, p)" by (rule prod.exhaust)
  have start: "(m, \<lparr>buffer = buf, remain = int n + 1 - 1, added = 0\<rparr>) = emitted m buf n []" by (simp add: emitted_Nil)
  show ?thesis
  proof (cases "length cs < 2 ^ 31")
    case True
    with run obtain va' where "vsnprintf_loop fmt None va (emitted m buf n []) = Some (Ret va' (emitted m buf n cs))"
      by (auto simp: loop_end_def)
    then show ?thesis unfolding vsnprintf_def start using emitted_finish [OF k] by (simp add: k)
  next
    case False
    with run have "vsnprintf_loop fmt None va (emitted m buf n []) = Some (Fault Signed_overflow)" by (simp add: loop_end_def)
    then show ?thesis unfolding vsnprintf_def start using False by simp
  qed
qed

text \<open>A name, a number in a field of four and one in hexadecimal, printed into 8 bytes.\<close>

theorem vsnprintf_prints_witness:
  "vsnprintf 0x1000 8 0x2000 [0x3000, -42, 0xe0] ((store_bytes (store_bytes (\<lambda>_. 0) 0x2000 (chars ''%s=%-4d%x'')) 0x3000 (chars ''cpu'')))
    = Ret 11 (store_bytes (store_bytes (store_bytes (\<lambda>_. 0) 0x2000 (chars ''%s=%-4d%x'')) 0x3000 (chars ''cpu'')) 0x1000
        (chars ''cpu=-42'' @ [0]))"
proof -
  let ?m = "store_bytes (store_bytes (\<lambda>_. 0) 0x2000 (chars ''%s=%-4d%x'')) 0x3000 (chars ''cpu'')"
  let ?is = "[Directive None False String_conv, Text 61, Directive (Some (True, [4])) False Decimal, Directive None False Hex]"
  have num: "numeral_of 10 42 (chars ''42'')" unfolding numeral_of_def
    by (rule exI [of _ "[4, 2]"]) (simp add: numeral_char_def value_of_def chars_def)
  have hex: "numeral_of 16 (unat (0xe0 :: u32)) (chars ''e0'')" unfolding numeral_of_def
    by (rule exI [of _ "[14, 0]"]) (simp add: numeral_char_def value_of_def chars_def)
  have dec: "numeral_of 10 (nat \<bar>sint (- 42 :: u32)\<bar>) (chars ''42'')" using num by simp
  have "stays ?m 0x1000 7 0x3000 (chars ''cpu'' @ [0])"
    by (simp add: stays_def chars_def apart_def)
  then have "prints ?m 0x1000 7 ?is [0x3000, -42, 0xe0] (field (blanks None) (chars ''cpu'') @ 61 #
      field (blanks (Some (True, [4]))) ((if sint (- 42 :: u32) < 0 then [45] else []) @ chars ''42'') @ field (blanks None) (chars ''e0'') @ [])"
    using dec hex by (intro prints.intros) (simp_all add: chars_def)
  moreover have "field (blanks None) (chars ''cpu'') @ 61 #
      field (blanks (Some (True, [4]))) ((if sint (- 42 :: u32) < 0 then [45] else []) @ chars ''42'') @ field (blanks None) (chars ''e0'') @ []
      = chars ''cpu=-42 e0''"
    by (simp add: field_def blanks_def chars_def)
  ultimately have "prints ?m 0x1000 7 ?is [0x3000, -42, 0xe0] (chars ''cpu=-42 e0'')" by simp
  moreover have "stays ?m 0x1000 7 0x2000 (concat (map item_text ?is) @ [0])"
    by (simp add: stays_def chars_def apart_def digit_char_def)
  ultimately show ?thesis using vsnprintf_prints [of ?m "0x1000" 7 ?is "[0x3000, -42, 0xe0]" "chars ''cpu=-42 e0''" "0x2000"]
    by (simp add: chars_def)
qed

text \<open>Whatever the format is, the sink keeps its shape as long as the loop runs.\<close>

definition in_buffer :: "mem \<Rightarrow> addr \<Rightarrow> nat \<Rightarrow> sink \<Rightarrow> bool" where
  "in_buffer m buf n k \<longleftrightarrow> (\<exists>cs. k = emitted m buf n cs)"

lemma in_buffer_addchar: "addchar c k = Inr k' \<Longrightarrow> in_buffer m buf n k \<Longrightarrow> in_buffer m buf n k'"
  by (auto simp: in_buffer_def addchar_step split: if_splits)

lemma if_ok_Inr: "if_ok r f = Inr k \<longleftrightarrow> (\<exists>k'. r = Inr k' \<and> f k' = Inr k)"
  by (cases r) simp_all

lemma in_buffer_put_chars: "put_chars cs k = Inr k' \<Longrightarrow> in_buffer m buf n k \<Longrightarrow> in_buffer m buf n k'"
  by (induction cs arbitrary: k) (auto simp: if_ok_Inr dest: in_buffer_addchar)

lemma in_buffer_print:
  assumes "in_buffer m buf n k"
  shows "add_pad c j k = Inr k' \<Longrightarrow> in_buffer m buf n k'" "print_chars ds p k = Inr k' \<Longrightarrow> in_buffer m buf n k'"
    "print_unsigned x b p k = Inr k' \<Longrightarrow> in_buffer m buf n k'" "print_int z b p k = Inr k' \<Longrightarrow> in_buffer m buf n k'"
proof -
  show pads: "add_pad c j k = Inr k' \<Longrightarrow> in_buffer m buf n k'" for c j
    using assms by (simp add: add_pad_def in_buffer_put_chars)
  have chars: "in_buffer m buf n k'" if h: "print_chars ds p k = Inr k'" for ds
  proof -
    obtain kl where kl: "(if npad p > 0 then let left = minus_len (npad p) (of_nat (length ds)) in
          map_sum id (\<lambda>k. (k, min left 0)) (add_pad (pad p) left k) else Inr (k, npad p)) = Inr kl"
      and rest: "(\<lambda>(k, left). if_ok (put_chars ds k) (\<lambda>k.
          if left < 0 then add_pad 32 (- plus_len left (of_nat (length ds))) k else Inr k)) kl = Inr k'"
      using h unfolding print_chars_def Let_def [of "of_nat (length ds)"] if_ok_Inr by blast
    obtain k1 left where first: "kl = (k1, left)" by (rule prod.exhaust)
    obtain k2 where k2: "put_chars ds k1 = Inr k2"
      and last: "(if left < 0 then add_pad 32 (- plus_len left (of_nat (length ds))) k2 else Inr k2) = Inr k'"
      using rest unfolding first prod.case if_ok_Inr by blast
    note first = kl [unfolded first]
    have "in_buffer m buf n k1"
    proof (cases "npad p > 0")
      case True
      then show ?thesis using first pads [of "pad p"]
        assms by (cases "add_pad (pad p) (minus_len (npad p) (of_nat (length ds))) k") (auto simp: Let_def add_pad_def intro: in_buffer_put_chars)
    qed (use first assms in simp)
    then have "in_buffer m buf n k2" by (rule in_buffer_put_chars [OF k2])
    then show ?thesis using last by (auto simp: add_pad_def intro: in_buffer_put_chars split: if_splits)
  qed
  then show "print_chars ds p k = Inr k' \<Longrightarrow> in_buffer m buf n k'" "print_unsigned x b p k = Inr k' \<Longrightarrow> in_buffer m buf n k'"
    "print_int z b p k = Inr k' \<Longrightarrow> in_buffer m buf n k'"
    by (auto simp: print_unsigned_def print_int_def split: if_splits)
qed

lemma in_buffer_put_str: "put_str s k = Some r \<Longrightarrow> in_buffer m buf n k \<Longrightarrow> r = Inr k' \<Longrightarrow> in_buffer m buf n k'"
proof (rule put_str.raw_induct [where P = "\<lambda>s k r. in_buffer m buf n k \<longrightarrow> (\<forall>k'. r = Inr k' \<longrightarrow> in_buffer m buf n k')", THEN mp, THEN spec, THEN mp], goal_cases)
  case (1 f s k r)
  show ?case
  proof (cases "fst k s = 0")
    case True
    then show ?thesis using 1(5) by auto
  next
    case False
    then show ?thesis using 1(4,5) in_buffer_addchar [of "fst k s" k] by (auto split: sum.splits)
  qed
qed

lemma in_buffer_print_str:
  assumes "print_str s p k = Some (Inr k')" "in_buffer m buf n k"
  shows "in_buffer m buf n k'"
proof -
  obtain r1 where r1: "(if npad p > 0 then Option.bind (strlen (fst k) s) (\<lambda>n. let left = minus_len (npad p) n in
        Some (map_sum id (\<lambda>k. (k, min left 0)) (add_pad (pad p) left k)))
      else Some (Inr (k, npad p))) = Some r1"
    and rest: "(case r1 of Inl x \<Rightarrow> Some (Inl x) | Inr (k, left) \<Rightarrow> Option.bind (put_str s k) (\<lambda>r. case r of Inl x \<Rightarrow> Some (Inl x) | Inr k \<Rightarrow>
     if left < 0 then Option.bind (strlen (fst k) s) (\<lambda>n. Some (add_pad 32 (- plus_len left n) k))
     else Some (Inr k))) = Some (Inr k')"
    using assms(1) unfolding print_str_def bind_eq_Some_conv [of _ "\<lambda>r. case r of Inl x \<Rightarrow> _ x | Inr y \<Rightarrow> _ y"] by blast
  obtain k1 left where kl: "r1 = Inr (k1, left)" using rest by (cases r1) auto
  obtain r where r: "put_str s k1 = Some r"
    and last: "(case r of Inl x \<Rightarrow> Some (Inl x) | Inr k \<Rightarrow>
     if left < 0 then Option.bind (strlen (fst k) s) (\<lambda>n. Some (add_pad 32 (- plus_len left n) k))
     else Some (Inr k)) = Some (Inr k')"
    using rest unfolding kl sum.case prod.case bind_eq_Some_conv [of "put_str s k1"] by blast
  note first = r1 [unfolded kl]
  from last obtain k2 where k2: "r = Inr k2" by (cases r) auto
  have "in_buffer m buf n k1"
  proof (cases "npad p > 0")
    case True
    then obtain j where "map_sum id (\<lambda>k. (k, min j 0)) (add_pad (pad p) j k) = Inr (k1, left)"
      using first by (auto simp: bind_eq_Some_conv Let_def)
    then show ?thesis using assms(2) by (cases "add_pad (pad p) j k") (auto simp: add_pad_def intro: in_buffer_put_chars)
  qed (use first assms(2) in simp)
  then have "in_buffer m buf n k2" by (rule in_buffer_put_str [OF r _ k2])
  then show ?thesis using last by (auto simp: k2 bind_eq_Some_conv add_pad_def intro: in_buffer_put_chars split: if_splits)
qed

definition safe_outcome :: "mem \<Rightarrow> addr \<Rightarrow> nat \<Rightarrow> (sink, 'a) outcome \<Rightarrow> bool" where
  "safe_outcome m buf n r \<longleftrightarrow> (case r of Ret _ k \<Rightarrow> in_buffer m buf n k | Panic k \<Rightarrow> in_buffer m buf n k
     | Handoff _ _ \<Rightarrow> False | Hang \<Rightarrow> False | Fault _ \<Rightarrow> True)"

lemma safe_loop: "vsnprintf_loop f dir va k = Some r \<Longrightarrow> in_buffer m buf n k \<Longrightarrow> safe_outcome m buf n r"
proof (rule vsnprintf_loop.raw_induct [where P = "\<lambda>f dir va k r. in_buffer m buf n k \<longrightarrow> safe_outcome m buf n r", THEN mp], goal_cases)
  case (1 loop fmt dir va k r)
  note go = 1(3) [THEN mp]
  show ?case
  proof
    assume k: "in_buffer m buf n k"
    have step: "safe_outcome m buf n r"
      if "(case r0 of Inl x \<Rightarrow> Some (Fault x) | Inr k \<Rightarrow> loop f dir va k) = Some r" "\<And>k'. r0 = Inr k' \<Longrightarrow> in_buffer m buf n k'"
      for r0 f dir va
      using that go k by (cases r0) (auto simp: safe_outcome_def)
    note good = in_buffer_addchar [OF _ k] in_buffer_print(2-4) [OF k]
    have stop: "safe_outcome m buf n (Ret va k)" "safe_outcome m buf n (Panic k)" "safe_outcome m buf n (Fault x)" for x
      using k by (simp_all add: safe_outcome_def)
    show "safe_outcome m buf n r"
    proof (cases dir)
      case None
      then show ?thesis using 1(4) go [OF _ k] stop step [OF _ good(1)] by (auto simp: Let_def split: if_splits)
    next
      case (Some d)
      have num: "safe_outcome m buf n r" if h: "Option.bind (fmtnum (fst k) fmt) (\<lambda>r. case r of Inl x \<Rightarrow> Some (Fault x)
          | Inr (num, fmt) \<Rightarrow> loop fmt (Some (d\<lparr>props := (props d)\<lparr>npad := num\<rparr>\<rparr>)) va k) = Some r"
      proof -
        obtain y where "(case y of Inl x \<Rightarrow> Some (Fault x)
          | Inr (num, fmt) \<Rightarrow> loop fmt (Some (d\<lparr>props := (props d)\<lparr>npad := num\<rparr>\<rparr>)) va k) = Some r"
          using h unfolding bind_eq_Some_conv by blast
        then show ?thesis using go k stop(3) by (auto split: sum.split_asm prod.split_asm)
      qed
      have str: "safe_outcome m buf n r" if h: "Option.bind (print_str x (props d) k) (\<lambda>r. case r of Inl x \<Rightarrow> Some (Fault x)
          | Inr k \<Rightarrow> loop (fmt + 1) None va k) = Some r" for x va
      proof -
        obtain r0 where "print_str x (props d) k = Some r0"
          "(case r0 of Inl x \<Rightarrow> Some (Fault x) | Inr k \<Rightarrow> loop (fmt + 1) None va k) = Some r"
          using h unfolding bind_eq_Some_conv by blast
        then show ?thesis using step in_buffer_print_str [OF _ k] by blast
      qed
      have ptr: "if_ok (print_chars cs (props d) k) (print_unsigned x b (props d)) = Inr k' \<Longrightarrow> in_buffer m buf n k'" for cs x b k'
        unfolding if_ok_Inr using in_buffer_print(2) [OF k] in_buffer_print(3) by blast
      show ?thesis using 1(4) unfolding Some Let_def option.case
        by (auto split: if_splits list.splits
            intro: go [OF _ k] stop num str step [OF _ good(1)] step [OF _ good(3)] step [OF _ good(4)] step [OF _ ptr])
    qed
  qed
qed

text \<open>
  C39: No overrun. Whatever the format and the arguments are, with a buffer of at least one byte vsnprintf writes
  nowhere outside its buffer: if it returns, the buffer got some text, cut to its size less one, and a NUL, and
  the result is the length of that text plus one; if it panics on a doubled l, only bytes of the buffer but its
  last have changed.
\<close>

theorem vsnprintf_in_bounds:
  assumes "0 < sz"
  shows "case vsnprintf buf sz fmt va m of
      Ret r m' \<Rightarrow> \<exists>cs. m' = store_bytes m buf (take (nat sz - 1) cs @ [0]) \<and> r = int (length cs) + 1
    | Panic m' \<Rightarrow> \<exists>cs. m' = store_bytes m buf (take (nat sz - 1) cs)
    | _ \<Rightarrow> True"
proof -
  define n where "n = nat sz - 1"
  note n_eq = n_def [symmetric]
  have start: "(m, \<lparr>buffer = buf, remain = sz - 1, added = 0\<rparr>) = emitted m buf n []"
    using assms by (simp add: emitted_Nil n_def)
  show ?thesis
  proof (cases "vsnprintf_loop fmt None va (emitted m buf n [])")
    case None
    then show ?thesis by (simp add: vsnprintf_def start)
  next
    case (Some r)
    have "in_buffer m buf n (emitted m buf n [])" by (auto simp: in_buffer_def)
    from safe_loop [OF Some this] have safe: "safe_outcome m buf n r" .
    show ?thesis
    proof (cases r)
      case (Ret va' k)
      then obtain cs where cs: "k = emitted m buf n cs" using safe by (auto simp: safe_outcome_def in_buffer_def)
      obtain m1 p where mp: "emitted m buf n cs = (m1, p)" by (rule prod.exhaust)
      show ?thesis unfolding n_eq using emitted_finish [OF mp]
        by (auto simp: vsnprintf_def start Some Ret cs mp simp del: fun_upd_apply store_bytes.simps)
    next
      case (Panic k)
      then obtain cs where cs: "k = emitted m buf n cs" using safe by (auto simp: safe_outcome_def in_buffer_def)
      obtain m1 p where mp: "emitted m buf n cs = (m1, p)" by (rule prod.exhaust)
      then have "m1 = store_bytes m buf (take n cs)" by (simp add: emitted_def)
      then show ?thesis unfolding n_eq by (auto simp: vsnprintf_def start Some Panic cs mp)
    qed (use safe in \<open>simp_all add: safe_outcome_def vsnprintf_def start Some\<close>)
  qed
qed

theorem vsnprintf_in_bounds_witness:
  "case vsnprintf 0x1000 4 0x2000 [] (store_bytes (\<lambda>_. 0) 0x2000 (chars ''%llx'')) of
      Ret r m' \<Rightarrow> \<exists>cs. m' = store_bytes (store_bytes (\<lambda>_. 0) 0x2000 (chars ''%llx'')) 0x1000 (take (nat 4 - 1) cs @ [0]) \<and> r = int (length cs) + 1
    | Panic m' \<Rightarrow> \<exists>cs. m' = store_bytes (store_bytes (\<lambda>_. 0) 0x2000 (chars ''%llx'')) 0x1000 (take (nat 4 - 1) cs)
    | _ \<Rightarrow> True"
  using vsnprintf_in_bounds [where sz = 4 and buf = "0x1000" and fmt = "0x2000" and va = "[]" and m = "store_bytes (\<lambda>_. 0) 0x2000 (chars ''%llx'')"]
  by (simp only: zero_less_numeral)

section \<open>Reading numbers back\<close>

text \<open>
  C40: Printing and reading a number are inverse: atol reads back every long that print_int can print in base
  10, whatever follows it that is not a digit.
\<close>

theorem number_round_trip:
  assumes "- (2 ^ 31) < z" "z < 2 ^ 31" and "number_end c"
  shows "atol (store_bytes m p (int_chars z 10 @ [c])) p = Some (Inr z)"
proof -
  let ?ds = "decimal (nat \<bar>z\<bar>)" and ?sg = "if z < 0 then [45] else [] :: u8 list"
  have tx: "int_chars z 10 @ [c] = [] @ ?sg @ map digit_char ?ds @ [c]" by (simp add: int_chars_decimal)
  have val: "dec_value 0 ?ds = \<bar>z\<bar>" using decimal_digits(3) [of "nat \<bar>z\<bar>"] by simp
  have "length (decimal k) \<le> Suc k" for k
    by (induction k rule: decimal.induct; subst decimal.simps) auto
  then have "length ?ds \<le> Suc (nat \<bar>z\<bar>)" .
  moreover have "nat \<bar>z\<bar> < 2147483648" using assms by simp
  moreover have "length (int_chars z 10 @ [c]) \<le> 2 + length ?ds" by (simp add: int_chars_decimal)
  ultimately have "length (int_chars z 10 @ [c]) \<le> 4294967296" by linarith
  then have "length (int_chars z 10 @ [c]) \<le> 2 ^ 32" by simp
  then have rd: "load_bytes (store_bytes m p (int_chars z 10 @ [c])) p (length (int_chars z 10 @ [c])) = int_chars z 10 @ [c]"
    by (simp only: load_store_same)
  have ws: "\<forall>c \<in> set []. c = 32 \<or> c = (9 :: u8)" by simp
  have sg: "?sg \<in> {[], [43], [45]}" by simp
  have "atol (store_bytes m p (int_chars z 10 @ [c])) p = Some (if dec_value 0 ?ds < 2 ^ 31
      then Inr (if ?sg = [45] then - dec_value 0 ?ds else dec_value 0 ?ds) else Inl Signed_overflow)"
    by (rule atol_number [OF ws sg decimal_digits(1,2) assms(3) rd [unfolded tx], folded tx])
  then show ?thesis using val assms by auto
qed

theorem number_round_trip_witness:
  "atol (store_bytes (\<lambda>_. 0) 0x1000 (int_chars (- 1024) 10 @ [0])) 0x1000 = Some (Inr (- 1024))"
  by (rule number_round_trip) (simp_all add: number_end_def)

text \<open>
  A flag 0 ends the directive: the character after it is skipped, no argument is taken, and a 0 is printed.
\<close>

lemma zero_flag:
  assumes "fst k f = 37" "fst k (f + 1) = 48"
  shows "vsnprintf_loop f None va k = resume (f + 3) va (addchar 48 k)"
proof -
  have "vsnprintf_loop (f + 1) (Some d) va k = resume (f + 1 + 2) va (addchar 48 k)" for d
    using assms(2) by (subst vsnprintf_loop.simps; cases "addchar 48 k") (simp_all add: Let_def resume_def)
  from this [of "\<lparr>nlong = 0, props = \<lparr>pad = 32, npad = 0\<rparr>\<rparr>"] show ?thesis
    unfolding loop_text(3) [OF assms(1)] by (simp only: add.assoc one_plus_numeral semiring_norm)
qed

end
