(* ===== verification/Fwspec.thy ===== *)
theory Fwspec
  imports Reference
begin

text \<open>
  What fw_cfg.c promises the components that read from the device, for every device that behaves as
  documented, and the evaluation of these promises on the reference platform.
\<close>

text \<open>
  C2: Reading an entry. Whatever version the device reports, that is whether it is read byte by byte through
  the data port or by DMA, \<open>fw_cfg_read_entry\<close> comes back (the wait for the DMA engine ends), the buffer then
  holds the first \<open>len\<close> bytes of the entry, and the two transports leave the same memory everywhere but in the
  DMA descriptor on the stack.
\<close>

theorem transports_agree:
  assumes "fw_cfg_device env sel off E" and "apart buf (unat len) (dma_desc env) 16"
  shows "\<exists>s1 s2. fw_cfg_read_entry env e buf len (s\<lparr>version := v\<rparr>) = Ret () s1 \<and>
    fw_cfg_read_entry env e buf len (s\<lparr>version := v'\<rparr>) = Ret () s2 \<and>
    load_bytes (mem s1) buf (unat len) = entry_bytes E (ucast e) 0 (unat len) \<and>
    (\<forall>a. \<not> inside a (dma_desc env) 16 \<longrightarrow> mem s1 a = mem s2 a \<and>
       (\<not> inside a buf (unat len) \<longrightarrow> mem s1 a = mem s a))"
proof -
  let ?bs = "entry_bytes E (ucast e) 0 (unat len)"
  note read = fw_cfg_port.fw_cfg_read_entry_delivers [OF fw_cfg_port.intro [OF assms(1)] assms(2), of e]
  obtain s1 where s1: "fw_cfg_read_entry env e buf len (s\<lparr>version := v\<rparr>) = Ret () s1"
    "delivered env buf ?bs (s\<lparr>version := v\<rparr>) s1" using read by blast
  obtain s2 where s2: "fw_cfg_read_entry env e buf len (s\<lparr>version := v'\<rparr>) = Ret () s2"
    "delivered env buf ?bs (s\<lparr>version := v'\<rparr>) s2" using read by blast
  have at: "mem s1 a = store_bytes (mem s) buf ?bs a" "mem s2 a = store_bytes (mem s) buf ?bs a"
    if "\<not> inside a (dma_desc env) 16" for a
    using s1(2) s2(2) that by (simp_all add: delivered_def)
  have len: "length ?bs \<le> 2 ^ 32" using unat_bound [of len] by simp
  have "load_bytes (mem s1) buf (unat len) = load_bytes (store_bytes (mem s) buf ?bs) buf (unat len)"
    using assms(2) by (intro load_bytes_cong at(1)) (simp add: apart_not_inside apart_commute)
  also have "\<dots> = ?bs" using len by (intro load_store_same) simp_all
  finally show ?thesis
    using s1(1) s2(1) at len by (intro exI [of _ s1] exI [of _ s2]) (simp add: store_bytes_at)
qed

definition greeting :: "(string \<times> u8 list) list" where
  "greeting = [(''opt/a'', [1, 2, 3]), (''opt/b'', [4, 5])]"

lemma greeting_good: "good_files greeting"
  by (simp add: good_files_def greeting_def chars_def)

theorem transports_agree_witness:
  "\<exists>s1 s2. fw_cfg_read_entry (ref_env (contents greeting)) 0x21 0x5000 2 (boot_machine (\<lambda>_. 0)\<lparr>version := 3\<rparr>) = Ret () s1 \<and>
     fw_cfg_read_entry (ref_env (contents greeting)) 0x21 0x5000 2 (boot_machine (\<lambda>_. 0)\<lparr>version := 1\<rparr>) = Ret () s2 \<and>
     load_bytes (mem s1) 0x5000 2 = [4, 5]"
proof -
  have "entry_bytes (contents greeting) 0x21 0 2 = [4, 5]"
    by (intro entry_bytes_byte_of) (simp_all add: contents_def greeting_def)
  moreover have "apart 0x5000 (unat (2 :: u32)) (dma_desc (ref_env (contents greeting))) 16"
    by (simp add: apart_def)
  ultimately show ?thesis
    using transports_agree [OF ref_device [of "contents greeting"], where buf = "0x5000" and len = 2 and e = "0x21"
      and s = "boot_machine (\<lambda>_. 0)" and v = 3 and v' = 1]
    by auto
qed

text \<open>
  C3: The directory. \<open>fw_cfg_setup\<close> returns, and the table it leaves in memory, read in host byte order, is the
  directory the device advertises in big-endian order, file by file; \<open>filecnt\<close> and \<open>version\<close> are what the
  device says; the table takes the next free F-segment block and nothing else in memory changes but the DMA
  descriptor.
\<close>

theorem fw_cfg_setup_reads_directory:
  assumes "fw_cfg_device env sel off E" and "advertises E dir" and "room_for env s (64 * length dir)"
  shows "\<exists>s'. fw_cfg_setup env s = Ret () s' \<and> file_table s' = dir \<and> unat (filecnt s') = length dir \<and>
    version s' = le_word (entry_bytes E FW_CFG_ID 0 4) \<and>
    unat (fseg_base s) \<le> unat (files s') \<and> fseg_base s' = files s' + 64 * of_nat (length dir) \<and>
    (\<forall>a. \<not> inside a (dma_desc env) 16 \<and> \<not> inside a (files s') (64 * length dir) \<longrightarrow> mem s' a = mem s a)"
proof -
  obtain s' where s': "fw_cfg_setup env s = Ret () s'" "file_table s' = dir"
    "s' = s\<lparr>mem := mem s', dev := dev s', version := le_word (entry_bytes E FW_CFG_ID 0 4),
      filecnt := of_nat (length dir), files := fseg_next s,
      fseg_base := fseg_next s + 64 * of_nat (length dir)\<rparr>"
    "\<forall>a. \<not> inside a (dma_desc env) 16 \<and> \<not> inside a (fseg_next s) (64 * length dir) \<longrightarrow> mem s' a = mem s a"
    using fw_cfg_port.fw_cfg_setup_directory [OF fw_cfg_port.intro [OF assms(1)] assms(2,3)] by blast
  have fields: "version s' = le_word (entry_bytes E FW_CFG_ID 0 4)" "filecnt s' = of_nat (length dir)"
    "files s' = fseg_next s" "fseg_base s' = fseg_next s + 64 * of_nat (length dir)"
    by (subst s'(3), simp)+
  have "unat (filecnt s') = length dir"
    unfolding fields(2) using assms(3) by (intro unat_of_nat_u32) (simp add: room_for_def)
  with fields s' fseg_next_bounds(1) [OF assms(3)] show ?thesis by (intro exI [of _ s']) simp
qed

theorem fw_cfg_setup_reads_directory_witness:
  "\<exists>s'. fw_cfg_setup (ref_env (contents greeting)) (boot_machine (\<lambda>_. 0)) = Ret () s' \<and>
     map file_size (file_table s') = [3, 2] \<and> version s' = 3"
proof -
  have room: "room_for (ref_env (contents greeting)) (boot_machine (\<lambda>_. 0)) (64 * length (make_dir greeting))"
    by (simp add: room_for_def boot_machine_def greeting_def)
  have "entry_bytes (contents greeting) FW_CFG_ID 0 4 = [3, 0, 0, 0]"
    by (intro entry_bytes_byte_of) (simp_all add: contents_def word_le_nat_alt)
  then show ?thesis
    using fw_cfg_setup_reads_directory [OF ref_device contents_advertises [OF greeting_good] room]
    by (auto simp: make_dir_def make_file_def greeting_def)
qed

text \<open>
  C4: Files by name. For a string in memory or in the program, \<open>fw_cfg_file_id\<close> is -1 when no file of the
  directory has that name; otherwise it is the number of the first file that has it, \<open>fw_cfg_file_size\<close> is
  that file's size, and \<open>fw_cfg_read_file\<close> delivers the bytes of the entry the file's selector names. (A name
  of 56 characters fills the field, has no NUL after it, and is never found.)
\<close>

theorem files_by_name:
  assumes "fw_cfg_device env sel off E" and "is_string name cs"
    and "apart buf (unat len) (dma_desc env) 16"
  shows "case index_of (file_named cs) (file_table s) of
      None \<Rightarrow> fw_cfg_file_id name s = -1 \<and> fw_cfg_file_size (fw_cfg_file_id name s) s = 0
    | Some i \<Rightarrow> unat (fw_cfg_file_id name s) = i \<and>
        fw_cfg_file_size (fw_cfg_file_id name s) s = file_size (file_table s ! i) \<and>
        (\<exists>s'. fw_cfg_read_file env (fw_cfg_file_id name s) buf len s = Ret () s' \<and>
          delivered env buf (entry_bytes E (file_select (file_table s ! i)) 0 (unat len)) s s')"
proof (cases "index_of (file_named cs) (file_table s)")
  case None
  then show ?thesis by (simp add: fw_cfg_file_id_index [OF assms(2)] fw_cfg_file_size_def)
next
  case (Some i)
  then have i: "i < length (file_table s)" and fid: "fw_cfg_file_id name s = of_nat i"
    by (simp_all add: fw_cfg_file_id_index [OF assms(2)] index_of_less)
  from fw_cfg_port.fw_cfg_read_file_delivers [OF fw_cfg_port.intro [OF assms(1)] i assms(3)]
  show ?thesis unfolding Some option.case fid unat_of_nat_file [OF i] fw_cfg_file_size_entry [OF i] by blast
qed

theorem files_by_name_witness:
  "unat (fw_cfg_file_id (literal ''opt/b'') (loaded_machine greeting)) = 1 \<and>
   fw_cfg_file_size (fw_cfg_file_id (literal ''opt/b'') (loaded_machine greeting)) (loaded_machine greeting) = 2"
proof -
  let ?s = "loaded_machine greeting"
  have str: "is_string (literal ''opt/b'') (chars ''opt/b'')"
    unfolding chars_def by (rule is_string_literal) simp
  have apart: "apart 0x5000 (unat (2 :: u32)) (dma_desc (ref_env (contents greeting))) 16" by (simp add: apart_def)
  have "file_named (chars ''opt/b'') (make_file 1 (''opt/b'', [4, 5]))"
    "\<not> file_named (chars ''opt/b'') (make_file 0 (''opt/a'', [1, 2, 3]))"
    by (subst file_named_make; simp add: chars_def)+
  then have "index_of (file_named (chars ''opt/b'')) (make_dir greeting) = Some 1"
    by (simp add: greeting_def make_dir_def)
  then show ?thesis
    using files_by_name [OF ref_device [of "contents greeting"] str apart, of ?s]
    by (simp add: loaded_file_table [OF greeting_good]) (simp add: make_dir_def make_file_def greeting_def)
qed

end
