(* ===== verification/Spec2Isabelle.thy ===== *)
theory Spec2Isabelle
  imports Libspec Pvhspec Endspec Mainspec Printspec Fwspec
begin

text \<open>
  Verification of qboot, a minimal x86 firmware that boots a kernel in a QEMU virtual machine.

  \<^bold>\<open>The program.\<close> The code runs once, on one processor, from reset to the kernel. The assembly of src/entry.S
  and src/cstart.S brings the processor to 32-bit mode and calls \<open>main\<close> of src/main.c, which calls one
  component after the other:

    \<^item> \<open>setup_hw\<close> and \<open>setup_mmconfig\<close> (src/hwsetup.c) program the chipset and copy the firmware from ROM to RAM;
    \<^item> \<open>setup_pci\<close> (src/pci.c) numbers the PCI buses and assigns interrupt lines;
    \<^item> \<open>setup_idt\<close> (src/main.c) fills the real-mode vector table;
    \<^item> \<open>fw_cfg_setup\<close> (src/fw_cfg.c) reads the directory of files that QEMU offers;
    \<^item> \<open>extract_acpi\<close> (src/tables.c) runs the script that loads and links the ACPI tables;
    \<^item> \<open>extract_e820\<close> (src/main.c) builds the memory map;
    \<^item> \<open>setup_mptable\<close> (src/mptable.c) and \<open>extract_smbios\<close> (src/smbios.c) build two more sets of tables;
    \<^item> \<open>boot_from_fwcfg\<close> (src/fw_cfg.c, src/linuxboot.c) loads a kernel by one of three protocols and jumps to it.

  Two components are called by the operating system later: the real-mode services (src/code16.c) and the
  32-bit PCI BIOS (src/code32seg.c). They meet the rest through memory: the E820 map in its block, whose segment is
  \<open>e820_seg\<close>, and the variable \<open>max_bus\<close>. All components share the two heaps of src/malloc.c, the routines of
  src/string.c and the headers of src/include.

  \<^bold>\<open>How the code is modelled.\<close> A function of the code that changes state is a function of type \<open>('d, 'a) fw\<close>, from a
  \<open>machine\<close> to an outcome: \<open>Ret\<close> with a value, \<open>Panic\<close> for \<open>panic()\<close>, \<open>Fault\<close> for undefined behaviour the code
  runs into (an index out of bounds, signed overflow), \<open>Handoff\<close> with the registers a kernel is started with, and
  \<open>Hang\<close> for a loop that does not end (theory Prelude). The machine is the
  flat 4 GiB memory, byte by byte, the state of the devices, and the static variables that nobody reaches through a
  pointer (theory Machine). Tables, strings and structures are in memory, at their offsets; machine integers keep
  their width, with \<open>unat\<close> and \<open>sint\<close> for the two readings of one. What is not in the repository is the parameter
  \<open>env\<close>: the devices behind the I/O ports, and the addresses that the linker and the compiler choose. The type of the device
  state is a variable; the documented behaviour of a device is a predicate, \<open>fw_cfg_device\<close> (theory Fwcfg) and
  \<open>pci_device\<close> (theory Pcispec), \<open>has_pic\<close> and \<open>pam_controls\<close> (theory Hwspec), that the properties about it assume. \<open>pci_device\<close> is
  configuration mechanism 1: the data port acts on a register only while bit 31 of CONFIG_ADDRESS is set, and a write changes what
  the argument \<open>wr\<close> says, bit by bit; \<open>takes wr r bits\<close> says which bits of a register take the value written. A property
  asks this of the registers that the code writes and that the manuals say are writable, and of no others. \<open>has_pic\<close> has the initialisation
  words of the 8259A, with their single and level-triggered bits, and the edge/level registers. \<open>pam_controls\<close> says how the attribute register of the F-segment
  selects RAM or ROM: \<open>io_read\<close> and \<open>io_writable\<close> of \<open>env\<close> are what loads and stores see, and \<open>setup_hw\<close>, which runs before RAM is mapped there, is
  the one function that goes through them. Theory Reference has an executable platform
  that satisfies all of these, on which the properties are evaluated.

  \<^bold>\<open>Theories.\<close>

    \<^item> Prelude: word types, outcomes and sequencing, bounded loops, distances between addresses, searching a list.
    \<^item> Memory: src/include/string.h (memcpy, memset), memaccess.h, bswap.h and segment.h; \<open>inside\<close> and \<open>apart\<close> for regions;
      the locale \<open>codec\<close> for fixed-size encodings and arrays of them, interpreted on the integers of both byte orders.
    \<^item> Structs: the structures of src/include/mpspec_def.h, start_info.h and multiboot.h and of src/smbios.c as records, each with
      the bytes of its fields in their order, and an interpretation of \<open>codec\<close> at the size \<open>sizeof\<close> gives.
    \<^item> Cstring: src/string.c. Alloc: src/malloc.c, with the locale \<open>bump_allocator\<close>, interpreted on both heaps. Libspec: what they promise.
    \<^item> Machine: the state, and src/include/ioport.h.
    \<^item> Fwcfg: src/include/fw_cfg.h and the reading half of src/fw_cfg.c, with the locale \<open>fw_cfg_port\<close> under which all clients of the
      device are verified; it is interpreted on the reference platform. Fwdir: the directory. Fwspec: what they promise.
    \<^item> Acpi: src/tables.c, the commands one by one. Acpispec: the script as a list of commands with a meaning, and extract_acpi as its implementation.
    \<^item> E820: src/main.c (the map, the vectors) and src/code16.c, src/include/e820.h.
    \<^item> Linuxboot: src/linuxboot.c. Boot: the booting half of src/fw_cfg.c. Bootspec, Pvhspec, Bzspec: the three protocols from end to end.
      Endspec: how \<open>boot_from_fwcfg\<close> ends.
    \<^item> Smbios: src/smbios.c. Mptable: src/mptable.c.
    \<^item> Pci: src/include/pci.h and src/pci.c. Pcispec: configuration mechanism 1 as the locale \<open>pci_port\<close>, routing, the host bridge.
      Pcienum: the enumeration, with the locale \<open>pci_visit\<close> between pci_foreach and its callback. Pcibios: src/code32seg.c.
    \<^item> Hwsetup: src/hwsetup.c. Hwspec: what it and the PCI BIOS promise.
    \<^item> Printf: src/printf.c; a piece of output yields a sink or the overflow of a counter. Printspec: its output as a relation on the format, with
      numerals described on their own, not by the code's conversion, and the buffer as a bounded sink.
    \<^item> Qboot: \<open>main\<close>. Hwmain: its first half, \<open>prepare_hardware\<close>, by the calculus \<open>calm\<close> of programs that return and leave the
      identity of the PCI functions alone. Mainspec: the rest, the components in their order up to a Linux kernel.

  Names are those of the code; a loop has the name of its function with the suffix \<open>_loop\<close>, or the name of what it does.
  Constants are abbreviations with the name of the macro or enumerator.

  \<^bold>\<open>What is shown.\<close>

    \<^item> Interfaces: both transports of fw_cfg deliver the same bytes and end; the directory in memory is the one
      on the device; lookup finds the first file of a name. Configuration registers read back what was written.
      Blocks of the two heaps are aligned and never meet.
    \<^item> Tables for the operating system: the bytes that are published, in full, and their checksums: the E820 map and the service
      that returns it, the MP tables, the SMBIOS anchor and tables, the linked ACPI tables, the vector table.
    \<^item> The whole run: the hardware phase returns with the image in RAM; what each component builds is still there when the kernel starts. Every component has a lemma on the memory it
      leaves alone (the stack below 0x9fc00 and its own blocks are all it writes), and \<open>tables_kept\<close> carries the tables over the rest.
    \<^item> Booting: for each protocol the state at the hand-over; where a bzImage goes; and that control comes back only when nothing is offered, and leaves only by the jump that the setup block calls for.
    \<^item> Hardware: the shadow copy, from a machine whose F-segment is ROM or RAM, the interrupt controllers, MMCONFIG, the buses and bridges, interrupt routing, the PCI BIOS.
    \<^item> Library: the C string routines against lists of bytes, formatted output against a relation on formats, and its bound.
    \<^item> Failures: which scripts the loader refuses or faults on, what the PCI BIOS answers to what it does not know.

  \<^bold>\<open>Bounds and fuel.\<close> Loops that count up to a bound in memory (\<open>for_below\<close>) have \<open>2 ^ 31\<close> rounds of fuel, which is
  enough for every value of the signed counter; the round after that would be a signed overflow. The recursion of
  \<open>setup_pci\<close> over bridges takes the depth of the bus tree as its argument \<open>n\<close>, and is \<open>Hang\<close> beyond it. Loops that may not end are
  partial functions into \<open>option\<close> (the string routines and the formats of printf: memory may hold no NUL; the search for a type 0
  structure) or \<open>while_option\<close> (the wait for DMA), and the properties say when they end.
  The hypotheses about room and separate places are those under which the code itself works: it does not check them.

  \<^bold>\<open>Not modelled.\<close> The assembly of entry.S and cstart.S, the linker script flat.lds and assembly.h: reset vector, mode switches, the
  saving of registers around the handlers. The trampolines that start a kernel are represented by the
  values they are given. The writes under \<open>BENCHMARK_HACK\<close> (benchmark.h), which the build leaves out. The macros of const.h and the
  constants of processor-flags.h, which only the assembly and one flag of code16.c use; declarations
  without code (stdio.h, stdlib.h, smbios.h); the parts of multiboot.h, start_info.h and mpspec_def.h that no code uses. meson.build, README and LICENSE.
  The compiler's treatment of undefined behaviour other than the \<open>Fault\<close>s named above is not modelled, nor is the stack apart from the locals
  whose address reaches a device or a kernel.
\<close>

end
